(* ===== verification/Prelude.thy ===== *)
theory Prelude
  imports Main "HOL-Library.Word" "HOL-Library.Sublist" "HOL-Library.Code_Target_Nat"
begin

text \<open>
  Shared vocabulary of the LatticeShield development.

  \<^item> byte strings and machine integers (\<open>bytes\<close>, \<open>u32\<close>, \<open>u64\<close>) and Rust's
    \<open>Result\<close> as the sum type with the names \<open>Ok\<close> and \<open>Err\<close>;
  \<^item> big-endian integer encodings (\<open>to_be_bytes\<close> / \<open>from_be_bytes\<close> of \<open>u32\<close> and \<open>u64\<close>);
  \<^item> the byte-stream side of tokio that the sources use: \<open>read_exact\<close> on the bytes a
    peer delivers before it closes, \<open>write_all\<close> on a writer that may break after some
    number of bytes;
  \<^item> the collections of rewrite rules the component theories use, and the interface
    locales that several components implement.
\<close>

named_theorems layout_defs \<open>wire sizes and offsets\<close>
named_theorems io_simps \<open>reading from and writing to byte streams\<close>

type_synonym byte = "8 word"
type_synonym bytes = "byte list"
type_synonym u32 = "32 word"
type_synonym u64 = "64 word"

abbreviation Ok :: "'a \<Rightarrow> 'e + 'a" where "Ok \<equiv> Inr"
abbreviation Err :: "'e \<Rightarrow> 'e + 'a" where "Err \<equiv> Inl"

abbreviation is_ok :: "'e + 'a \<Rightarrow> bool" where "is_ok r \<equiv> \<exists>x. r = Ok x"
abbreviation is_err :: "'e + 'a \<Rightarrow> bool" where "is_err r \<equiv> \<exists>e. r = Err e"

text \<open>\<open>Result::map_err\<close>.\<close>

fun map_err :: "('e \<Rightarrow> 'f) \<Rightarrow> 'e + 'a \<Rightarrow> 'f + 'a" where
  "map_err f (Err e) = Err (f e)"
| "map_err f (Ok x) = Ok x"

lemma map_err_Ok_iff [simp]: "map_err f r = Ok x \<longleftrightarrow> r = Ok x"
  by (cases r) auto

lemma map_err_Err_iff: "map_err f r = Err e \<longleftrightarrow> (\<exists>e'. r = Err e' \<and> e = f e')"
  by (cases r) auto

text \<open>A run of \<open>if ... { bail!(...) }\<close>: the error of the first condition that holds.\<close>

fun bail_checks :: "(bool \<times> 'e) list \<Rightarrow> 'e + unit" where
  "bail_checks [] = Ok ()"
| "bail_checks ((c, e) # cs) = (if c then Err e else bail_checks cs)"

text \<open>Sequencing with the question mark operator.\<close>

definition and_then :: "'e + 'a \<Rightarrow> ('a \<Rightarrow> 'e + 'b) \<Rightarrow> 'e + 'b" where
  "and_then r f = (case r of Err e \<Rightarrow> Err e | Ok x \<Rightarrow> f x)"

lemma and_then_Ok [simp]: "and_then r f = Ok y \<longleftrightarrow> (\<exists>x. r = Ok x \<and> f x = Ok y)"
  by (cases r) (auto simp: and_then_def)

lemma bail_checks_Ok [simp]: "bail_checks cs = Ok u \<longleftrightarrow> (\<forall>(c, e) \<in> set cs. \<not> c)"
  by (induction cs rule: bail_checks.induct) auto

declare bail_checks.simps [simp del]

lemma distinct_count_list: "distinct xs \<longleftrightarrow> (\<forall>x. count_list xs x \<le> 1)"
proof (induction xs)
  case Nil
  then show ?case by simp
next
  case (Cons y ys)
  have "y \<notin> set ys \<longleftrightarrow> count_list ys y = 0" by (simp add: count_list_0_iff)
  with Cons show ?case by (auto simp: le_Suc_eq split: if_splits)
qed

text \<open>Byte string literals (\<open>b"..."\<close>).\<close>

definition ascii :: "string \<Rightarrow> bytes" where
  "ascii s = map (\<lambda>c. of_char c) s"

lemma length_ascii [simp]: "length (ascii s) = length s"
  by (simp add: ascii_def)

text \<open>Decimal output of an unsigned integer (\<open>Display\<close> of \<open>usize\<close>, \<open>u64\<close>).\<close>

fun dec :: "nat \<Rightarrow> string" where
  "dec n = (if n < 10 then [char_of (48 + n)] else dec (n div 10) @ [char_of (48 + n mod 10)])"

declare dec.simps [simp del]

lemma of_char_digit: "d < 10 \<Longrightarrow> of_char (char_of (48 + d)) = (48 + d :: nat)"
  by simp

lemma dec_value: "foldl (\<lambda>a c. a * 10 + (of_char c - 48)) 0 (dec n) = n"
proof (induction n rule: dec.induct)
  case (1 n)
  show ?case
  proof (cases "n < 10")
    case True
    then show ?thesis by (subst dec.simps) simp
  next
    case False
    with 1 show ?thesis by (subst dec.simps) simp
  qed
qed

lemma dec_inject [simp]: "dec m = dec n \<longleftrightarrow> m = n"
  by (metis dec_value)

lemma dec_chars: "c \<in> set (dec n) \<Longrightarrow> of_char c \<in> {48..57 :: nat}"
proof (induction n rule: dec.induct)
  case (1 n)
  show ?case
  proof (cases "n < 10")
    case True
    with 1(2) show ?thesis by (subst (asm) dec.simps) auto
  next
    case False
    have "n mod 10 < 10" by simp
    with False 1 show ?thesis by (subst (asm) (2) dec.simps) auto
  qed
qed

text \<open>ASCII lower case.\<close>

definition lower :: "string \<Rightarrow> string" where
  "lower s = map (\<lambda>c. let n = (of_char c :: nat) in if 65 \<le> n \<and> n \<le> 90 then char_of (n + 32) else c) s"

text \<open>Lower-case hexadecimal output of bytes (\<open>format!("{b:02x}")\<close> for each byte).\<close>

definition hex_digit :: "nat \<Rightarrow> char" where
  "hex_digit n = (if n < 10 then char_of (48 + n) else char_of (87 + n))"

definition hex_encode :: "bytes \<Rightarrow> string" where
  "hex_encode bs = concat (map (\<lambda>b. [hex_digit (unat b div 16), hex_digit (unat b mod 16)]) bs)"

lemma length_hex_encode [simp]: "length (hex_encode bs) = 2 * length bs"
  by (induction bs) (auto simp: hex_encode_def)

section \<open>Big-endian integers\<close>

fun be_bytes :: "nat \<Rightarrow> nat \<Rightarrow> bytes" where
  "be_bytes 0 x = []"
| "be_bytes (Suc n) x = be_bytes n (x div 256) @ [word_of_nat (x mod 256)]"

definition of_be :: "bytes \<Rightarrow> nat" where
  "of_be bs = foldl (\<lambda>a b. a * 256 + unat b) 0 bs"

lemma length_be_bytes [simp]: "length (be_bytes n x) = n"
  by (induction n arbitrary: x) auto

lemma of_be_snoc [simp]: "of_be (bs @ [b]) = of_be bs * 256 + unat b"
  by (simp add: of_be_def)

lemma of_be_Nil [simp]: "of_be [] = 0"
  by (simp add: of_be_def)

lemma unat_byte_less [simp]: "unat (b :: byte) < 256"
  using unsigned_less [of b, where 'a = nat] by simp

lemma unat_u64_less: "unat (w :: u64) < 256 ^ 8"
  using unsigned_less [of w, where 'a = nat] by simp

lemma unat_u32_less: "unat (w :: u32) < 256 ^ 4"
  using unsigned_less [of w, where 'a = nat] by simp

lemma unat_u32_of_nat: "m < 2 ^ 32 \<Longrightarrow> unat (word_of_nat m :: u32) = m"
  by (simp add: unat_of_nat)

lemma unat_u64_of_nat: "m < 2 ^ 64 \<Longrightarrow> unat (word_of_nat m :: u64) = m"
  by (simp add: unat_of_nat)

lemma unat_byte_of_mod: "unat (word_of_nat (x mod 256) :: byte) = x mod 256"
  by (simp add: unat_of_nat)

lemma of_be_be_bytes: "of_be (be_bytes n x) = x mod 256 ^ n"
proof (induction n arbitrary: x)
  case 0
  then show ?case by simp
next
  case (Suc n)
  have "of_be (be_bytes (Suc n) x) = (x div 256) mod 256 ^ n * 256 + x mod 256"
    by (simp add: Suc.IH unat_byte_of_mod)
  also have "\<dots> = x mod 256 ^ Suc n"
    by (simp add: mod_mult2_eq mult.commute)
  finally show ?case .
qed

lemma be_bytes_hd: "be_bytes (Suc n) x = word_of_nat (x div 256 ^ n mod 256) # be_bytes n x"
  by (induction n arbitrary: x) (simp_all add: div_mult2_eq)

lemma of_be_less: "of_be bs < 256 ^ length bs"
proof (induction bs rule: rev_induct)
  case Nil
  then show ?case by simp
next
  case (snoc b bs)
  have "unat b < 256" by simp
  moreover from snoc have "of_be bs * 256 + 256 \<le> 256 ^ length bs * 256" by simp
  ultimately have "of_be bs * 256 + unat b < 256 ^ length bs * 256" by linarith
  then show ?case by (simp add: mult.commute)
qed

lemma be_bytes_of_be: "length bs = n \<Longrightarrow> be_bytes n (of_be bs) = bs"
proof (induction bs arbitrary: n rule: rev_induct)
  case Nil
  then show ?case by simp
next
  case (snoc b bs)
  have b: "unat b < 256" by simp
  from snoc.prems obtain m where m: "n = Suc m" "length bs = m" by (cases n) auto
  from b have "(of_be bs * 256 + unat b) div 256 = of_be bs"
    and "(of_be bs * 256 + unat b) mod 256 = unat b" by simp_all
  with m snoc.IH show ?case by simp
qed

text \<open>\<open>u64::to_be_bytes\<close>, \<open>u32::to_be_bytes\<close> and their inverses.\<close>

definition u64_to_be :: "u64 \<Rightarrow> bytes" where
  "u64_to_be w = be_bytes 8 (unat w)"

definition u64_from_be :: "bytes \<Rightarrow> u64" where
  "u64_from_be bs = word_of_nat (of_be bs)"

definition u32_to_be :: "u32 \<Rightarrow> bytes" where
  "u32_to_be w = be_bytes 4 (unat w)"

definition u32_from_be :: "bytes \<Rightarrow> u32" where
  "u32_from_be bs = word_of_nat (of_be bs)"

lemma length_u64_to_be [simp]: "length (u64_to_be w) = 8"
  by (simp add: u64_to_be_def)

lemma length_u32_to_be [simp]: "length (u32_to_be w) = 4"
  by (simp add: u32_to_be_def)

lemma u64_from_to_be [simp]: "u64_from_be (u64_to_be w) = w"
  using unat_u64_less [of w] by (simp add: u64_from_be_def u64_to_be_def of_be_be_bytes)

lemma u32_from_to_be [simp]: "u32_from_be (u32_to_be w) = w"
  using unat_u32_less [of w] by (simp add: u32_from_be_def u32_to_be_def of_be_be_bytes)

lemma u64_to_from_be [simp]: "length bs = 8 \<Longrightarrow> u64_to_be (u64_from_be bs) = bs"
proof -
  assume l: "length bs = 8"
  then have "of_be bs < 2 ^ 64" using of_be_less [of bs] by simp
  then show ?thesis using l
    by (simp add: u64_from_be_def u64_to_be_def unat_of_nat be_bytes_of_be)
qed

lemma u32_to_from_be [simp]: "length bs = 4 \<Longrightarrow> u32_to_be (u32_from_be bs) = bs"
proof -
  assume l: "length bs = 4"
  then have "of_be bs < 2 ^ 32" using of_be_less [of bs] by simp
  then show ?thesis using l
    by (simp add: u32_from_be_def u32_to_be_def unat_of_nat be_bytes_of_be)
qed

lemma u64_to_be_inject [simp]: "u64_to_be a = u64_to_be b \<longleftrightarrow> a = b"
  by (metis u64_from_to_be)

lemma u32_to_be_inject [simp]: "u32_to_be a = u32_to_be b \<longleftrightarrow> a = b"
  by (metis u32_from_to_be)

section \<open>Byte streams\<close>

text \<open>
  The reading half of a connection is the list of the bytes the peer delivers before it
  closes. \<open>AsyncReadExt::read_exact\<close> takes the next \<open>n\<close> bytes, or fails with
  \<open>UnexpectedEof\<close> after consuming what there was.
\<close>

datatype io_error = UnexpectedEof | BrokenPipe | NotFound | PermissionDenied | InvalidData | ConnectionRefused | TimedOut

definition read_exact :: "nat \<Rightarrow> bytes \<Rightarrow> (bytes \<times> bytes) option" where
  "read_exact n s = (if n \<le> length s then Some (take n s, drop n s) else None)"

lemma read_exact_append [io_simps]:
  "length b = n \<Longrightarrow> read_exact n (b @ s) = Some (b, s)"
  by (simp add: read_exact_def)

lemma read_exact_short [io_simps]: "length s < n \<Longrightarrow> read_exact n s = None"
  by (simp add: read_exact_def)

lemma read_exact_SomeD:
  "read_exact n s = Some (b, s') \<Longrightarrow> s = b @ s' \<and> length b = n"
  by (auto simp: read_exact_def split: if_splits)

lemma read_exact_None_iff: "read_exact n s = None \<longleftrightarrow> length s < n"
  by (auto simp: read_exact_def)

text \<open>
  The writing half records the bytes that reached the peer. \<open>w_budget\<close> is the number
  of bytes the connection still accepts before it breaks (\<open>None\<close>: it never breaks), and
  \<open>w_flush_ok\<close> says whether \<open>flush\<close> succeeds.
  \<open>AsyncWriteExt::write_all\<close> may have sent a prefix when it fails.
\<close>

record writer =
  w_sent :: bytes
  w_budget :: "nat option"
  w_flush_ok :: bool

definition open_writer :: writer where
  "open_writer = \<lparr>w_sent = [], w_budget = None, w_flush_ok = True\<rparr>"

definition flush_writer :: "writer \<Rightarrow> io_error + unit" where
  "flush_writer w = (if w_flush_ok w then Ok () else Err BrokenPipe)"

fun write_all :: "bytes \<Rightarrow> writer \<Rightarrow> (io_error + unit) \<times> writer" where
  "write_all bs w = (case w_budget w of
      None \<Rightarrow> (Ok (), w\<lparr>w_sent := w_sent w @ bs\<rparr>)
    | Some n \<Rightarrow>
        if length bs \<le> n
        then (Ok (), w\<lparr>w_sent := w_sent w @ bs, w_budget := Some (n - length bs)\<rparr>)
        else (Err BrokenPipe, w\<lparr>w_sent := w_sent w @ take n bs, w_budget := Some 0\<rparr>))"

text \<open>A run of \<open>write_all\<close> calls, each followed by \<open>?\<close>, and the same run with a final \<open>flush\<close>.\<close>

fun write_seq :: "bytes list \<Rightarrow> writer \<Rightarrow> (io_error + unit) \<times> writer" where
  "write_seq [] w = (Ok (), w)"
| "write_seq (b # bs) w = (case write_all b w of
      (Err e, w') \<Rightarrow> (Err e, w')
    | (Ok _, w') \<Rightarrow> write_seq bs w')"

definition write_flush :: "bytes list \<Rightarrow> writer \<Rightarrow> (io_error + unit) \<times> writer" where
  "write_flush bs w = (case write_seq bs w of
      (Err e, w') \<Rightarrow> (Err e, w')
    | (Ok _, w') \<Rightarrow> (flush_writer w', w'))"

declare write_all.simps [simp del]

lemma write_all_OkD:
  "write_all bs w = (Ok u, w') \<Longrightarrow> w_sent w' = w_sent w @ bs"
  by (auto simp: write_all.simps split: option.splits if_splits)

lemma write_all_ErrD:
  "write_all bs w = (Err e, w') \<Longrightarrow> e = BrokenPipe \<and> (\<exists>p. strict_prefix p bs \<and> w_sent w' = w_sent w @ p)"
  by (auto simp: write_all.simps strict_prefix_def take_is_prefix split: option.splits if_splits)

lemma write_all_unbounded [io_simps]:
  "w_budget w = None \<Longrightarrow> write_all bs w = (Ok (), w\<lparr>w_sent := w_sent w @ bs\<rparr>)"
  by (simp add: write_all.simps)

lemma write_all_split:
  "write_all (a @ b) w = (case write_all a w of
      (Err e, w') \<Rightarrow> (Err e, w') | (Ok _, w') \<Rightarrow> write_all b w')"
  by (auto simp: write_all.simps split: option.splits)

text \<open>Writing in pieces puts the same bytes on the wire as one write of their concatenation.\<close>

lemma write_seq_concat [io_simps]: "bs \<noteq> [] \<Longrightarrow> write_seq bs w = write_all (concat bs) w"
proof (induction bs arbitrary: w)
  case Nil
  then show ?case by simp
next
  case (Cons b bs)
  show ?case
  proof (cases bs)
    case Nil
    then show ?thesis by (auto split: prod.splits sum.splits)
  next
    case (Cons c cs)
    with Cons.IH show ?thesis
      by (auto simp: write_all_split split: prod.splits sum.splits)
  qed
qed

lemma write_flush_OkD:
  "write_flush bs w = (Ok u, w') \<Longrightarrow> bs \<noteq> [] \<Longrightarrow> w_sent w' = w_sent w @ concat bs"
  by (auto simp: write_flush_def write_seq_concat dest: write_all_OkD split: prod.splits sum.splits)

lemma write_flush_open [io_simps]:
  "w_budget w = None \<Longrightarrow> w_flush_ok w \<Longrightarrow> bs \<noteq> [] \<Longrightarrow>
   write_flush bs w = (Ok (), w\<lparr>w_sent := w_sent w @ concat bs\<rparr>)"
  by (simp add: write_flush_def write_seq_concat write_all_unbounded flush_writer_def)

end
