(* ===== verification/Crypto_Prims.thy ===== *)
theory Crypto_Prims
  imports Prelude
begin

text \<open>
  The cryptographic crates LatticeShield calls (\<open>aes-gcm\<close>, \<open>hkdf\<close>, \<open>sha2\<close>,
  \<open>x25519-dalek\<close>, \<open>ml-kem\<close>, \<open>libcrux-ml-dsa\<close>, \<open>rand_core\<close>) are not part of the
  repository. They are parameters of the model: records of functions, with the documented
  behaviour the sources rely on as named predicates over them. A theorem that needs one of
  these laws has it as a hypothesis. The last section gives one concrete instance of each
  record (\<open>toy_sym\<close>, \<open>toy_sig\<close>, \<open>toy_kex\<close>) that satisfies the laws; the witnesses of
  the development use it. It models no cryptographic strength.
\<close>

section \<open>Symmetric primitives\<close>

record sym_prims =
  gcm_encrypt :: "bytes \<Rightarrow> bytes \<Rightarrow> bytes \<Rightarrow> bytes \<Rightarrow> (bytes \<times> bytes) option"
    \<comment> \<open>key, nonce, AAD, plaintext to (ciphertext, tag): \<open>encrypt_in_place_detached\<close>\<close>
  gcm_decrypt :: "bytes \<Rightarrow> bytes \<Rightarrow> bytes \<Rightarrow> bytes \<Rightarrow> bytes \<Rightarrow> bytes option"
    \<comment> \<open>key, nonce, AAD, ciphertext, tag: \<open>decrypt_in_place_detached\<close>\<close>
  hkdf_sha256 :: "bytes \<Rightarrow> bytes \<Rightarrow> bytes \<Rightarrow> nat \<Rightarrow> bytes option"
    \<comment> \<open>salt, input key material, info, output length: \<open>Hkdf::new\<close> then \<open>expand\<close>\<close>
  sha256 :: "bytes \<Rightarrow> bytes"

text \<open>Decryption inverts encryption, the ciphertext has the plaintext's length, tags are 16 bytes.\<close>

definition aead_laws :: "sym_prims \<Rightarrow> bool" where
  "aead_laws S \<longleftrightarrow> (\<forall>k n a p c t. gcm_encrypt S k n a p = Some (c, t) \<longrightarrow>
     length c = length p \<and> length t = 16 \<and> gcm_decrypt S k n a c t = Some p)"

text \<open>With a 32-byte key, a 12-byte nonce and an 8-byte AAD the cipher accepts every
  plaintext up to the crate's limit of \<open>2 ^ 36\<close> bytes.\<close>

definition aead_total :: "sym_prims \<Rightarrow> bool" where
  "aead_total S \<longleftrightarrow> (\<forall>k n a p. length k = 32 \<longrightarrow> length n = 12 \<longrightarrow> length a = 8 \<longrightarrow>
     length p \<le> 2 ^ 36 \<longrightarrow> gcm_encrypt S k n a p \<noteq> None)"

text \<open>Integrity, idealised: under one key, a (nonce, ciphertext, tag) triple opens under at
  most one AAD.\<close>

definition aead_binds_aad :: "sym_prims \<Rightarrow> bool" where
  "aead_binds_aad S \<longleftrightarrow> (\<forall>k n a a' c t p p'. gcm_decrypt S k n a c t = Some p \<longrightarrow>
     gcm_decrypt S k n a' c t = Some p' \<longrightarrow> a = a')"

text \<open>RFC 5869: \<open>expand\<close> succeeds up to 255 hash lengths and fills the whole buffer.\<close>

definition hkdf_laws :: "sym_prims \<Rightarrow> bool" where
  "hkdf_laws S \<longleftrightarrow> (\<forall>salt ikm info n. n \<le> 255 * 32 \<longrightarrow>
     (\<exists>okm. hkdf_sha256 S salt ikm info n = Some okm \<and> length okm = n))"

definition sha_laws :: "sym_prims \<Rightarrow> bool" where
  "sha_laws S \<longleftrightarrow> (\<forall>b. length (sha256 S b) = 32)"

lemma aead_lawsD:
  assumes "aead_laws S" and "gcm_encrypt S k n a p = Some (c, t)"
  shows "length c = length p" "length t = 16" "gcm_decrypt S k n a c t = Some p"
  using assms by (auto simp: aead_laws_def)

section \<open>ML-DSA-65\<close>

record sig_prims =
  mldsa_keygen :: "bytes \<Rightarrow> bytes \<times> bytes" \<comment> \<open>seed to (signing key, verification key)\<close>
  mldsa_sign :: "bytes \<Rightarrow> bytes \<Rightarrow> bytes \<Rightarrow> bytes \<Rightarrow> bytes option"
    \<comment> \<open>signing key, message, context, randomness\<close>
  mldsa_verify :: "bytes \<Rightarrow> bytes \<Rightarrow> bytes \<Rightarrow> bytes \<Rightarrow> bool"
    \<comment> \<open>verification key, message, context, signature\<close>

text \<open>Key and signature sizes of FIPS 204, and correctness: what a generated key signs, its
  verification key accepts under the same context.\<close>

definition sig_laws :: "sig_prims \<Rightarrow> bool" where
  "sig_laws G \<longleftrightarrow>
     (\<forall>seed sk vk. length seed = 32 \<longrightarrow> mldsa_keygen G seed = (sk, vk) \<longrightarrow>
        length sk = 4032 \<and> length vk = 1952) \<and>
     (\<forall>sk m ctx r s. mldsa_sign G sk m ctx r = Some s \<longrightarrow> length s = 3309) \<and>
     (\<forall>seed sk vk m ctx r s. mldsa_keygen G seed = (sk, vk) \<longrightarrow>
        mldsa_sign G sk m ctx r = Some s \<longrightarrow> mldsa_verify G vk m ctx s)"

lemma sig_lawsD:
  assumes "sig_laws G"
  shows "length seed = 32 \<Longrightarrow> mldsa_keygen G seed = (sk, vk) \<Longrightarrow> length sk = 4032 \<and> length vk = 1952"
    and "mldsa_sign G sk m ctx r = Some s \<Longrightarrow> length s = 3309"
    and "mldsa_keygen G seed = (sk, vk) \<Longrightarrow> mldsa_sign G sk m ctx r = Some s \<Longrightarrow> mldsa_verify G vk m ctx s"
  using assms unfolding sig_laws_def by blast+

text \<open>Unforgeability, idealised: under one verification key a signature is valid for at most
  one message and context.\<close>

definition sig_binds :: "sig_prims \<Rightarrow> bool" where
  "sig_binds G \<longleftrightarrow> (\<forall>vk m m' ctx ctx' s. mldsa_verify G vk m ctx s \<longrightarrow>
     mldsa_verify G vk m' ctx' s \<longrightarrow> m = m' \<and> ctx = ctx')"

section \<open>Key exchange and randomness\<close>

text \<open>
  \<open>'r\<close> is the state of the random number generator, threaded through the calls that draw
  from it; \<open>'x\<close> an X25519 ephemeral secret, \<open>'dk\<close> and \<open>'ek\<close> the two halves of an
  ML-KEM-768 key pair.
\<close>

record ('r, 'x, 'dk, 'ek) kex_prims =
  fill_bytes :: "nat \<Rightarrow> 'r \<Rightarrow> bytes \<times> 'r"
  x25519_random :: "'r \<Rightarrow> 'x \<times> 'r"
  x25519_public :: "'x \<Rightarrow> bytes"
  x25519_dh :: "'x \<Rightarrow> bytes \<Rightarrow> bytes"
  kem_generate :: "'r \<Rightarrow> ('dk \<times> 'ek) \<times> 'r"
  ek_as_bytes :: "'ek \<Rightarrow> bytes"
  ek_from_bytes :: "bytes \<Rightarrow> 'ek"
  kem_encapsulate :: "'ek \<Rightarrow> 'r \<Rightarrow> (bytes \<times> bytes) option \<times> 'r"
  kem_decapsulate :: "'dk \<Rightarrow> bytes \<Rightarrow> bytes option"

text \<open>Sizes, agreement of Diffie-Hellman, correctness of the KEM on generated keys, and the
  encoding of a generated encapsulation key decodes to it.\<close>

definition kex_laws :: "('r, 'x, 'dk, 'ek) kex_prims \<Rightarrow> bool" where
  "kex_laws K \<longleftrightarrow>
     (\<forall>n r. length (fst (fill_bytes K n r)) = n) \<and>
     (\<forall>x. length (x25519_public K x) = 32) \<and>
     (\<forall>x y. x25519_dh K x (x25519_public K y) = x25519_dh K y (x25519_public K x)) \<and>
     (\<forall>r dk ek r'. kem_generate K r = ((dk, ek), r') \<longrightarrow>
        length (ek_as_bytes K ek) = 1184 \<and> ek_from_bytes K (ek_as_bytes K ek) = ek \<and>
        (\<forall>q ct ss q'. kem_encapsulate K ek q = (Some (ct, ss), q') \<longrightarrow>
           length ct = 1088 \<and> kem_decapsulate K dk ct = Some ss))"

text \<open>ML-KEM encapsulation and decapsulation do not fail (the crate's errors are uninhabited).\<close>

definition kem_total :: "('r, 'x, 'dk, 'ek) kex_prims \<Rightarrow> bool" where
  "kem_total K \<longleftrightarrow> (\<forall>ek r. fst (kem_encapsulate K ek r) \<noteq> None)"

lemma kex_lawsD:
  assumes "kex_laws K"
  shows "length (fst (fill_bytes K n r)) = n"
    and "length (x25519_public K x) = 32"
    and "x25519_dh K x (x25519_public K y) = x25519_dh K y (x25519_public K x)"
    and "kem_generate K r = ((dk, ek), r') \<Longrightarrow> length (ek_as_bytes K ek) = 1184"
    and "kem_generate K r = ((dk, ek), r') \<Longrightarrow> ek_from_bytes K (ek_as_bytes K ek) = ek"
    and "kem_generate K r = ((dk, ek), r') \<Longrightarrow> kem_encapsulate K ek q = (Some (ct, ss), q') \<Longrightarrow>
      length ct = 1088 \<and> kem_decapsulate K dk ct = Some ss"
  using assms unfolding kex_laws_def by blast+

section \<open>An instance for witnesses\<close>

definition pad_to :: "nat \<Rightarrow> bytes \<Rightarrow> bytes" where
  "pad_to n b = take n (b @ replicate n 0)"

lemma length_pad_to [simp]: "length (pad_to n b) = n"
  by (simp add: pad_to_def)

lemma take_pad_to: "n \<le> length b \<Longrightarrow> n \<le> m \<Longrightarrow> take n (pad_to m b) = take n b"
  by (simp add: pad_to_def min_absorb1)

definition toy_tag :: "bytes \<Rightarrow> bytes \<Rightarrow> bytes" where
  "toy_tag k a = a @ pad_to 8 k"

definition toy_sym :: sym_prims where
  "toy_sym = \<lparr>
     gcm_encrypt = (\<lambda>k n a p. if length a = 8 then Some (p, toy_tag k a) else None),
     gcm_decrypt = (\<lambda>k n a c t. if length a = 8 \<and> t = toy_tag k a then Some c else None),
     hkdf_sha256 = (\<lambda>salt ikm info n. if n \<le> 255 * 32 then Some (pad_to n salt) else None),
     sha256 = pad_to 32\<rparr>"

lemma toy_sym_laws:
  "aead_laws toy_sym" "aead_total toy_sym" "aead_binds_aad toy_sym"
  "hkdf_laws toy_sym" "sha_laws toy_sym"
  by (auto simp: aead_laws_def aead_total_def aead_binds_aad_def hkdf_laws_def sha_laws_def
      toy_sym_def toy_tag_def split: if_splits)

definition toy_block :: "nat \<Rightarrow> bytes \<Rightarrow> bytes" where
  "toy_block n b = pad_to n (be_bytes 2 (length b) @ b)"

definition toy_signature :: "bytes \<Rightarrow> bytes \<Rightarrow> bytes \<Rightarrow> bytes" where
  "toy_signature k m ctx = pad_to 8 k @ toy_block 260 ctx @ toy_block 3041 m"

definition toy_sig :: sig_prims where
  "toy_sig = \<lparr>
     mldsa_keygen = (\<lambda>seed. (pad_to 4032 seed, pad_to 1952 seed)),
     mldsa_sign = (\<lambda>sk m ctx r. if length ctx \<le> 255 \<and> length m \<le> 2500
        then Some (toy_signature (take 8 sk) m ctx) else None),
     mldsa_verify = (\<lambda>vk m ctx s. length ctx \<le> 255 \<and> length m \<le> 2500 \<and>
        s = toy_signature (take 8 vk) m ctx)\<rparr>"

lemma be_bytes_inject:
  "x < 256 ^ n \<Longrightarrow> y < 256 ^ n \<Longrightarrow> be_bytes n x = be_bytes n y \<longleftrightarrow> x = y"
  by (metis mod_less of_be_be_bytes)

lemma toy_block_inject:
  assumes eq: "toy_block n a = toy_block n b"
    and "2 + length a \<le> n" "2 + length b \<le> n" "length a < 256 ^ 2" "length b < 256 ^ 2"
  shows "a = b"
proof -
  have t: "\<And>c j. j \<le> 2 + length c \<Longrightarrow> 2 + length c \<le> n \<Longrightarrow>
     take j (toy_block n c) = take j (be_bytes 2 (length c) @ c)"
    by (simp add: toy_block_def take_pad_to)
  have "take 2 (toy_block n a) = take 2 (toy_block n b)" by (simp only: eq)
  then have "be_bytes 2 (length a) = be_bytes 2 (length b)"
    using t [of 2 a] t [of 2 b] assms by simp
  then have l: "length a = length b" using assms(4,5) by (simp only: be_bytes_inject)
  have "take (2 + length a) (toy_block n a) = take (2 + length b) (toy_block n b)"
    by (simp only: eq l)
  then have "be_bytes 2 (length a) @ a = be_bytes 2 (length b) @ b"
    using t [of "2 + length a" a] t [of "2 + length b" b] assms by simp
  with l show ?thesis by simp
qed

lemma toy_signature_inject:
  assumes eq: "toy_signature k m ctx = toy_signature k m' ctx'"
    and l: "length ctx \<le> 255" "length ctx' \<le> 255" "length m \<le> 2500" "length m' \<le> 2500"
  shows "m = m' \<and> ctx = ctx'"
proof -
  from eq have "toy_block 260 ctx = toy_block 260 ctx'" "toy_block 3041 m = toy_block 3041 m'"
    by (simp_all add: toy_signature_def toy_block_def)
  then show ?thesis using l toy_block_inject [of 260 ctx ctx'] toy_block_inject [of 3041 m m']
    by simp
qed

lemma take8_pad_to: "n \<ge> 8 \<Longrightarrow> take 8 (pad_to n s) = pad_to 8 s"
  by (simp add: pad_to_def min_absorb1)

lemma length_toy_signature [simp]: "length (toy_signature k m ctx) = 3309"
  by (simp add: toy_signature_def toy_block_def)

lemma toy_sig_laws: "sig_laws toy_sig" "sig_binds toy_sig"
  by (auto simp: sig_laws_def sig_binds_def toy_sig_def take8_pad_to
      dest: toy_signature_inject split: if_splits)

definition toy_kex :: "(nat, bytes, bytes, bytes) kex_prims" where
  "toy_kex = \<lparr>
     fill_bytes = (\<lambda>n r. (replicate n (word_of_nat r), Suc r)),
     x25519_random = (\<lambda>r. (replicate 32 (word_of_nat r), Suc r)),
     x25519_public = pad_to 32,
     x25519_dh = (\<lambda>x p. map2 (+) (pad_to 32 x) (pad_to 32 p)),
     kem_generate = (\<lambda>r. ((replicate 1184 (word_of_nat r), replicate 1184 (word_of_nat r)), Suc r)),
     ek_as_bytes = pad_to 1184,
     ek_from_bytes = pad_to 1184,
     kem_encapsulate = (\<lambda>ek r. (Some (replicate 1088 (word_of_nat r), replicate 32 (word_of_nat r)), Suc r)),
     kem_decapsulate = (\<lambda>dk ct. Some (take 32 ct))\<rparr>"

lemma pad_to_id: "length b = n \<Longrightarrow> pad_to n b = b"
  by (simp add: pad_to_def)

lemma map2_add_commute: "length a = length b \<Longrightarrow> map2 (+) a b = map2 (+) b (a :: bytes)"
  by (induction a b rule: list_induct2) (auto simp: add.commute)

lemma toy_kex_laws: "kex_laws toy_kex" "kem_total toy_kex"
  by (auto simp: kex_laws_def kem_total_def toy_kex_def pad_to_id intro: map2_add_commute)

end
