(* ===== verification/Interfaces.thy ===== *)
theory Interfaces
  imports Prelude
begin

text \<open>
  The contracts that components of LatticeShield rely on, as locales. Each is interpreted on
  the model's own definitions in the theory of the component that provides it:

  \<^item> \<open>replay_guard\<close>: a counter check that admits strictly increasing numbers (the receive
    counter of the encrypted channel, the command counter of the admin channel);
  \<^item> \<open>ordered_link\<close>: a sender and a receiver whose states stay in step frame by frame, so a
    sent sequence arrives unchanged (the encrypted channel with key rotation);
  \<^item> \<open>slot_table\<close>: a bounded per-key counter with acquire and release (the per-IP
    connection caps), and \<open>capped_listener\<close>, an accept loop that takes its slots from such a table;
  \<^item> \<open>sized_loader\<close>: a key loader that accepts exactly the files of one size.
\<close>

section \<open>Strictly increasing counters\<close>

locale replay_guard =
  fixes admits :: "'s \<Rightarrow> 'n::linorder \<Rightarrow> bool"
    and commit :: "'s \<Rightarrow> 'n \<Rightarrow> 's"
    and floor :: "'s \<Rightarrow> 'n option"
  assumes admits_iff: "admits s n \<longleftrightarrow> (case floor s of None \<Rightarrow> True | Some m \<Rightarrow> m < n)"
    and floor_commit: "admits s n \<Longrightarrow> floor (commit s n) = Some n"
begin

text \<open>\<open>chain s ns\<close>: the numbers \<open>ns\<close> are admitted and committed one after the other.\<close>

primrec chain :: "'s \<Rightarrow> 'n list \<Rightarrow> bool" where
  "chain s [] \<longleftrightarrow> True"
| "chain s (n # ns) \<longleftrightarrow> admits s n \<and> chain (commit s n) ns"

lemma chain_above: "chain s ns \<Longrightarrow> floor s = Some m \<Longrightarrow> n \<in> set ns \<Longrightarrow> m < n"
proof (induction ns arbitrary: s m)
  case Nil
  then show ?case by simp
next
  case (Cons k ns)
  then have a: "admits s k" and c: "chain (commit s k) ns" by simp_all
  from a Cons.prems(2) have "m < k" using admits_iff [of s k] by simp
  moreover have "n \<in> set ns \<Longrightarrow> k < n" using Cons.IH [OF c floor_commit [OF a]] .
  ultimately show ?case using Cons.prems(3) by auto
qed

lemma chain_increasing: "chain s ns \<Longrightarrow> sorted_wrt (<) ns"
  by (induction ns arbitrary: s) (auto simp: floor_commit chain_above)

lemma chain_distinct: "chain s ns \<Longrightarrow> distinct ns"
  using chain_increasing strict_sorted_iff by blast

lemma replayed_refused: "chain s (ns @ [n]) \<Longrightarrow> n \<notin> set ns"
  using chain_distinct by fastforce

end

section \<open>Ordered delivery\<close>

locale ordered_link =
  fixes send :: "'s \<Rightarrow> 'm \<Rightarrow> (bytes \<times> 's) option"
    and recv :: "'r \<Rightarrow> bytes \<Rightarrow> ('o \<times> 'r \<times> bytes) option"
    and link :: "nat \<Rightarrow> 's \<Rightarrow> 'r \<Rightarrow> bool"
    and valid :: "'r \<Rightarrow> 'm \<Rightarrow> bool"
    and image :: "'m \<Rightarrow> 'o"
  assumes send_recv: "link (Suc n) s r \<Longrightarrow> valid r m \<Longrightarrow>
     \<exists>w s' r'. send s m = Some (w, s') \<and> link n s' r' \<and> valid r' = valid r \<and>
       (\<forall>rest. recv r (w @ rest) = Some (image m, r', rest))"
begin

text \<open>\<open>link n s r\<close> says that sender and receiver are in step and good for \<open>n\<close> more frames.\<close>

primrec send_all :: "'s \<Rightarrow> 'm list \<Rightarrow> (bytes \<times> 's) option" where
  "send_all s [] = Some ([], s)"
| "send_all s (m # ms) = (case send s m of None \<Rightarrow> None
    | Some (w, s') \<Rightarrow> (case send_all s' ms of None \<Rightarrow> None | Some (w', s'') \<Rightarrow> Some (w @ w', s'')))"

primrec recv_all :: "nat \<Rightarrow> 'r \<Rightarrow> bytes \<Rightarrow> ('o list \<times> 'r \<times> bytes) option" where
  "recv_all 0 r b = Some ([], r, b)"
| "recv_all (Suc k) r b = (case recv r b of None \<Rightarrow> None
    | Some (x, r', b') \<Rightarrow> (case recv_all k r' b' of None \<Rightarrow> None
        | Some (xs, r'', b'') \<Rightarrow> Some (x # xs, r'', b'')))"

lemma delivery:
  assumes "link (n + length ms) s r" and "\<forall>m \<in> set ms. valid r m"
  shows "\<exists>w s' r'. send_all s ms = Some (w, s') \<and> link n s' r' \<and> valid r' = valid r \<and>
    (\<forall>rest. recv_all (length ms) r (w @ rest) = Some (map image ms, r', rest))"
  using assms
proof (induction ms arbitrary: s r)
  case Nil
  then show ?case by auto
next
  case (Cons m ms)
  then have "link (Suc (n + length ms)) s r" and "valid r m" by auto
  from send_recv [OF this] obtain w s1 r1 where 1: "send s m = Some (w, s1)"
    "link (n + length ms) s1 r1" "valid r1 = valid r"
    "\<And>rest. recv r (w @ rest) = Some (image m, r1, rest)" by blast
  from Cons.IH [OF 1(2)] Cons.prems 1(3) obtain w' s2 r2 where 2: "send_all s1 ms = Some (w', s2)"
    "link n s2 r2" "valid r2 = valid r1"
    "\<And>rest. recv_all (length ms) r1 (w' @ rest) = Some (map image ms, r2, rest)" by auto
  from 1 2 show ?case by auto
qed

end

section \<open>Bounded slot tables\<close>

locale slot_table =
  fixes acquire :: "'t \<Rightarrow> 'k \<Rightarrow> 't option"
    and release :: "'t \<Rightarrow> 'k \<Rightarrow> 't"
    and held :: "'t \<Rightarrow> 'k \<Rightarrow> nat"
    and cap :: nat
  assumes acquire_refused: "acquire t k = None \<longleftrightarrow> cap \<le> held t k"
    and acquire_counts: "acquire t k = Some t' \<Longrightarrow> held t' = (held t)(k := Suc (held t k))"
    and release_counts: "0 < held t k \<Longrightarrow> held (release t k) = (held t)(k := held t k - 1)"
begin

text \<open>\<open>agrees t ks\<close>: the table counts exactly the live connections \<open>ks\<close> (a multiset as a list).\<close>

definition agrees :: "'t \<Rightarrow> 'k list \<Rightarrow> bool" where
  "agrees t ks \<longleftrightarrow> (\<forall>k. held t k = count_list ks k)"

lemma agrees_acquire: "agrees t ks \<Longrightarrow> acquire t k = Some t' \<Longrightarrow> agrees t' (k # ks)"
  by (auto simp: agrees_def dest!: acquire_counts)

lemma count_list_remove1:
  "k \<in> set ks \<Longrightarrow> count_list (remove1 k ks) x = (if x = k then count_list ks k - 1 else count_list ks x)"
  by (induction ks) (auto simp: count_list_0_iff)

lemma agrees_release: "agrees t ks \<Longrightarrow> k \<in> set ks \<Longrightarrow> agrees (release t k) (remove1 k ks)"
proof -
  assume a: "agrees t ks" and k: "k \<in> set ks"
  then have "count_list ks k \<noteq> 0" by (simp add: count_list_0_iff)
  with a have "0 < held t k" by (simp add: agrees_def)
  with a k show ?thesis by (simp add: agrees_def release_counts count_list_remove1)
qed

lemma acquire_bound: "acquire t k = Some t' \<Longrightarrow> held t' k \<le> cap"
  using acquire_refused [of t k] acquire_counts by fastforce

end

text \<open>An accept loop that takes a slot for every task it starts and whose tasks give their slot back when
  they end. \<open>live\<close> lists the keys of the running tasks, \<open>tidy\<close> is a property of the table that taking and
  giving back slots keeps.\<close>

locale capped_listener = slot_table acquire release held cap
  for acquire :: "'t \<Rightarrow> 'k \<Rightarrow> 't option" and release :: "'t \<Rightarrow> 'k \<Rightarrow> 't" and held :: "'t \<Rightarrow> 'k \<Rightarrow> nat" and cap :: nat +
  fixes table :: "'s \<Rightarrow> 't"
    and live :: "'s \<Rightarrow> 'k list"
    and step :: "'s \<Rightarrow> 'e \<Rightarrow> 's"
    and start :: 's
    and tidy :: "'t \<Rightarrow> bool"
  assumes start_empty: "live start = []" "held (table start) k = 0" "tidy (table start)"
    and tidy_acquire: "tidy t \<Longrightarrow> acquire t k = Some t' \<Longrightarrow> tidy t'"
    and tidy_release: "tidy t \<Longrightarrow> tidy (release t k)"
    and step_slots: "0 < cap \<Longrightarrow>
       table (step s e) = table s \<and> count_list (live (step s e)) = count_list (live s) \<or>
       (\<exists>k. acquire (table s) k = Some (table (step s e)) \<and> count_list (live (step s e)) = count_list (k # live s)) \<or>
       (\<exists>k \<in> set (live s). table (step s e) = release (table s) k \<and>
          count_list (live (step s e)) = count_list (remove1 k (live s)))"
begin

definition run :: "'e list \<Rightarrow> 's" where
  "run es = foldl step start es"

definition accounted :: "'s \<Rightarrow> bool" where
  "accounted s \<longleftrightarrow> agrees (table s) (live s) \<and> (\<forall>k. held (table s) k \<le> cap) \<and> tidy (table s)"

lemma agrees_counts: "agrees t ks \<Longrightarrow> count_list ks' = count_list ks \<Longrightarrow> agrees t ks'"
  by (simp add: agrees_def)

lemma accounted_step:
  assumes "0 < cap" "accounted s"
  shows "accounted (step s e)"
  using step_slots [OF assms(1), of s e]
proof (elim disjE exE bexE conjE)
  assume "table (step s e) = table s" "count_list (live (step s e)) = count_list (live s)"
  with assms(2) show ?thesis by (auto simp: accounted_def intro: agrees_counts)
next
  fix k assume k: "acquire (table s) k = Some (table (step s e))" "count_list (live (step s e)) = count_list (k # live s)"
  have "held (table (step s e)) x \<le> cap" for x
    using acquire_counts [OF k(1)] acquire_bound [OF k(1)] assms(2) by (cases "x = k") (auto simp: accounted_def)
  moreover have "agrees (table (step s e)) (k # live s)"
    by (rule agrees_acquire [OF _ k(1)]) (use assms(2) in \<open>simp add: accounted_def\<close>)
  ultimately show ?thesis using k tidy_acquire [OF _ k(1)] assms(2) by (auto simp: accounted_def intro: agrees_counts)
next
  fix k assume k: "k \<in> set (live s)" "table (step s e) = release (table s) k"
    "count_list (live (step s e)) = count_list (remove1 k (live s))"
  have a: "agrees (table (step s e)) (remove1 k (live s))"
    unfolding k(2) by (rule agrees_release [OF _ k(1)]) (use assms(2) in \<open>simp add: accounted_def\<close>)
  then have "held (table (step s e)) x \<le> held (table s) x" for x
    using assms(2) k(1) by (simp add: agrees_def accounted_def count_list_remove1)
  then have "held (table (step s e)) x \<le> cap" for x
    using assms(2) by (meson accounted_def le_trans)
  with a k tidy_release [of "table s" k] assms(2) show ?thesis by (auto simp: accounted_def intro: agrees_counts)
qed

lemma run_accounted: "0 < cap \<Longrightarrow> accounted (run es)"
proof (induction es rule: rev_induct)
  case Nil
  then show ?case by (simp add: run_def accounted_def start_empty agrees_def)
next
  case (snoc e es)
  then show ?case using accounted_step by (simp add: run_def)
qed

lemma cap_kept:
  assumes "0 < cap"
  shows "count_list (live (run es)) k \<le> cap \<and> held (table (run es)) k = count_list (live (run es)) k \<and> tidy (table (run es))"
proof -
  from run_accounted [OF assms, of es] have a: "held (table (run es)) k = count_list (live (run es)) k"
    "held (table (run es)) k \<le> cap" "tidy (table (run es))" by (auto simp: accounted_def agrees_def)
  then show ?thesis by metis
qed

end

section \<open>Loaders of fixed-size keys\<close>

locale sized_loader =
  fixes load :: "bytes option \<Rightarrow> 'e + 'k"
    and size_of_key :: nat
    and raw :: "'k \<Rightarrow> bytes"
  assumes load_ok: "length b = size_of_key \<Longrightarrow> \<exists>k. load (Some b) = Ok k \<and> raw k = b"
    and load_bad: "length b \<noteq> size_of_key \<Longrightarrow> is_err (load (Some b))"
    and load_missing: "is_err (load None)"
begin

lemma load_iff: "(\<exists>k. load f = Ok k) \<longleftrightarrow> (\<exists>b. f = Some b \<and> length b = size_of_key)"
  by (metis Inl_Inr_False load_bad load_missing load_ok option.exhaust)

lemma load_raw: "load f = Ok k \<Longrightarrow> f = Some (raw k) \<and> length (raw k) = size_of_key"
  by (metis Inl_Inr_False load_bad load_missing load_ok option.exhaust sum.inject(2))

end

end
