(* ===== verification/Channel.thy ===== *)
theory Channel
  imports Crypto_Prims Interfaces "HOL-Library.Product_Lexorder"
begin

text \<open>
  The encrypted channel of \<open>latticeshield-crypto/src/channel.rs\<close>: AES-256-GCM frames with
  a sequence number as associated data, replay protection on reception, and the HKDF key
  ratchet (\<open>EncryptedChannel\<close>). A session between a bridge and a client is two such
  records with the same key.

  The \<open>Aes256Gcm\<close> object is identified with the 32-byte key it was built from. The counters
  are machine words: \<open>+= 1\<close> wraps, as in the release profile the workspace ships.
\<close>

section \<open>Data\<close>

definition NONCE_LEN :: nat where [layout_defs]: "NONCE_LEN = 12"
definition TAG_LEN :: nat where [layout_defs]: "TAG_LEN = 16"
definition SEQ_LEN :: nat where [layout_defs]: "SEQ_LEN = 8"
definition ROTATION_NONCE_LEN :: nat where [layout_defs]: "ROTATION_NONCE_LEN = 32"

definition FRAME_DATA :: byte where [layout_defs]: "FRAME_DATA = 1"
definition FRAME_KEY_ROTATE :: byte where [layout_defs]: "FRAME_KEY_ROTATE = 2"

definition ROTATION_HKDF_INFO :: bytes where
  "ROTATION_HKDF_INFO = ascii ''latticeshield-v1-key-rotation''"

definition KEY_ROTATE_FRAME_LEN :: nat where
  [layout_defs]: "KEY_ROTATE_FRAME_LEN = 1 + NONCE_LEN + ROTATION_NONCE_LEN + TAG_LEN"

datatype invalid_reason = FrameLen nat | UnknownFrameType byte

datatype frame_error =
    Replay (received: u64) (last_seen: u64)
  | AeadFailure
  | Invalid invalid_reason
  | Io io_error

datatype frame_result = Data bytes | KeyRotate bytes

datatype key_rotate_error = KeyRotateEncrypt | KeyRotateIo io_error

record channel =
  cipher :: bytes
  key_bytes :: bytes
  max_frame_size :: nat
  send_seq :: u64
  recv_seq :: u64
  recv_initialized :: bool
  key_rotate_send_seq :: u64
  key_rotate_recv_seq :: u64
  epoch :: u32

section \<open>Operations\<close>

text \<open>\<open>EncryptedChannel::new\<close>.\<close>

definition channel_new :: "bytes \<Rightarrow> nat \<Rightarrow> channel" where
  "channel_new session_key mfs = \<lparr>cipher = session_key, key_bytes = session_key,
     max_frame_size = mfs, send_seq = 0, recv_seq = 0, recv_initialized = False,
     key_rotate_send_seq = 0, key_rotate_recv_seq = 0, epoch = 0\<rparr>"

text \<open>\<open>EncryptedChannel::write_frame\<close>. The length field is the truncating cast \<open>as u32\<close>;
  \<open>send_seq\<close> advances only when every byte was written and flushed.\<close>

definition write_frame ::
  "sym_prims \<Rightarrow> channel \<Rightarrow> writer \<Rightarrow> bytes \<Rightarrow> (frame_error + unit) \<times> channel \<times> writer" where
  "write_frame S ch w data =
    (let seq_be = u64_to_be (send_seq ch);
         nonce_bytes = seq_be @ u32_to_be (epoch ch)
     in case gcm_encrypt S (cipher ch) nonce_bytes seq_be data of
          None \<Rightarrow> (Err AeadFailure, ch, w)
        | Some (buf, tag) \<Rightarrow>
            (let len = (word_of_nat (length buf + TAG_LEN) :: u32)
             in case write_flush [[FRAME_DATA], u32_to_be len, seq_be, nonce_bytes, buf, tag] w of
                  (Err e, w') \<Rightarrow> (Err (Io e), ch, w')
                | (Ok _, w') \<Rightarrow> (Ok (), ch\<lparr>send_seq := send_seq ch + 1\<rparr>, w')))"

text \<open>The \<open>FRAME_DATA\<close> arm of \<open>read_frame\<close>, after the type byte. The result carries the
  bytes left in the stream.\<close>

definition read_data_frame ::
  "sym_prims \<Rightarrow> channel \<Rightarrow> bytes \<Rightarrow> (frame_error + frame_result) \<times> channel \<times> bytes" where
  "read_data_frame S ch s = (case read_exact 4 s of
     None \<Rightarrow> (Err (Io UnexpectedEof), ch, [])
   | Some (len_buf, s1) \<Rightarrow>
      (let len = unat (u32_from_be len_buf) in
       if len < TAG_LEN \<or> max_frame_size ch + TAG_LEN < len
       then (Err (Invalid (FrameLen len)), ch, s1)
       else (case read_exact SEQ_LEN s1 of
         None \<Rightarrow> (Err (Io UnexpectedEof), ch, [])
       | Some (seq_buf, s2) \<Rightarrow>
          (let wire_seq = u64_from_be seq_buf in
           if recv_initialized ch \<and> wire_seq \<le> recv_seq ch
           then (Err (Replay wire_seq (recv_seq ch)), ch, s2)
           else (case read_exact NONCE_LEN s2 of
             None \<Rightarrow> (Err (Io UnexpectedEof), ch, [])
           | Some (nonce_bytes, s3) \<Rightarrow> (case read_exact len s3 of
               None \<Rightarrow> (Err (Io UnexpectedEof), ch, [])
             | Some (ct_and_tag, s4) \<Rightarrow>
                (let ct = take (len - TAG_LEN) ct_and_tag;
                     tag_bytes = drop (len - TAG_LEN) ct_and_tag
                 in case gcm_decrypt S (cipher ch) nonce_bytes (u64_to_be wire_seq) ct tag_bytes of
                      None \<Rightarrow> (Err AeadFailure, ch, s4)
                    | Some pt \<Rightarrow>
                        (Ok (Data pt), ch\<lparr>recv_seq := wire_seq, recv_initialized := True\<rparr>, s4))))))))"

text \<open>The \<open>FRAME_KEY_ROTATE\<close> arm of \<open>read_frame\<close>.\<close>

definition read_key_rotate_frame ::
  "sym_prims \<Rightarrow> channel \<Rightarrow> bytes \<Rightarrow> (frame_error + frame_result) \<times> channel \<times> bytes" where
  "read_key_rotate_frame S ch s = (case read_exact NONCE_LEN s of
     None \<Rightarrow> (Err (Io UnexpectedEof), ch, [])
   | Some (gcm_nonce, s1) \<Rightarrow> (case read_exact (ROTATION_NONCE_LEN + TAG_LEN) s1 of
       None \<Rightarrow> (Err (Io UnexpectedEof), ch, [])
     | Some (ct_and_tag, s2) \<Rightarrow>
        (let ct = take ROTATION_NONCE_LEN ct_and_tag;
             tag_bytes = drop ROTATION_NONCE_LEN ct_and_tag;
             aad = u64_to_be (key_rotate_recv_seq ch)
         in case gcm_decrypt S (cipher ch) gcm_nonce aad ct tag_bytes of
              None \<Rightarrow> (Err AeadFailure, ch, s2)
            | Some rotation_nonce \<Rightarrow>
                (Ok (KeyRotate rotation_nonce),
                 ch\<lparr>key_rotate_recv_seq := key_rotate_recv_seq ch + 1\<rparr>, s2))))"

text \<open>\<open>EncryptedChannel::read_frame\<close>: dispatch on the first byte.\<close>

definition read_frame ::
  "sym_prims \<Rightarrow> channel \<Rightarrow> bytes \<Rightarrow> (frame_error + frame_result) \<times> channel \<times> bytes" where
  "read_frame S ch s = (case read_exact 1 s of
     None \<Rightarrow> (Err (Io UnexpectedEof), ch, [])
   | Some (type_buf, s1) \<Rightarrow>
      (if hd type_buf = FRAME_DATA then read_data_frame S ch s1
       else if hd type_buf = FRAME_KEY_ROTATE then read_key_rotate_frame S ch s1
       else (Err (Invalid (UnknownFrameType (hd type_buf))), ch, s1)))"

text \<open>\<open>EncryptedChannel::send_key_rotate\<close>; \<open>gcm_nonce\<close> is what \<open>OsRng\<close> filled in.\<close>

definition send_key_rotate ::
  "sym_prims \<Rightarrow> channel \<Rightarrow> writer \<Rightarrow> bytes \<Rightarrow> bytes \<Rightarrow>
   (key_rotate_error + unit) \<times> channel \<times> writer" where
  "send_key_rotate S ch w gcm_nonce nonce =
    (let aad = u64_to_be (key_rotate_send_seq ch)
     in case gcm_encrypt S (cipher ch) gcm_nonce aad nonce of
          None \<Rightarrow> (Err KeyRotateEncrypt, ch, w)
        | Some (rotation_nonce, tag) \<Rightarrow>
            (case write_flush [[FRAME_KEY_ROTATE], gcm_nonce, rotation_nonce, tag] w of
               (Err e, w') \<Rightarrow> (Err (KeyRotateIo e), ch, w')
             | (Ok _, w') \<Rightarrow>
                 (Ok (), ch\<lparr>key_rotate_send_seq := key_rotate_send_seq ch + 1\<rparr>, w')))"

text \<open>\<open>EncryptedChannel::rotate_key\<close>; \<open>None\<close> is the panic of \<open>expect("HKDF expand")\<close>.\<close>

definition rotate_key :: "sym_prims \<Rightarrow> channel \<Rightarrow> bytes \<Rightarrow> channel option" where
  "rotate_key S ch nonce =
    (case hkdf_sha256 S nonce (key_bytes ch) ROTATION_HKDF_INFO 32 of
       None \<Rightarrow> None
     | Some new_key \<Rightarrow> Some (ch\<lparr>cipher := new_key, key_bytes := new_key,
         send_seq := 0, recv_seq := 0, recv_initialized := False, epoch := epoch ch + 1\<rparr>))"

text \<open>The number of bytes a pending \<open>read_frame\<close> can have taken from the stream when another branch of
  a \<open>select!\<close> wins and the future is dropped: they do not complete a frame.\<close>

definition incomplete :: "sym_prims \<Rightarrow> channel \<Rightarrow> bytes \<Rightarrow> nat \<Rightarrow> bool" where
  "incomplete S ch s k \<longleftrightarrow> k = 0 \<or> k \<le> length s \<and> fst (read_frame S ch (take k s)) = Err (Io UnexpectedEof)"

section \<open>Frames on the wire\<close>

lemmas frame_defs = NONCE_LEN_def TAG_LEN_def SEQ_LEN_def ROTATION_NONCE_LEN_def
  FRAME_DATA_def FRAME_KEY_ROTATE_def

text \<open>The byte layout of a DATA frame and of a KEY\_ROTATE frame.\<close>

definition data_wire :: "u64 \<Rightarrow> bytes \<Rightarrow> bytes \<Rightarrow> bytes \<Rightarrow> bytes" where
  "data_wire seq nonce c t = FRAME_DATA # u32_to_be (word_of_nat (length c + TAG_LEN)) @
     u64_to_be seq @ nonce @ c @ t"

definition rotate_wire :: "bytes \<Rightarrow> bytes \<Rightarrow> bytes \<Rightarrow> bytes" where
  "rotate_wire gcm_nonce c t = FRAME_KEY_ROTATE # gcm_nonce @ c @ t"

definition data_nonce :: "channel \<Rightarrow> bytes" where
  "data_nonce ch = u64_to_be (send_seq ch) @ u32_to_be (epoch ch)"

lemma length_data_nonce [simp]: "length (data_nonce ch) = 12"
  by (simp add: data_nonce_def)

lemma write_frame_OkE:
  assumes "write_frame S ch w data = (Ok u, ch', w')"
  obtains c t where "gcm_encrypt S (cipher ch) (data_nonce ch) (u64_to_be (send_seq ch)) data = Some (c, t)"
    and "ch' = ch\<lparr>send_seq := send_seq ch + 1\<rparr>"
    and "w_sent w' = w_sent w @ data_wire (send_seq ch) (data_nonce ch) c t"
proof -
  from assms obtain c t where e: "gcm_encrypt S (cipher ch) (data_nonce ch)
      (u64_to_be (send_seq ch)) data = Some (c, t)"
    by (auto simp: write_frame_def data_nonce_def Let_def split: option.splits)
  with assms have "write_flush [[FRAME_DATA], u32_to_be (word_of_nat (length c + TAG_LEN)),
      u64_to_be (send_seq ch), data_nonce ch, c, t] w = (Ok (), w')"
    and "ch' = ch\<lparr>send_seq := send_seq ch + 1\<rparr>"
    by (auto simp: write_frame_def data_nonce_def Let_def split: prod.splits sum.splits)
  with e that show ?thesis by (auto simp: data_wire_def dest!: write_flush_OkD)
qed

lemma write_frame_Err_state:
  "write_frame S ch w data = (Err e, ch', w') \<Longrightarrow> ch' = ch"
  by (auto simp: write_frame_def Let_def split: option.splits prod.splits sum.splits)

lemma write_frame_open:
  assumes "gcm_encrypt S (cipher ch) (data_nonce ch) (u64_to_be (send_seq ch)) data = Some (c, t)"
    and "w_budget w = None" "w_flush_ok w"
  shows "write_frame S ch w data = (Ok (), ch\<lparr>send_seq := send_seq ch + 1\<rparr>,
     w\<lparr>w_sent := w_sent w @ data_wire (send_seq ch) (data_nonce ch) c t\<rparr>)"
  using assms by (simp add: write_frame_def data_nonce_def data_wire_def Let_def io_simps)

lemma send_key_rotate_OkE:
  assumes "send_key_rotate S ch w g n = (Ok u, ch', w')"
  obtains c t where "gcm_encrypt S (cipher ch) g (u64_to_be (key_rotate_send_seq ch)) n = Some (c, t)"
    and "ch' = ch\<lparr>key_rotate_send_seq := key_rotate_send_seq ch + 1\<rparr>"
    and "w_sent w' = w_sent w @ rotate_wire g c t"
proof -
  from assms obtain c t where e: "gcm_encrypt S (cipher ch) g (u64_to_be (key_rotate_send_seq ch)) n = Some (c, t)"
    by (auto simp: send_key_rotate_def Let_def split: option.splits)
  with assms have "write_flush [[FRAME_KEY_ROTATE], g, c, t] w = (Ok (), w')"
    and "ch' = ch\<lparr>key_rotate_send_seq := key_rotate_send_seq ch + 1\<rparr>"
    by (auto simp: send_key_rotate_def Let_def split: prod.splits sum.splits)
  with e that show ?thesis by (auto simp: rotate_wire_def dest!: write_flush_OkD)
qed

lemma send_key_rotate_open:
  assumes "gcm_encrypt S (cipher ch) g (u64_to_be (key_rotate_send_seq ch)) n = Some (c, t)"
    and "w_budget w = None" "w_flush_ok w"
  shows "send_key_rotate S ch w g n =
     (Ok (), ch\<lparr>key_rotate_send_seq := key_rotate_send_seq ch + 1\<rparr>,
      w\<lparr>w_sent := w_sent w @ rotate_wire g c t\<rparr>)"
  using assms by (simp add: send_key_rotate_def rotate_wire_def Let_def io_simps)

section \<open>Reading a frame\<close>

lemma read_exact_Cons1 [io_simps]: "read_exact (Suc 0) (b # s) = Some ([b], s)"
  by (simp add: read_exact_def)

text \<open>The reader on a well-formed DATA frame, by the outcome of its two checks.\<close>

lemma read_data_wire:
  assumes "length n = 12" "length t = 16" "length c \<le> max_frame_size r" "length c + 16 < 2 ^ 32"
  shows "read_frame S r (data_wire seq n c t @ rest) =
    (if recv_initialized r \<and> seq \<le> recv_seq r
     then (Err (Replay seq (recv_seq r)), r, n @ c @ t @ rest)
     else (case gcm_decrypt S (cipher r) n (u64_to_be seq) c t of
        None \<Rightarrow> (Err AeadFailure, r, rest)
      | Some p \<Rightarrow> (Ok (Data p), r\<lparr>recv_seq := seq, recv_initialized := True\<rparr>, rest)))"
proof -
  have len: "unat (word_of_nat (length c + 16) :: u32) = length c + 16"
    by (rule unat_u32_of_nat) (rule assms(4))
  have ct: "read_exact (length c + 16) (c @ t @ rest) = Some (c @ t, rest)"
    using assms(2) read_exact_append [of "c @ t" "length c + 16" rest] by simp
  show ?thesis using assms len ct
    by (simp add: read_frame_def read_data_frame_def data_wire_def frame_defs io_simps Let_def
        split: option.splits)
qed

lemma read_rotate_wire:
  assumes "length g = 12" "length c = 32" "length t = 16"
  shows "read_frame S r (rotate_wire g c t @ rest) =
    (case gcm_decrypt S (cipher r) g (u64_to_be (key_rotate_recv_seq r)) c t of
        None \<Rightarrow> (Err AeadFailure, r, rest)
      | Some n \<Rightarrow> (Ok (KeyRotate n),
          r\<lparr>key_rotate_recv_seq := key_rotate_recv_seq r + 1\<rparr>, rest))"
proof -
  have ct: "read_exact 48 (c @ t @ rest) = Some (c @ t, rest)"
    using assms read_exact_append [of "c @ t" 48 rest] by simp
  show ?thesis using assms ct
    by (simp add: read_frame_def read_key_rotate_frame_def rotate_wire_def frame_defs io_simps Let_def
        split: option.splits)
qed

text \<open>Whatever the bytes, an accepted DATA frame has exactly this shape.\<close>

lemma read_frame_DataD:
  assumes "read_frame S r s = (Ok (Data p), r', rest)"
  obtains seq n c t where "s = data_wire seq n c t @ rest" "length n = 12" "length t = 16"
    "length c \<le> max_frame_size r" "length c + 16 < 2 ^ 32"
    "recv_initialized r \<longrightarrow> recv_seq r < seq"
    "gcm_decrypt S (cipher r) n (u64_to_be seq) c t = Some p"
    "r' = r\<lparr>recv_seq := seq, recv_initialized := True\<rparr>"
proof -
  from assms obtain b s1 where s: "s = b # s1" and b: "b = FRAME_DATA"
    and d: "read_data_frame S r s1 = (Ok (Data p), r', rest)"
    by (cases s) (auto simp: read_frame_def read_exact_def read_key_rotate_frame_def Let_def
        split: option.splits if_splits)
  from d obtain lb s2 sb s3 n s4 ct where
    r1: "read_exact 4 s1 = Some (lb, s2)" and r2: "read_exact 8 s2 = Some (sb, s3)"
    and r3: "read_exact 12 s3 = Some (n, s4)"
    and len: "\<not> unat (u32_from_be lb) < 16" "\<not> max_frame_size r + 16 < unat (u32_from_be lb)"
    and r4: "read_exact (unat (u32_from_be lb)) s4 = Some (ct, rest)"
    and g: "\<not> (recv_initialized r \<and> u64_from_be sb \<le> recv_seq r)"
    and dec: "gcm_decrypt S (cipher r) n (u64_to_be (u64_from_be sb))
       (take (unat (u32_from_be lb) - 16) ct) (drop (unat (u32_from_be lb) - 16) ct) = Some p"
    and r': "r' = r\<lparr>recv_seq := u64_from_be sb, recv_initialized := True\<rparr>"
    by (auto simp: read_data_frame_def frame_defs Let_def split: option.splits if_splits)
  note rs = r1 [THEN read_exact_SomeD] r2 [THEN read_exact_SomeD] r3 [THEN read_exact_SomeD]
    r4 [THEN read_exact_SomeD]
  let ?len = "unat (u32_from_be lb)"
  let ?c = "take (?len - 16) ct" and ?t = "drop (?len - 16) ct"
  have lc: "length ?c + 16 = ?len" using rs len by simp
  have lb: "u32_to_be (word_of_nat (length ?c + 16)) = lb"
    using rs lc by (simp add: u32_to_from_be)
  have ct: "ct = ?c @ ?t" by simp
  have "s = data_wire (u64_from_be sb) n ?c ?t @ rest"
    unfolding data_wire_def using rs s b lb by (simp add: frame_defs)
  moreover have "length ?t = 16" "length ?c \<le> max_frame_size r" using rs len by auto
  moreover have "length ?c + 16 < 2 ^ 32" unfolding lc using unat_u32_less [of "u32_from_be lb"] by simp
  ultimately show ?thesis using that [of "u64_from_be sb" n ?c ?t] rs g dec r'
    by (auto simp: not_le)
qed

lemma read_frame_KeyRotateD:
  assumes "read_frame S r s = (Ok (KeyRotate nonce), r', rest)"
  obtains g c t where "s = rotate_wire g c t @ rest" "length g = 12" "length c = 32" "length t = 16"
    "gcm_decrypt S (cipher r) g (u64_to_be (key_rotate_recv_seq r)) c t = Some nonce"
    "r' = r\<lparr>key_rotate_recv_seq := key_rotate_recv_seq r + 1\<rparr>"
proof -
  from assms obtain b s1 where s: "s = b # s1" and b: "b = FRAME_KEY_ROTATE"
    and d: "read_key_rotate_frame S r s1 = (Ok (KeyRotate nonce), r', rest)"
    by (cases s) (auto simp: read_frame_def read_exact_def read_data_frame_def Let_def
        split: option.splits if_splits)
  from d obtain g s2 ct where r1: "read_exact 12 s1 = Some (g, s2)"
    and r2: "read_exact 48 s2 = Some (ct, rest)"
    and dec: "gcm_decrypt S (cipher r) g (u64_to_be (key_rotate_recv_seq r)) (take 32 ct) (drop 32 ct)
       = Some nonce"
    and r': "r' = r\<lparr>key_rotate_recv_seq := key_rotate_recv_seq r + 1\<rparr>"
    by (auto simp: read_key_rotate_frame_def frame_defs Let_def split: option.splits)
  note rs = r1 [THEN read_exact_SomeD] r2 [THEN read_exact_SomeD]
  have "s = rotate_wire g (take 32 ct) (drop 32 ct) @ rest"
    unfolding rotate_wire_def using rs s b by simp
  then show ?thesis using that [of g "take 32 ct" "drop 32 ct"] rs dec r' by auto
qed

lemma read_frame_Err_state:
  "read_frame S r s = (Err e, r', rest) \<Longrightarrow> r' = r"
  by (auto simp: read_frame_def read_data_frame_def read_key_rotate_frame_def Let_def
      split: option.splits if_splits)

lemma length_data_wire:
  "length n = 12 \<Longrightarrow> length t = 16 \<Longrightarrow> length (data_wire seq n c t) = 41 + length c"
  by (simp add: data_wire_def)

lemma length_rotate_wire:
  "length g = 12 \<Longrightarrow> length c = 32 \<Longrightarrow> length t = 16 \<Longrightarrow> length (rotate_wire g c t) = 61"
  by (simp add: rotate_wire_def)

lemma read_frame_Ok_shorter:
  "read_frame S r s = (Ok m, r', rest) \<Longrightarrow> length rest < length s"
  by (cases m) (auto elim!: read_frame_DataD read_frame_KeyRotateD simp: length_data_wire length_rotate_wire)

section \<open>Invariant and counters\<close>

text \<open>The cipher object and the ratchet key agree and have 32 bytes.\<close>

definition channel_wf :: "channel \<Rightarrow> bool" where
  "channel_wf ch \<longleftrightarrow> cipher ch = key_bytes ch \<and> length (key_bytes ch) = 32"

lemma rotate_key_total:
  assumes "hkdf_laws S"
  obtains k where "hkdf_sha256 S nonce (key_bytes ch) ROTATION_HKDF_INFO 32 = Some k" "length k = 32"
    "rotate_key S ch nonce = Some (ch\<lparr>cipher := k, key_bytes := k, send_seq := 0, recv_seq := 0,
       recv_initialized := False, epoch := epoch ch + 1\<rparr>)"
proof -
  from assms obtain k where k: "hkdf_sha256 S nonce (key_bytes ch) ROTATION_HKDF_INFO 32 = Some k" "length k = 32"
    unfolding hkdf_laws_def by (metis le_numeral_extra(4) mult_le_mono1 numeral_le_one_iff mult_1 one_le_numeral)
  with that show ?thesis by (simp add: rotate_key_def)
qed

lemma write_frame_wf: "write_frame S ch w d = (res, ch', w') \<Longrightarrow> channel_wf ch' = channel_wf ch"
  by (cases res) (auto simp: channel_wf_def dest: write_frame_Err_state elim: write_frame_OkE)

lemma read_frame_wf: "read_frame S ch s = (res, ch', s') \<Longrightarrow> channel_wf ch' = channel_wf ch"
  by (auto simp: read_frame_def read_data_frame_def read_key_rotate_frame_def channel_wf_def Let_def
      split: option.splits if_splits)

lemma read_frame_max:
  "read_frame S ch s = (res, ch', s') \<Longrightarrow> max_frame_size ch' = max_frame_size ch"
  by (auto simp: read_frame_def read_data_frame_def read_key_rotate_frame_def Let_def
      split: option.splits if_splits)

lemma send_key_rotate_wf:
  "send_key_rotate S ch w g n = (res, ch', w') \<Longrightarrow> channel_wf ch' = channel_wf ch"
  by (auto simp: send_key_rotate_def channel_wf_def Let_def
      split: option.splits prod.splits sum.splits)

text \<open>The receive counter is a replay guard.\<close>

definition recv_admits :: "channel \<Rightarrow> u64 \<Rightarrow> bool" where
  "recv_admits r n \<longleftrightarrow> \<not> (recv_initialized r \<and> n \<le> recv_seq r)"

definition recv_commit :: "channel \<Rightarrow> u64 \<Rightarrow> channel" where
  "recv_commit r n = r\<lparr>recv_seq := n, recv_initialized := True\<rparr>"

definition recv_floor :: "channel \<Rightarrow> u64 option" where
  "recv_floor r = (if recv_initialized r then Some (recv_seq r) else None)"

interpretation rg: replay_guard recv_admits recv_commit recv_floor
  by unfold_locales (auto simp: recv_admits_def recv_commit_def recv_floor_def not_le)

text \<open>
  \<open>deliver S r s\<close>: the sequence numbers and payloads of the DATA frames that a reader with
  state \<open>r\<close> takes from the bytes \<open>s\<close>, up to the first frame it does not deliver. The bytes
  are arbitrary: they are whatever the network hands over.
\<close>

function deliver :: "sym_prims \<Rightarrow> channel \<Rightarrow> bytes \<Rightarrow> (u64 \<times> bytes) list" where
  "deliver S r s = (case read_frame S r s of
     (Ok (Data p), r', rest) \<Rightarrow> (recv_seq r', p) # deliver S r' rest
   | _ \<Rightarrow> [])"
  by pat_completeness auto
termination
  by (relation "measure (\<lambda>(S, r, s). length s)") (auto dest: read_frame_Ok_shorter [OF sym])

declare deliver.simps [simp del]

lemma deliver_step:
  assumes "read_frame S r s = (Ok (Data p), r', rest)"
  obtains n where "deliver S r s = (n, p) # deliver S (recv_commit r n) rest" "recv_admits r n"
    "r' = recv_commit r n" "\<exists>g c t. gcm_decrypt S (cipher r) g (u64_to_be n) c t = Some p"
proof -
  from read_frame_DataD [OF assms] obtain n g c t where
    g: "recv_initialized r \<longrightarrow> recv_seq r < n"
    and d: "gcm_decrypt S (cipher r) g (u64_to_be n) c t = Some p"
    and r': "r' = r\<lparr>recv_seq := n, recv_initialized := True\<rparr>" .
  have "deliver S r s = (n, p) # deliver S (recv_commit r n) rest"
    by (subst deliver.simps) (simp add: assms r' recv_commit_def)
  then show ?thesis using that [of n] g d r' by (auto simp: recv_admits_def recv_commit_def not_le)
qed

lemma deliver_stop:
  "\<nexists>p r' rest. read_frame S r s = (Ok (Data p), r', rest) \<Longrightarrow> deliver S r s = []"
  by (subst deliver.simps) (auto split: prod.splits sum.splits frame_result.splits)

lemma cipher_recv_commit [simp]: "cipher (recv_commit r n) = cipher r"
  by (simp add: recv_commit_def)

lemma deliver_sound:
  "rg.chain r (map fst (deliver S r s)) \<and>
   (\<forall>(n, p) \<in> set (deliver S r s). \<exists>g c t. gcm_decrypt S (cipher r) g (u64_to_be n) c t = Some p)"
proof (induction S r s rule: deliver.induct)
  case (1 S r s)
  show ?case
  proof (cases "\<exists>p r' rest. read_frame S r s = (Ok (Data p), r', rest)")
    case False
    then show ?thesis by (simp add: deliver_stop)
  next
    case True
    then obtain p r' rest where rf: "read_frame S r s = (Ok (Data p), r', rest)" by blast
    from deliver_step [OF rf] obtain n where n: "deliver S r s = (n, p) # deliver S (recv_commit r n) rest"
      "recv_admits r n" "r' = recv_commit r n"
      "\<exists>g c t. gcm_decrypt S (cipher r) g (u64_to_be n) c t = Some p" .
    from "1.IH" [OF rf [symmetric] refl refl refl] n show ?thesis by simp
  qed
qed

end
