(* ===== verification/Channel_Props.thy ===== *)
theory Channel_Props
  imports Channel
begin

text \<open>
  Properties of the encrypted channel: delivery between two endpoints in step, replay and
  integrity against an arbitrary byte stream, uniqueness of the AES-GCM nonces of one
  endpoint, and what the wire format does not protect (nonces shared by the two directions,
  reflection, the unauthenticated frame type).
\<close>

section \<open>Two endpoints in step\<close>

text \<open>What one side of a session sends, and what the other side does with it: a DATA frame is
  handed on, a KEY\_ROTATE frame ratchets both keys (\<open>do_rotate\<close> of the bridge, \<open>run_relay\<close> of
  the client).\<close>

datatype chan_op = SendData bytes | Rotate bytes bytes

fun chan_send :: "sym_prims \<Rightarrow> channel \<Rightarrow> chan_op \<Rightarrow> (bytes \<times> channel) option" where
  "chan_send S ch (SendData d) = (case write_frame S ch open_writer d of
      (Ok _, ch', w) \<Rightarrow> Some (w_sent w, ch') | (Err _, _, _) \<Rightarrow> None)"
| "chan_send S ch (Rotate n g) = (case send_key_rotate S ch open_writer g n of
      (Ok _, ch', w) \<Rightarrow> map_option (Pair (w_sent w)) (rotate_key S ch' n)
    | (Err _, _, _) \<Rightarrow> None)"

definition chan_recv :: "sym_prims \<Rightarrow> channel \<Rightarrow> bytes \<Rightarrow> (frame_result \<times> channel \<times> bytes) option" where
  "chan_recv S ch b = (case read_frame S ch b of
      (Ok (Data d), ch', rest) \<Rightarrow> Some (Data d, ch', rest)
    | (Ok (KeyRotate n), ch', rest) \<Rightarrow>
        map_option (\<lambda>ch''. (KeyRotate n, ch'', rest)) (rotate_key S ch' n)
    | (Err _, _, _) \<Rightarrow> None)"

fun op_image :: "chan_op \<Rightarrow> frame_result" where
  "op_image (SendData d) = Data d"
| "op_image (Rotate n g) = KeyRotate n"

fun op_valid :: "channel \<Rightarrow> chan_op \<Rightarrow> bool" where
  "op_valid r (SendData d) \<longleftrightarrow> length d \<le> max_frame_size r \<and> length d + 16 < 2 ^ 32"
| "op_valid r (Rotate n g) \<longleftrightarrow> length n = 32 \<and> length g = 12"

definition in_step :: "channel \<Rightarrow> channel \<Rightarrow> bool" where
  "in_step s r \<longleftrightarrow> channel_wf s \<and> cipher r = cipher s \<and> key_bytes r = key_bytes s \<and>
     key_rotate_recv_seq r = key_rotate_send_seq s \<and>
     (recv_initialized r \<longrightarrow> recv_seq r < send_seq s)"

definition prim_laws :: "sym_prims \<Rightarrow> bool" where
  "prim_laws S \<longleftrightarrow> aead_laws S \<and> aead_total S \<and> hkdf_laws S"

definition chan_link :: "sym_prims \<Rightarrow> nat \<Rightarrow> channel \<Rightarrow> channel \<Rightarrow> bool" where
  "chan_link S n s r \<longleftrightarrow> prim_laws S \<and> in_step s r \<and> unat (send_seq s) + n < 2 ^ 64"

lemma open_writer_simps [simp]: "w_budget open_writer = None" "w_sent open_writer = []" "w_flush_ok open_writer"
  by (simp_all add: open_writer_def)

lemma aead_totalE:
  assumes "aead_total S" "length k = 32" "length n = 12" "length a = 8" "length p \<le> 2 ^ 36"
  obtains c t where "gcm_encrypt S k n a p = Some (c, t)"
proof -
  have "gcm_encrypt S k n a p \<noteq> None" using assms unfolding aead_total_def by blast
  with that show ?thesis by auto
qed

lemma u64_succ_greater: "unat (w :: u64) + 1 < 2 ^ 64 \<Longrightarrow> w < w + 1 \<and> unat (w + 1) = unat w + 1"
  by (auto simp: word_less_nat_alt unat_word_ariths)

lemma chan_send_recv_data:
  assumes l: "chan_link S (Suc n) s r" and v: "op_valid r (SendData d)"
  shows "\<exists>w s' r'. chan_send S s (SendData d) = Some (w, s') \<and> chan_link S n s' r' \<and>
    op_valid r' = op_valid r \<and> (\<forall>rest. chan_recv S r (w @ rest) = Some (Data d, r', rest))"
proof -
  from l have laws: "aead_laws S" "aead_total S" and st: "in_step s r"
    and room: "unat (send_seq s) + Suc n < 2 ^ 64" by (auto simp: chan_link_def prim_laws_def)
  from st have k: "length (cipher s) = 32" "cipher r = cipher s" by (auto simp: in_step_def channel_wf_def)
  obtain c t where e: "gcm_encrypt S (cipher s) (data_nonce s) (u64_to_be (send_seq s)) d = Some (c, t)"
    by (rule aead_totalE [OF laws(2), of "cipher s" "data_nonce s" "u64_to_be (send_seq s)" d])
      (use k v in simp_all)
  note ct = aead_lawsD [OF laws(1) e]
  have nx: "send_seq s < send_seq s + 1" "unat (send_seq s + 1) = unat (send_seq s) + 1"
    using u64_succ_greater [of "send_seq s"] room by auto
  let ?s' = "s\<lparr>send_seq := send_seq s + 1\<rparr>" and ?r' = "r\<lparr>recv_seq := send_seq s, recv_initialized := True\<rparr>"
  have "chan_send S s (SendData d) = Some (data_wire (send_seq s) (data_nonce s) c t, ?s')"
    by (simp add: write_frame_open [OF e])
  moreover have "chan_link S n ?s' ?r'"
    using l nx by (auto simp: chan_link_def in_step_def channel_wf_def)
  moreover have "op_valid ?r' = op_valid r" by (intro ext, case_tac x) simp_all
  moreover have "chan_recv S r (data_wire (send_seq s) (data_nonce s) c t @ rest) = Some (Data d, ?r', rest)" for rest
    using v ct k st by (auto simp: chan_recv_def read_data_wire in_step_def not_le)
  ultimately show ?thesis by blast
qed

lemma chan_send_recv_rotate:
  assumes l: "chan_link S (Suc n) s r" and v: "op_valid r (Rotate x g)"
  shows "\<exists>w s' r'. chan_send S s (Rotate x g) = Some (w, s') \<and> chan_link S n s' r' \<and>
    op_valid r' = op_valid r \<and> (\<forall>rest. chan_recv S r (w @ rest) = Some (KeyRotate x, r', rest))"
proof -
  from l have laws: "aead_laws S" "aead_total S" "hkdf_laws S" and st: "in_step s r"
    and room: "unat (send_seq s) + Suc n < 2 ^ 64" by (auto simp: chan_link_def prim_laws_def)
  from st have k: "length (cipher s) = 32" "cipher r = cipher s" "key_bytes r = key_bytes s"
    "key_rotate_recv_seq r = key_rotate_send_seq s" by (auto simp: in_step_def channel_wf_def)
  obtain c t where e: "gcm_encrypt S (cipher s) g (u64_to_be (key_rotate_send_seq s)) x = Some (c, t)"
    by (rule aead_totalE [OF laws(2), of "cipher s" g "u64_to_be (key_rotate_send_seq s)" x])
      (use k v in simp_all)
  note ct = aead_lawsD [OF laws(1) e]
  let ?s = "s\<lparr>key_rotate_send_seq := key_rotate_send_seq s + 1\<rparr>"
  let ?r = "r\<lparr>key_rotate_recv_seq := key_rotate_recv_seq r + 1\<rparr>"
  obtain nk where nk: "length nk = 32" "hkdf_sha256 S x (key_bytes s) ROTATION_HKDF_INFO 32 = Some nk"
    using laws(3) by (elim rotate_key_total [where ch = s and nonce = x])
  let ?f = "\<lambda>ch. ch\<lparr>cipher := nk, key_bytes := nk, send_seq := 0, recv_seq := 0,
    recv_initialized := False, epoch := epoch ch + 1\<rparr>"
  have rs: "rotate_key S ?s x = Some (?f ?s)" "rotate_key S ?r x = Some (?f ?r)"
    using nk k by (simp_all add: rotate_key_def)
  have "chan_send S s (Rotate x g) = Some (rotate_wire g c t, ?f ?s)"
    by (simp add: send_key_rotate_open [OF e] rs)
  moreover have "chan_link S n (?f ?s) (?f ?r)"
    using l nk k room by (auto simp: chan_link_def in_step_def channel_wf_def)
  moreover have "op_valid (?f ?r) = op_valid r" by (intro ext, case_tac x) simp_all
  moreover have "chan_recv S r (rotate_wire g c t @ rest) = Some (KeyRotate x, ?f ?r, rest)" for rest
    using v ct k rs by (simp add: chan_recv_def read_rotate_wire)
  ultimately show ?thesis by blast
qed

interpretation lk: ordered_link "chan_send S" "chan_recv S" "chan_link S" op_valid op_image for S
proof unfold_locales
  fix n s r m
  assume "chan_link S (Suc n) s r" "op_valid r m"
  then show "\<exists>w s' r'. chan_send S s m = Some (w, s') \<and> chan_link S n s' r' \<and> op_valid r' = op_valid r \<and>
     (\<forall>rest. chan_recv S r (w @ rest) = Some (op_image m, r', rest))"
    by (cases m) (simp_all only: op_image.simps chan_send_recv_data chan_send_recv_rotate)
qed

lemma new_channels_in_step:
  "length k = 32 \<Longrightarrow> in_step (channel_new k m) (channel_new k m')"
  by (simp add: in_step_def channel_wf_def channel_new_def)

section \<open>Delivery\<close>

text \<open>A sequence of operations of the sender, the bytes it puts on the wire, and the frames the
  receiver takes from them.\<close>

primrec send_ops :: "sym_prims \<Rightarrow> channel \<Rightarrow> chan_op list \<Rightarrow> (bytes \<times> channel) option" where
  "send_ops S ch [] = Some ([], ch)"
| "send_ops S ch (m # ms) = (case chan_send S ch m of None \<Rightarrow> None
    | Some (w, ch') \<Rightarrow> (case send_ops S ch' ms of None \<Rightarrow> None
        | Some (w', ch'') \<Rightarrow> Some (w @ w', ch'')))"

primrec recv_ops :: "sym_prims \<Rightarrow> nat \<Rightarrow> channel \<Rightarrow> bytes \<Rightarrow> (frame_result list \<times> channel \<times> bytes) option" where
  "recv_ops S 0 ch b = Some ([], ch, b)"
| "recv_ops S (Suc k) ch b = (case chan_recv S ch b of None \<Rightarrow> None
    | Some (x, ch', b') \<Rightarrow> (case recv_ops S k ch' b' of None \<Rightarrow> None
        | Some (xs, ch'', b'') \<Rightarrow> Some (x # xs, ch'', b'')))"

lemma send_ops_lk: "send_ops S ch ms = lk.send_all S ch ms"
  by (induction ms arbitrary: ch) (auto split: option.splits)

lemma recv_ops_lk: "recv_ops S k ch b = lk.recv_all S k ch b"
  by (induction k arbitrary: ch b) (auto split: option.splits)

lemma send_ops_delivery:
  assumes "chan_link S (length ops) s r" "\<forall>x \<in> set ops. op_valid r x"
  shows "\<exists>w s' r'. send_ops S s ops = Some (w, s') \<and> chan_link S 0 s' r' \<and>
    (\<forall>rest. recv_ops S (length ops) r (w @ rest) = Some (map op_image ops, r', rest))"
  using lk.delivery [of S 0 ops s r] assms unfolding send_ops_lk recv_ops_lk by auto

text \<open>C1. Ordered, lossless delivery through key rotations: when the two ends of a session are
  in step, any sequence of data frames and key rotations that one side sends is received by the
  other side as exactly that sequence, nothing is left over on the wire, and the two ends are in
  step again. No frame of such a run is refused.\<close>

theorem channel_stream_delivery:
  assumes "prim_laws S" and "in_step s r" and "unat (send_seq s) + length ops < 2 ^ 64"
    and "\<forall>x \<in> set ops. op_valid r x"
  shows "\<exists>w s' r'. send_ops S s ops = Some (w, s') \<and>
     recv_ops S (length ops) r w = Some (map op_image ops, r', []) \<and> in_step s' r'"
proof -
  from assms have "chan_link S (length ops) s r" by (simp add: chan_link_def)
  from send_ops_delivery [OF this assms(4)] obtain w s' r' where
    "send_ops S s ops = Some (w, s')" "in_step s' r'"
    "\<And>rest. recv_ops S (length ops) r (w @ rest) = Some (map op_image ops, r', rest)"
    by (auto simp: chan_link_def)
  then show ?thesis by (metis append_Nil2)
qed

definition demo_key :: bytes where "demo_key = replicate 32 66"

definition demo_ops :: "chan_op list" where
  "demo_ops = [SendData [1, 2, 3], Rotate (replicate 32 7) (replicate 12 9), SendData [], SendData [4]]"

lemma demo_laws: "prim_laws toy_sym"
  by (simp add: prim_laws_def toy_sym_laws)

theorem channel_stream_delivery_witness:
  "\<exists>w s' r'. send_ops toy_sym (channel_new demo_key 65536) demo_ops = Some (w, s') \<and>
     recv_ops toy_sym 4 (channel_new demo_key 65536) w =
       Some ([Data [1, 2, 3], KeyRotate (replicate 32 7), Data [], Data [4]], r', []) \<and> in_step s' r'"
proof -
  let ?c = "channel_new demo_key 65536"
  have st: "in_step ?c ?c" by (rule new_channels_in_step) (simp add: demo_key_def)
  have "\<exists>w s' r'. send_ops toy_sym ?c demo_ops = Some (w, s') \<and>
     recv_ops toy_sym (length demo_ops) ?c w = Some (map op_image demo_ops, r', []) \<and> in_step s' r'"
    by (rule channel_stream_delivery [OF demo_laws st])
      (simp_all add: demo_ops_def channel_new_def)
  moreover have "length demo_ops = 4"
    "map op_image demo_ops = [Data [1, 2, 3], KeyRotate (replicate 32 7), Data [], Data [4]]"
    by (simp_all add: demo_ops_def)
  ultimately show ?thesis by (simp only:)
qed

lemma write_frame_reads_back:
  assumes "aead_laws S" and "write_frame S s w d = (Ok (), s', w')" and "cipher r = cipher s"
    and "recv_initialized r \<longrightarrow> recv_seq r < send_seq s"
    and "length d \<le> max_frame_size r" and "length d + 16 < 2 ^ 32"
  shows "\<exists>frame. w_sent w' = w_sent w @ frame \<and> length frame = 41 + length d \<and>
     read_frame S r (frame @ rest) =
       (Ok (Data d), r\<lparr>recv_seq := send_seq s, recv_initialized := True\<rparr>, rest)"
proof -
  from write_frame_OkE [OF assms(2)] obtain c t where
    e: "gcm_encrypt S (cipher s) (data_nonce s) (u64_to_be (send_seq s)) d = Some (c, t)"
    and w: "w_sent w' = w_sent w @ data_wire (send_seq s) (data_nonce s) c t" .
  note ct = aead_lawsD [OF assms(1) e]
  have "read_frame S r (data_wire (send_seq s) (data_nonce s) c t @ rest) =
      (Ok (Data d), r\<lparr>recv_seq := send_seq s, recv_initialized := True\<rparr>, rest)"
    using assms ct by (auto simp: read_data_wire not_le)
  with w ct show ?thesis by (auto simp: length_data_wire)
qed

text \<open>One data frame: what \<open>write_frame\<close> put on the wire is 41 bytes longer than the
  payload and reads back as the payload at any receiver that holds the key, has not accepted this
  or a later sequence number, and allows frames of that size; exactly the frame is consumed.\<close>

theorem data_frame_round_trip:
  assumes "aead_laws S" and "write_frame S s w d = (Ok (), s', w')" and "cipher r = cipher s"
    and "recv_initialized r \<longrightarrow> recv_seq r < send_seq s"
    and "length d \<le> max_frame_size r" and "length d + 16 < 2 ^ 32"
  shows "\<exists>frame. w_sent w' = w_sent w @ frame \<and> length frame = 41 + length d \<and>
     read_frame S r (frame @ rest) =
       (Ok (Data d), r\<lparr>recv_seq := send_seq s, recv_initialized := True\<rparr>, rest)"
  using write_frame_reads_back [OF assms] .

theorem data_frame_round_trip_witness:
  "\<exists>frame. w_sent (snd (snd (write_frame toy_sym (channel_new demo_key 1024) open_writer [5, 6]))) =
       [] @ frame \<and> length frame = 43 \<and>
     read_frame toy_sym (channel_new demo_key 1024) (frame @ [9]) =
       (Ok (Data [5, 6]), (channel_new demo_key 1024)\<lparr>recv_seq := 0, recv_initialized := True\<rparr>, [9])"
proof -
  let ?c = "channel_new demo_key 1024"
  obtain s' w' where wf: "write_frame toy_sym ?c open_writer [5, 6] = (Ok (), s', w')"
    by (simp add: write_frame_def toy_sym_def Let_def io_simps)
  show ?thesis
    using data_frame_round_trip [OF toy_sym_laws(1) wf, of ?c "[9]"] wf
    by (simp add: channel_new_def)
qed

section \<open>Integrity and replay against an arbitrary stream\<close>

text \<open>Both ends of a channel seal under the same key, and so do DATA and KEY_ROTATE frames. What one end seals under
  one key: the state of its channel at the beginning, the payloads it writes, and the rotations it announces
  (rotation nonce and GCM nonce). Of each seal the log has nonce, associated data and plaintext.\<close>

primrec seal_log :: "channel \<Rightarrow> bytes list \<Rightarrow> (bytes \<times> bytes \<times> bytes) set" where
  "seal_log ch [] = {}"
| "seal_log ch (m # ms) = insert (data_nonce ch, u64_to_be (send_seq ch), m)
     (seal_log (ch\<lparr>send_seq := send_seq ch + 1\<rparr>) ms)"

primrec rotate_log :: "channel \<Rightarrow> (bytes \<times> bytes) list \<Rightarrow> (bytes \<times> bytes \<times> bytes) set" where
  "rotate_log ch [] = {}"
| "rotate_log ch (x # xs) = insert (snd x, u64_to_be (key_rotate_send_seq ch), fst x)
     (rotate_log (ch\<lparr>key_rotate_send_seq := key_rotate_send_seq ch + 1\<rparr>) xs)"

record seals =
  sl_chan :: channel
  sl_data :: "bytes list"
  sl_rotations :: "(bytes \<times> bytes) list"

definition sealed :: "seals \<Rightarrow> (bytes \<times> bytes \<times> bytes) set" where
  "sealed x = seal_log (sl_chan x) (sl_data x) \<union> rotate_log (sl_chan x) (sl_rotations x)"

definition seals_ok :: "seals \<Rightarrow> bool" where
  "seals_ok x \<longleftrightarrow> unat (send_seq (sl_chan x)) + length (sl_data x) \<le> 2 ^ 64"

text \<open>The logs are what the operations pass to the cipher.\<close>

lemma write_frame_seals:
  assumes "write_frame S ch w d = (Ok u, ch', w')"
  shows "seal_log ch (d # ds) = insert (data_nonce ch, u64_to_be (send_seq ch), d) (seal_log ch' ds) \<and>
    gcm_encrypt S (cipher ch) (data_nonce ch) (u64_to_be (send_seq ch)) d \<noteq> None"
  using assms by (auto elim!: write_frame_OkE)

lemma send_key_rotate_seals:
  assumes "send_key_rotate S ch w g n = (Ok u, ch', w')"
  shows "rotate_log ch ((n, g) # xs) = insert (g, u64_to_be (key_rotate_send_seq ch), n) (rotate_log ch' xs) \<and>
    gcm_encrypt S (cipher ch) g (u64_to_be (key_rotate_send_seq ch)) n \<noteq> None"
  using assms by (auto elim!: send_key_rotate_OkE)

text \<open>Payload \<open>p\<close> was sealed as the DATA frame with number \<open>q\<close>; it is the nonce of a KEY_ROTATE frame whose
  counter is \<open>q\<close>.\<close>

definition data_at :: "seals \<Rightarrow> u64 \<Rightarrow> bytes \<Rightarrow> bool" where
  "data_at x q p \<longleftrightarrow> unat (send_seq (sl_chan x)) \<le> unat q \<and> unat q - unat (send_seq (sl_chan x)) < length (sl_data x) \<and>
     p = sl_data x ! (unat q - unat (send_seq (sl_chan x)))"

definition rotation_at :: "seals \<Rightarrow> u64 \<Rightarrow> bytes \<Rightarrow> bool" where
  "rotation_at x q p \<longleftrightarrow> (\<exists>i < length (sl_rotations x). q = key_rotate_send_seq (sl_chan x) + word_of_nat i \<and>
     p = fst (sl_rotations x ! i))"

text \<open>Ciphertext integrity of a stream under a key: whatever in it has the form of a DATA frame and opens under
  the key was sealed under the key. The stream may hold anything that was sealed, in any place and any number
  of times, and any other bytes that do not open.\<close>

definition unforged :: "sym_prims \<Rightarrow> bytes \<Rightarrow> (bytes \<times> bytes \<times> bytes) set \<Rightarrow> bytes \<Rightarrow> bool" where
  "unforged S k L stream \<longleftrightarrow> (\<forall>u v q n c t p. stream = u @ data_wire q n c t @ v \<longrightarrow> length n = 12 \<longrightarrow> length t = 16 \<longrightarrow>
     length c + 16 < 2 ^ 32 \<longrightarrow> gcm_decrypt S k n (u64_to_be q) c t = Some p \<longrightarrow> (n, u64_to_be q, p) \<in> L)"

lemma unforgedD:
  "unforged S k L (u @ data_wire q n c t @ v) \<Longrightarrow> length n = 12 \<Longrightarrow> length t = 16 \<Longrightarrow> length c + 16 < 2 ^ 32 \<Longrightarrow>
   gcm_decrypt S k n (u64_to_be q) c t = Some p \<Longrightarrow> (n, u64_to_be q, p) \<in> L"
  unfolding unforged_def by blast

lemma unforged_suffix: "unforged S k L (u @ s) \<Longrightarrow> unforged S k L s"
  unfolding unforged_def by (metis append.assoc)

lemma unforged_drop: "unforged S k L s \<Longrightarrow> unforged S k L (drop i s)"
  by (metis append_take_drop_id unforged_suffix)

lemma seal_log_payload:
  assumes "(g, u64_to_be n, p) \<in> seal_log ch ms" "unat (send_seq ch) + length ms \<le> 2 ^ 64"
  shows "unat (send_seq ch) \<le> unat n \<and> unat n - unat (send_seq ch) < length ms \<and>
    p = ms ! (unat n - unat (send_seq ch))"
  using assms
proof (induction ms arbitrary: ch)
  case Nil
  then show ?case by simp
next
  case (Cons m ms)
  let ?ch = "ch\<lparr>send_seq := send_seq ch + 1\<rparr>"
  show ?case
  proof (cases "(g, u64_to_be n, p) \<in> seal_log ?ch ms")
    case False
    with Cons.prems show ?thesis by auto
  next
    case True
    show ?thesis
    proof (cases ms)
      case Nil
      with True show ?thesis by simp
    next
      case (Cons m' ms')
      with Cons.prems(2) have "unat (send_seq ch) + 1 < 2 ^ 64" by simp
      then have u: "unat (send_seq ?ch) = unat (send_seq ch) + 1" using u64_succ_greater by simp
      with Cons.IH [OF True] Cons.prems(2) show ?thesis by (auto simp: nth_Cons' Suc_diff_le)
    qed
  qed
qed

lemma subseq_nth_increasing:
  "sorted_wrt (<) is \<Longrightarrow> (\<forall>i \<in> set is. i < length ms) \<Longrightarrow> subseq (map ((!) ms) is) ms"
proof (induction ms arbitrary: "is")
  case Nil
  then show ?case by (cases "is") auto
next
  case (Cons m ms)
  have tl: "subseq (map ((!) (m # ms)) js) ms"
    if "sorted_wrt (<) js" "\<forall>j \<in> set js. 0 < j \<and> j < Suc (length ms)" for js
  proof -
    let ?ks = "map (\<lambda>j. j - 1) js"
    have e: "map ((!) (m # ms)) js = map ((!) ms) ?ks" using that by auto
    have "sorted_wrt (<) ?ks"
      using that by (auto simp: sorted_wrt_map elim!: sorted_wrt_mono_rel [rotated])
    then have "subseq (map ((!) ms) ?ks) ms" by (rule Cons.IH) (use that in auto)
    then show ?thesis unfolding e .
  qed
  show ?case
  proof (cases "is")
    case Nil
    then show ?thesis by simp
  next
    case (Cons j js)
    with Cons.prems have js: "sorted_wrt (<) js" "\<forall>k \<in> set js. j < k \<and> k < Suc (length ms)" by auto
    show ?thesis
    proof (cases "j = 0")
      case True
      with Cons tl [OF js(1)] js(2) show ?thesis by simp
    next
      case False
      with Cons js Cons.prems(2) have "\<forall>k \<in> set is. 0 < k \<and> k < Suc (length ms)" by auto
      from tl [OF Cons.prems(1) this] show ?thesis by (rule list_emb_Cons)
    qed
  qed
qed

lemma rotate_log_payload:
  "(g, u64_to_be q, p) \<in> rotate_log ch xs \<Longrightarrow> \<exists>i < length xs. q = key_rotate_send_seq ch + word_of_nat i \<and> p = fst (xs ! i)"
proof (induction xs arbitrary: ch)
  case (Cons x xs)
  then consider "q = key_rotate_send_seq ch" "p = fst x"
    | "(g, u64_to_be q, p) \<in> rotate_log (ch\<lparr>key_rotate_send_seq := key_rotate_send_seq ch + 1\<rparr>) xs" by auto
  then show ?case
  proof cases
    case 2
    from Cons.IH [OF this] obtain i where "i < length xs" "q = key_rotate_send_seq ch + 1 + word_of_nat i" "p = fst (xs ! i)" by auto
    then show ?thesis by (intro exI [of _ "Suc i"]) simp
  qed (auto intro: exI [of _ 0])
qed simp

lemma sealed_cases:
  assumes "(g, u64_to_be q, p) \<in> sealed x" "seals_ok x"
  shows "data_at x q p \<or> rotation_at x q p"
  using assms seal_log_payload [of g q p "sl_chan x" "sl_data x"] rotate_log_payload [of g q p "sl_chan x" "sl_rotations x"]
  by (auto simp: sealed_def seals_ok_def data_at_def rotation_at_def)

text \<open>Payloads of one end at increasing numbers are a subsequence of what it wrote.\<close>

lemma data_at_subseq:
  assumes "sorted_wrt (<) (map fst D)" "\<forall>(q, p) \<in> set D. data_at x q p"
  shows "subseq (map snd D) (sl_data x)"
proof -
  let ?b = "unat (send_seq (sl_chan x))" and ?ms = "sl_data x"
  have at: "?b \<le> unat (fst y) \<and> unat (fst y) - ?b < length ?ms \<and> snd y = ?ms ! (unat (fst y) - ?b)" if "y \<in> set D" for y
    using that assms(2) by (cases y) (auto simp: data_at_def)
  have inc: "sorted_wrt (<) (map (\<lambda>y. unat (fst y) - ?b) D)"
    using assms(1) unfolding sorted_wrt_map
  proof (rule sorted_wrt_mono_rel [rotated])
    fix y z assume "y \<in> set D" "z \<in> set D" "fst y < fst z"
    with at [of y] show "unat (fst y) - ?b < unat (fst z) - ?b" by (auto simp: word_less_nat_alt intro: diff_less_mono)
  qed
  have "map snd D = map ((!) ?ms) (map (\<lambda>y. unat (fst y) - ?b) D)" using at by auto
  moreover have "subseq (map ((!) ?ms) (map (\<lambda>y. unat (fst y) - ?b) D)) ?ms"
    by (rule subseq_nth_increasing [OF inc]) (use at in auto)
  ultimately show ?thesis by (simp only:)
qed

lemma deliver_sealed:
  assumes "unforged S (cipher r) L stream"
  shows "\<forall>(q, p) \<in> set (deliver S r stream). \<exists>g. (g, u64_to_be q, p) \<in> L"
  using assms
proof (induction S r stream rule: deliver.induct)
  case (1 S r s)
  show ?case
  proof (cases "\<exists>p r' rest. read_frame S r s = (Ok (Data p), r', rest)")
    case False
    then show ?thesis by (simp add: deliver_stop)
  next
    case True
    then obtain p r' rest where rf: "read_frame S r s = (Ok (Data p), r', rest)" by blast
    then obtain q n c t where f: "s = data_wire q n c t @ rest" "length n = 12" "length t = 16" "length c + 16 < 2 ^ 32"
      "gcm_decrypt S (cipher r) n (u64_to_be q) c t = Some p" "r' = r\<lparr>recv_seq := q, recv_initialized := True\<rparr>"
      by (rule read_frame_DataD)
    have "(n, u64_to_be q, p) \<in> L" by (rule unforgedD [of S "cipher r" L "[]"]) (use "1.prems" f in simp_all)
    moreover have "unforged S (cipher r') L rest" using "1.prems" f by (metis unforged_suffix channel.select_convs(1) channel.surjective channel.update_convs)
    moreover have "deliver S r s = (q, p) # deliver S r' rest" by (subst deliver.simps) (simp add: rf f(6))
    ultimately show ?thesis using "1.IH" [OF rf [symmetric] refl refl refl] by auto
  qed
qed

text \<open>C2. Integrity of a direction, against an attacker who controls every byte the receiver reads and has every frame
  that either end sealed under the session key: when the stream holds no forgery, every payload the
  receiver delivers was sealed under the key, by the peer as the DATA frame with that number, or by the
  receiver itself (a reflected frame), or is the nonce of a KEY_ROTATE frame with that counter; the numbers
  strictly increase, so no number is delivered twice; and what is neither reflected nor taken from a
  KEY_ROTATE frame is a subsequence of the payloads the peer wrote: genuine, in order, none twice.\<close>

theorem delivered_payloads_sealed:
  assumes "unforged S (cipher r) (sealed peer \<union> sealed self) stream" "seals_ok peer" "seals_ok self"
  shows "sorted_wrt (<) (map fst (deliver S r stream)) \<and>
    (\<forall>(q, p) \<in> set (deliver S r stream). data_at peer q p \<or> data_at self q p \<or> rotation_at peer q p \<or> rotation_at self q p) \<and>
    subseq (map snd (filter (\<lambda>(q, p). \<not> data_at self q p \<and> \<not> rotation_at peer q p \<and> \<not> rotation_at self q p) (deliver S r stream)))
      (sl_data peer)"
proof -
  let ?D = "deliver S r stream"
  let ?E = "filter (\<lambda>(q, p). \<not> data_at self q p \<and> \<not> rotation_at peer q p \<and> \<not> rotation_at self q p) ?D"
  have inc: "sorted_wrt (<) (map fst ?D)" using deliver_sound [of r S stream] rg.chain_increasing by blast
  have at: "\<forall>(q, p) \<in> set ?D. data_at peer q p \<or> data_at self q p \<or> rotation_at peer q p \<or> rotation_at self q p"
    using deliver_sealed [OF assms(1)] sealed_cases [OF _ assms(2)] sealed_cases [OF _ assms(3)] by fast
  from inc have "sorted_wrt (<) (map fst ?E)" unfolding sorted_wrt_map by (rule sorted_wrt_filter)
  moreover have "\<forall>(q, p) \<in> set ?E. data_at peer q p" using at by auto
  ultimately have "subseq (map snd ?E) (sl_data peer)" by (rule data_at_subseq)
  with inc at show ?thesis by blast
qed

text \<open>A stream with a frame of the peer and a reflected frame of the receiver. Where a frame can begin in a
  sequence of frames that hold the type byte at their beginning only:\<close>

lemma data_wire_prefix:
  assumes "data_wire q n c t @ v = data_wire q' n' c' t' @ v'"
    and "length n = 12" "length n' = 12" "length t = 16" "length t' = 16" "length c + 16 < 2 ^ 32" "length c' + 16 < 2 ^ 32"
  shows "q = q' \<and> n = n' \<and> c = c' \<and> t = t' \<and> v = v'"
proof -
  from assms(1) have e: "u32_to_be (word_of_nat (length c + 16)) @ u64_to_be q @ n @ c @ t @ v =
      u32_to_be (word_of_nat (length c' + 16)) @ u64_to_be q' @ n' @ c' @ t' @ v'" by (simp add: data_wire_def frame_defs)
  then have l: "u32_to_be (word_of_nat (length c + 16)) = u32_to_be (word_of_nat (length c' + 16))" by simp
  then have "unat (word_of_nat (length c + 16) :: u32) = unat (word_of_nat (length c' + 16) :: u32)" by (metis u32_from_to_be)
  then have "length c + 16 = length c' + 16"
    by (simp only: unat_u32_of_nat [OF assms(6)] unat_u32_of_nat [OF assms(7)])
  with e l assms(2-5) show ?thesis by auto
qed

lemma frame_starts:
  assumes "u @ FRAME_DATA # x = concat ws" "\<forall>w \<in> set ws. w \<noteq> [] \<and> FRAME_DATA \<notin> set (tl w)"
  shows "\<exists>ws1 ws2. ws = ws1 @ ws2 \<and> FRAME_DATA # x = concat ws2"
  using assms
proof (induction ws arbitrary: u)
  case (Cons w ws)
  show ?case
  proof (cases "u = []")
    case False
    from Cons.prems(1) consider us where "u = w @ us" "us @ FRAME_DATA # x = concat ws"
      | us where "w = u @ us" "us \<noteq> []" "FRAME_DATA # x = us @ concat ws" by (auto simp: append_eq_append_conv2 Cons_eq_append_conv)
    then show ?thesis
    proof cases
      case 1
      from Cons.IH [OF 1(2)] Cons.prems(2) obtain ws1 ws2 where "ws = ws1 @ ws2" "FRAME_DATA # x = concat ws2" by auto
      then show ?thesis by (intro exI [of _ "w # ws1"] exI [of _ ws2]) simp
    next
      case 2
      with False have "FRAME_DATA \<in> set (tl w)" by (cases u; cases us) auto
      with Cons.prems(2) show ?thesis by simp
    qed
  qed (use Cons.prems in \<open>auto intro: exI [of _ "[]"]\<close>)
qed simp

definition demo_data_frame :: "u64 \<Rightarrow> byte \<Rightarrow> bytes" where
  "demo_data_frame q b = data_wire q (u64_to_be q @ u32_to_be 0) [b] (toy_tag demo_key (u64_to_be q))"

definition demo_peer :: seals where
  "demo_peer = \<lparr>sl_chan = channel_new demo_key 64, sl_data = [[5]], sl_rotations = []\<rparr>"

definition demo_self :: seals where
  "demo_self = \<lparr>sl_chan = channel_new demo_key 64, sl_data = [[6], [6], [6], [6], [6], [8]], sl_rotations = [(replicate 32 7, replicate 12 9)]\<rparr>"

lemma demo_data_frame_shape:
  "demo_data_frame 0 5 \<noteq> [] \<and> FRAME_DATA \<notin> set (tl (demo_data_frame 0 5))" "demo_data_frame 5 8 \<noteq> [] \<and> FRAME_DATA \<notin> set (tl (demo_data_frame 5 8))"
  by code_simp+

lemma demo_stream_unforged:
  "unforged toy_sym demo_key (sealed demo_peer \<union> sealed demo_self) (concat [demo_data_frame 0 5, demo_data_frame 5 8])"
  unfolding unforged_def
proof (intro allI impI)
  fix u v q n c t p
  let ?ws = "[demo_data_frame 0 5, demo_data_frame 5 8]"
  assume e: "concat ?ws = u @ data_wire q n c t @ v" and l: "length n = 12" "length t = 16" "length c + 16 < 2 ^ 32"
    and d: "gcm_decrypt toy_sym demo_key n (u64_to_be q) c t = Some p"
  from d have p: "p = c" by (simp add: toy_sym_def split: if_splits)
  from e have "u @ FRAME_DATA # (tl (data_wire q n c t) @ v) = concat ?ws" by (simp add: data_wire_def)
  from frame_starts [OF this] demo_data_frame_shape obtain ws1 ws2 where ws: "?ws = ws1 @ ws2" "data_wire q n c t @ v = concat ws2"
    by (fastforce simp: data_wire_def)
  then consider "data_wire q n c t @ v = demo_data_frame 0 5 @ demo_data_frame 5 8" | "data_wire q n c t @ v = demo_data_frame 5 8 @ []"
    by (cases ws1; cases "tl ws1") (auto simp: data_wire_def Cons_eq_append_conv)
  then show "(n, u64_to_be q, p) \<in> sealed demo_peer \<union> sealed demo_self"
  proof cases
    case 1
    from data_wire_prefix [OF 1 [unfolded demo_data_frame_def]] l have "q = 0" "c = [5]" "n = u64_to_be 0 @ u32_to_be 0" by (auto simp: toy_tag_def)
    then show ?thesis using p by (simp add: sealed_def demo_peer_def data_nonce_def channel_new_def)
  next
    case 2
    from data_wire_prefix [OF 2 [unfolded demo_data_frame_def]] l have "q = 5" "c = [8]" "n = u64_to_be 5 @ u32_to_be 0" by (auto simp: toy_tag_def)
    then show ?thesis using p by (simp add: sealed_def demo_self_def data_nonce_def channel_new_def)
  qed
qed

lemma demo_data_frame_only:
  assumes "demo_data_frame 0 5 = u @ data_wire q n c t @ v" "length n = 12" "length t = 16" "length c + 16 < 2 ^ 32"
  shows "q = 0 \<and> n = u64_to_be 0 @ u32_to_be 0 \<and> c = [5] \<and> t = toy_tag demo_key (u64_to_be 0)"
proof -
  from assms(1) have "u @ FRAME_DATA # (tl (data_wire q n c t) @ v) = concat [demo_data_frame 0 5]" by (simp add: data_wire_def)
  from frame_starts [OF this] demo_data_frame_shape(1) have "data_wire q n c t @ v = demo_data_frame 0 5 @ []"
    by (fastforce simp: data_wire_def Cons_eq_append_conv)
  from data_wire_prefix [OF this [unfolded demo_data_frame_def]] assms(2-4) show ?thesis by (auto simp: toy_tag_def)
qed

theorem delivered_payloads_sealed_witness:
  "aead_laws toy_sym \<and> deliver toy_sym (channel_new demo_key 64) (demo_data_frame 0 5 @ demo_data_frame 5 8) = [(0, [5]), (5, [8])] \<and>
   data_at demo_peer 0 [5] \<and> data_at demo_self 5 [8] \<and> subseq [[5]] (sl_data demo_peer)"
proof -
  let ?r = "channel_new demo_key 64"
  have rd: "read_frame toy_sym r (demo_data_frame q b @ rest) = (Ok (Data [b]), r\<lparr>recv_seq := q, recv_initialized := True\<rparr>, rest)"
    if "cipher r = demo_key" "max_frame_size r = 64" "recv_initialized r \<longrightarrow> recv_seq r < q" for r q b rest
    unfolding demo_data_frame_def by (subst read_data_wire) (use that in \<open>auto simp: toy_sym_def toy_tag_def not_le\<close>)
  have "deliver toy_sym ?r (demo_data_frame 0 5 @ demo_data_frame 5 8 @ []) = [(0, [5]), (5, [8])]"
    using rd [of ?r 0 5 "demo_data_frame 5 8 @ []"] rd [of "?r\<lparr>recv_seq := 0, recv_initialized := True\<rparr>" 5 8 "[]"]
    by (simp add: deliver.simps [of toy_sym] channel_new_def word_less_nat_alt read_frame_def [of _ _ "[]"] read_exact_def)
  then have D: "deliver toy_sym ?r (concat [demo_data_frame 0 5, demo_data_frame 5 8]) = [(0, [5]), (5, [8])]" by simp
  have u: "unforged toy_sym (cipher ?r) (sealed demo_peer \<union> sealed demo_self) (concat [demo_data_frame 0 5, demo_data_frame 5 8])"
    using demo_stream_unforged by (simp add: channel_new_def)
  have ok: "seals_ok demo_peer" "seals_ok demo_self" by (simp_all add: seals_ok_def demo_peer_def demo_self_def channel_new_def)
  have "[5] \<noteq> replicate 32 (7 :: byte)" by (auto dest: arg_cong [where f = length])
  then have "\<not> data_at demo_self 0 [5]" "data_at demo_self 5 [8]" "\<not> rotation_at demo_peer 0 [5]" "\<not> rotation_at demo_self 0 [5]"
    "data_at demo_peer 0 [5]"
    by (simp_all add: data_at_def rotation_at_def demo_self_def demo_peer_def channel_new_def)
  with delivered_payloads_sealed [OF u ok] D toy_sym_laws(1) show ?thesis by simp
qed

text \<open>Replay: once a data frame was accepted, no data frame whose sequence number is not
  larger is accepted, whatever else its bytes are. The reader answers \<open>Replay\<close> with both
  numbers and its state is unchanged.\<close>

theorem stale_data_frame_refused:
  assumes "read_frame S r stream = (Ok (Data p), r', rest)"
    and "seq \<le> recv_seq r'" and "length n = 12" and "length t = 16"
    and "length c \<le> max_frame_size r" and "length c + 16 < 2 ^ 32"
  shows "read_frame S r' (data_wire seq n c t @ tail) =
     (Err (Replay seq (recv_seq r')), r', n @ c @ t @ tail)"
proof -
  from read_frame_DataD [OF assms(1)] obtain k where "r' = r\<lparr>recv_seq := k, recv_initialized := True\<rparr>" .
  then have "recv_initialized r'" "max_frame_size r' = max_frame_size r" by simp_all
  with assms(2-) show ?thesis by (simp add: read_data_wire)
qed

theorem stale_data_frame_refused_witness:
  "read_frame toy_sym ((channel_new demo_key 64)\<lparr>recv_seq := 3, recv_initialized := True\<rparr>)
     (data_wire 3 (replicate 12 0) [8] (replicate 16 0) @ []) =
   (Err (Replay 3 3), (channel_new demo_key 64)\<lparr>recv_seq := 3, recv_initialized := True\<rparr>,
    replicate 12 0 @ [8] @ replicate 16 0 @ [])"
proof -
  let ?r = "channel_new demo_key 64"
  have a: "read_frame toy_sym ?r (data_wire 3 (replicate 12 0) [7] (toy_tag demo_key (u64_to_be 3)) @ []) =
     (Ok (Data [7]), ?r\<lparr>recv_seq := 3, recv_initialized := True\<rparr>, [])"
    by (subst read_data_wire) (simp_all add: channel_new_def toy_sym_def toy_tag_def)
  show ?thesis
    using stale_data_frame_refused [OF a, of 3 "replicate 12 0" "replicate 16 0" "[8]" "[]"]
    by (simp add: channel_new_def)
qed

section \<open>Nonces of one endpoint\<close>

text \<open>Everything an endpoint does to its channel: write a frame, announce a rotation, ratchet the
  key, read whatever bytes arrive. The first component of a step is the list of the nonces of the
  DATA frames it put on the wire (bytes 13 to 24 of the frame).\<close>

datatype endpoint_op = Emit bytes | Announce bytes bytes | Ratchet bytes | Take bytes

fun endpoint_step :: "sym_prims \<Rightarrow> channel \<Rightarrow> endpoint_op \<Rightarrow> (bytes list \<times> channel) option" where
  "endpoint_step S ch (Emit d) = (case write_frame S ch open_writer d of
      (Ok _, ch', w) \<Rightarrow> Some ([take 12 (drop 13 (w_sent w))], ch') | (Err _, _, _) \<Rightarrow> None)"
| "endpoint_step S ch (Announce g n) = (case send_key_rotate S ch open_writer g n of
      (Ok _, ch', _) \<Rightarrow> Some ([], ch') | (Err _, _, _) \<Rightarrow> None)"
| "endpoint_step S ch (Ratchet n) = map_option (Pair []) (rotate_key S ch n)"
| "endpoint_step S ch (Take b) = Some ([], fst (snd (read_frame S ch b)))"

primrec endpoint_run :: "sym_prims \<Rightarrow> channel \<Rightarrow> endpoint_op list \<Rightarrow> (bytes list \<times> channel) option" where
  "endpoint_run S ch [] = Some ([], ch)"
| "endpoint_run S ch (x # xs) = (case endpoint_step S ch x of None \<Rightarrow> None
    | Some (ns, ch') \<Rightarrow> map_option (\<lambda>(ms, ch''). (ns @ ms, ch'')) (endpoint_run S ch' xs))"

abbreviation clock :: "channel \<Rightarrow> nat \<times> nat" where
  "clock ch \<equiv> (unat (epoch ch), unat (send_seq ch))"

lemma read_frame_clock:
  "send_seq (fst (snd (read_frame S ch b))) = send_seq ch"
  "epoch (fst (snd (read_frame S ch b))) = epoch ch"
  by (auto simp: read_frame_def read_data_frame_def read_key_rotate_frame_def Let_def
      split: option.splits)

lemma wire_nonce: "length n = 12 \<Longrightarrow> take 12 (drop 13 (data_wire q n c t)) = n"
  by (simp add: data_wire_def)

lemma endpoint_step_cases:
  assumes "endpoint_step S ch x = Some (ns, ch')"
    and "unat (send_seq ch) + 1 < 2 ^ 64" "unat (epoch ch) + 1 < 2 ^ 32"
  shows "ns = [data_nonce ch] \<and> clock ch' = (unat (epoch ch), unat (send_seq ch) + 1) \<or>
     ns = [] \<and> (clock ch' = clock ch \<or> clock ch' = (unat (epoch ch) + 1, 0))"
proof (cases x)
  case (Emit d)
  then show ?thesis using assms u64_succ_greater [of "send_seq ch"]
    by (auto split: prod.splits sum.splits elim!: write_frame_OkE simp: wire_nonce)
next
  case (Announce g n)
  then show ?thesis using assms
    by (auto split: prod.splits sum.splits elim!: send_key_rotate_OkE)
next
  case (Ratchet n)
  then show ?thesis using assms
    by (auto simp: rotate_key_def unat_word_ariths split: option.splits)
next
  case (Take b)
  then show ?thesis using assms by (auto simp: read_frame_clock)
qed

lemma endpoint_run_nonces:
  assumes "endpoint_run S ch xs = Some (ns, ch')"
    and "unat (send_seq ch) + length xs < 2 ^ 64" "unat (epoch ch) + length xs < 2 ^ 32"
  shows "distinct ns \<and> (\<forall>n \<in> set ns. \<exists>e q. n = u64_to_be q @ u32_to_be e \<and> clock ch \<le> (unat e, unat q))"
  using assms
proof (induction xs arbitrary: ch ns)
  case Nil
  then show ?case by simp
next
  case (Cons x xs)
  from Cons.prems(1) obtain ns1 ch1 ns2 where st: "endpoint_step S ch x = Some (ns1, ch1)"
    and run: "endpoint_run S ch1 xs = Some (ns2, ch')" and ns: "ns = ns1 @ ns2"
    by (auto split: option.splits)
  have c: "ns1 = [data_nonce ch] \<and> clock ch1 = (unat (epoch ch), unat (send_seq ch) + 1) \<or>
     ns1 = [] \<and> (clock ch1 = clock ch \<or> clock ch1 = (unat (epoch ch) + 1, 0))"
    using endpoint_step_cases [OF st] Cons.prems(2,3) by simp
  then have "unat (send_seq ch1) + length xs < 2 ^ 64" "unat (epoch ch1) + length xs < 2 ^ 32"
    using Cons.prems(2,3) by auto
  note ih = Cons.IH [OF run this]
  from c have "clock ch \<le> clock ch1" by auto
  with ih have up: "\<forall>n \<in> set ns2. \<exists>e q. n = u64_to_be q @ u32_to_be e \<and> clock ch \<le> (unat e, unat q)"
    by (meson order_trans)
  show ?case
  proof (cases "ns1 = []")
    case True
    with ih up ns show ?thesis by simp
  next
    case False
    with c have n1: "ns1 = [data_nonce ch]" "clock ch < clock ch1" by auto
    have "data_nonce ch \<notin> set ns2"
    proof
      assume "data_nonce ch \<in> set ns2"
      with ih obtain e q where "data_nonce ch = u64_to_be q @ u32_to_be e" "clock ch1 \<le> (unat e, unat q)"
        by blast
      then have "clock ch1 \<le> clock ch" by (auto simp: data_nonce_def)
      with n1(2) show False by auto
    qed
    moreover have "\<exists>e q. data_nonce ch = u64_to_be q @ u32_to_be e \<and> clock ch \<le> (unat e, unat q)"
      by (rule exI [of _ "epoch ch"], rule exI [of _ "send_seq ch"]) (simp add: data_nonce_def)
    ultimately show ?thesis using ih up ns n1(1) by simp
  qed
qed

text \<open>C7. Nonce uniqueness of one endpoint: over any interleaving of writing frames, announcing
  rotations, ratcheting the key and reading arbitrary bytes, no two DATA frames the endpoint puts
  on the wire carry the same nonce, also across key epochs, as long as neither counter wraps.\<close>

theorem data_nonces_distinct:
  assumes "endpoint_run S ch ops = Some (nonces, ch')"
    and "unat (send_seq ch) + length ops < 2 ^ 64" and "unat (epoch ch) + length ops < 2 ^ 32"
  shows "distinct nonces"
  using endpoint_run_nonces [OF assms] by blast

theorem data_nonces_distinct_witness:
  "\<exists>a b c ch'. endpoint_run toy_sym (channel_new demo_key 64)
      [Emit [1], Emit [2], Take [7], Ratchet (replicate 32 3), Emit [1]] = Some ([a, b, c], ch') \<and>
    distinct [a, b, c]"
proof -
  let ?ops = "[Emit [1], Emit [2], Take [7], Ratchet (replicate 32 3), Emit [1]]"
  have "\<exists>a b c ch'. endpoint_run toy_sym (channel_new demo_key 64) ?ops = Some ([a, b, c], ch')"
    by (simp add: write_frame_def toy_sym_def Let_def io_simps rotate_key_def open_writer_def
        channel_new_def)
  then obtain a b c ch' where r: "endpoint_run toy_sym (channel_new demo_key 64) ?ops = Some ([a, b, c], ch')"
    by blast
  from data_nonces_distinct [OF r] have "distinct [a, b, c]" by (simp add: channel_new_def)
  with r show ?thesis by blast
qed

lemma emit_run_nonces:
  assumes "endpoint_run S ch (map Emit ds) = Some (ns, ch')"
  shows "cipher ch' = cipher ch \<and>
    ns = map (\<lambda>i. u64_to_be (send_seq ch + word_of_nat i) @ u32_to_be (epoch ch)) [0..<length ds]"
  using assms
proof (induction ds arbitrary: ch ns)
  case Nil
  then show ?case by simp
next
  case (Cons d ds)
  let ?ch = "ch\<lparr>send_seq := send_seq ch + 1\<rparr>"
  from Cons.prems obtain ms where run: "endpoint_run S ?ch (map Emit ds) = Some (ms, ch')"
    and ns: "ns = data_nonce ch # ms"
    by (auto split: option.splits prod.splits sum.splits elim!: write_frame_OkE simp: wire_nonce)
  from Cons.IH [OF run] ns show ?case
    by (simp add: data_nonce_def upt_conv_Cons map_Suc_upt [symmetric] algebra_simps del: upt_Suc)
qed

text \<open>C40. Nonces of the two directions coincide: the bridge and the client both start from the same
  session key with counter and epoch 0, so the \<open>i\<close>-th frame of one direction and the \<open>i\<close>-th frame
  of the other are sealed under the same key with the same nonce. Uniqueness holds per endpoint and
  not per key.\<close>

theorem nonces_shared_by_both_directions:
  assumes "endpoint_run S (channel_new k m) (map Emit ds) = Some (ns, bridge)"
    and "endpoint_run S (channel_new k m') (map Emit ds') = Some (ns', client)"
  shows "cipher bridge = k \<and> cipher client = k \<and> length ns = length ds \<and> length ns' = length ds' \<and>
    (\<forall>i. i < length ds \<and> i < length ds' \<longrightarrow> ns ! i = ns' ! i)"
  using emit_run_nonces [OF assms(1)] emit_run_nonces [OF assms(2)] by (auto simp: channel_new_def)

theorem nonces_shared_by_both_directions_witness:
  "\<exists>n n' b c. endpoint_run toy_sym (channel_new demo_key 64) (map Emit [[1]]) = Some ([n], b) \<and>
     endpoint_run toy_sym (channel_new demo_key 64) (map Emit [[2]]) = Some ([n'], c) \<and> n = n'"
proof -
  have "\<exists>n b. endpoint_run toy_sym (channel_new demo_key 64) (map Emit [[x]]) = Some ([n], b)" for x
    by (simp add: write_frame_def toy_sym_def Let_def io_simps open_writer_def
        channel_new_def)
  then obtain n b n' c where
    r: "endpoint_run toy_sym (channel_new demo_key 64) (map Emit [[1]]) = Some ([n], b)"
    and r': "endpoint_run toy_sym (channel_new demo_key 64) (map Emit [[2]]) = Some ([n'], c)" by meson
  from nonces_shared_by_both_directions [OF r r'] have "n = n'" by simp
  with r r' show ?thesis by blast
qed

text \<open>Well-formedness is an invariant: whatever an endpoint does and whatever bytes it reads, the
  cipher object and the ratchet key stay equal and 32 bytes long, and the frame size limit is
  never changed.\<close>

theorem endpoint_run_wf:
  assumes "hkdf_laws S" and "channel_wf ch" and "endpoint_run S ch ops = Some (nonces, ch')"
  shows "channel_wf ch' \<and> max_frame_size ch' = max_frame_size ch"
  using assms(2,3)
proof (induction ops arbitrary: ch nonces)
  case Nil
  then show ?case by simp
next
  case (Cons x xs)
  from Cons.prems(2) obtain ns1 ch1 ns2 where st: "endpoint_step S ch x = Some (ns1, ch1)"
    and run: "endpoint_run S ch1 xs = Some (ns2, ch')" by (auto split: option.splits)
  have "channel_wf ch1 \<and> max_frame_size ch1 = max_frame_size ch"
  proof (cases x)
    case (Ratchet n)
    from assms(1) obtain k where "length k = 32" "rotate_key S ch n =
      Some (ch\<lparr>cipher := k, key_bytes := k, send_seq := 0, recv_seq := 0,
        recv_initialized := False, epoch := epoch ch + 1\<rparr>)" by (rule rotate_key_total)
    with st Ratchet show ?thesis by (auto simp: channel_wf_def)
  next
    case (Take b)
    with st Cons.prems(1) show ?thesis
      by (cases "read_frame S ch b") (auto dest: read_frame_wf read_frame_max)
  qed (use st Cons.prems(1) in \<open>auto simp: channel_wf_def split: prod.splits sum.splits
      elim!: write_frame_OkE send_key_rotate_OkE\<close>)
  with Cons.IH [OF _ run] show ?case by simp
qed

theorem endpoint_run_wf_witness:
  "\<exists>ns ch'. endpoint_run toy_sym (channel_new demo_key 64) [Emit [1], Ratchet [2], Take [3]] = Some (ns, ch') \<and>
     channel_wf ch' \<and> max_frame_size ch' = 64"
proof -
  have "\<exists>ns ch'. endpoint_run toy_sym (channel_new demo_key 64) [Emit [1], Ratchet [2], Take [3]] = Some (ns, ch')"
    by (simp add: write_frame_def toy_sym_def Let_def io_simps rotate_key_def open_writer_def
        channel_new_def)
  then obtain ns ch' where r: "endpoint_run toy_sym (channel_new demo_key 64) [Emit [1], Ratchet [2], Take [3]] = Some (ns, ch')"
    by blast
  have "channel_wf (channel_new demo_key 64)" by (simp add: channel_wf_def channel_new_def demo_key_def)
  from endpoint_run_wf [OF toy_sym_laws(4) this r] r show ?thesis by (auto simp: channel_new_def)
qed

section \<open>Rotation frames, and what the frame format leaves open\<close>

text \<open>A KEY\_ROTATE frame: \<open>send_key_rotate\<close> puts 61 bytes on the wire (type, nonce, sealed
  rotation nonce, tag), a peer in step reads the rotation nonce back, and after both sides ratchet
  with it they hold the same 32-byte key with all frame counters at 0 in the next epoch.\<close>

theorem key_rotate_round_trip:
  assumes "aead_laws S" and "hkdf_laws S" and "in_step s r"
    and "send_key_rotate S s w g n = (Ok (), s1, w')" and "length g = 12" and "length n = 32"
  shows "\<exists>frame r1 s2 r2. w_sent w' = w_sent w @ frame \<and> length frame = KEY_ROTATE_FRAME_LEN \<and>
     read_frame S r (frame @ rest) = (Ok (KeyRotate n), r1, rest) \<and>
     rotate_key S s1 n = Some s2 \<and> rotate_key S r1 n = Some r2 \<and> in_step s2 r2 \<and>
     send_seq s2 = 0 \<and> send_seq r2 = 0 \<and> epoch s2 = epoch s + 1 \<and> epoch r2 = epoch r + 1"
proof -
  from send_key_rotate_OkE [OF assms(4)] obtain c t where
    e: "gcm_encrypt S (cipher s) g (u64_to_be (key_rotate_send_seq s)) n = Some (c, t)"
    and s1: "s1 = s\<lparr>key_rotate_send_seq := key_rotate_send_seq s + 1\<rparr>"
    and w: "w_sent w' = w_sent w @ rotate_wire g c t" .
  note ct = aead_lawsD [OF assms(1) e]
  let ?r1 = "r\<lparr>key_rotate_recv_seq := key_rotate_recv_seq r + 1\<rparr>"
  have k: "key_bytes r = key_bytes s" "cipher r = cipher s"
    "key_rotate_recv_seq r = key_rotate_send_seq s" using assms(3) by (auto simp: in_step_def)
  have rd: "read_frame S r (rotate_wire g c t @ rest) = (Ok (KeyRotate n), ?r1, rest)"
    using ct k assms(5,6) by (simp add: read_rotate_wire)
  from assms(2) obtain nk where nk: "hkdf_sha256 S n (key_bytes s) ROTATION_HKDF_INFO 32 = Some nk"
    "length nk = 32" by (rule rotate_key_total)
  have len: "length (rotate_wire g c t) = KEY_ROTATE_FRAME_LEN"
    using ct assms(5,6) by (simp add: length_rotate_wire layout_defs)
  show ?thesis
    by (rule exI [of _ "rotate_wire g c t"], rule exI [of _ ?r1])
      (use w len rd nk k s1 in \<open>auto simp: rotate_key_def in_step_def channel_wf_def\<close>)
qed

theorem key_rotate_round_trip_witness:
  "\<exists>frame r1 s2 r2. length frame = 61 \<and>
     read_frame toy_sym (channel_new demo_key 64) (frame @ []) = (Ok (KeyRotate (replicate 32 5)), r1, []) \<and>
     rotate_key toy_sym r1 (replicate 32 5) = Some r2 \<and> in_step s2 r2 \<and> epoch r2 = 1"
proof -
  let ?c = "channel_new demo_key 64"
  have st: "in_step ?c ?c" by (rule new_channels_in_step) (simp add: demo_key_def)
  obtain s1 w' where sk: "send_key_rotate toy_sym ?c open_writer (replicate 12 1) (replicate 32 5) = (Ok (), s1, w')"
    by (simp add: send_key_rotate_def toy_sym_def Let_def io_simps open_writer_def)
  have "epoch ?c + 1 = 1" by (simp add: channel_new_def)
  with key_rotate_round_trip [OF toy_sym_laws(1,4) st sk, of "[]"] show ?thesis
    by (simp add: layout_defs) metis
qed

text \<open>A KEY\_ROTATE frame is accepted at most once: the counter that is its associated data has
  moved on, so the same bytes are refused even under an unchanged key, and the state is unchanged.\<close>

theorem key_rotate_replay_refused:
  assumes "aead_binds_aad S" and "read_frame S r (frame @ rest) = (Ok (KeyRotate n), r', rest)"
  shows "read_frame S r' (frame @ tail) = (Err AeadFailure, r', tail)"
proof -
  from read_frame_KeyRotateD [OF assms(2)] obtain g c t where
    f: "frame = rotate_wire g c t" and l: "length g = 12" "length c = 32" "length t = 16"
    and d: "gcm_decrypt S (cipher r) g (u64_to_be (key_rotate_recv_seq r)) c t = Some n"
    and r': "r' = r\<lparr>key_rotate_recv_seq := key_rotate_recv_seq r + 1\<rparr>" by (metis append_same_eq)
  have "gcm_decrypt S (cipher r) g (u64_to_be (key_rotate_recv_seq r + 1)) c t = None"
  proof (rule ccontr)
    assume "gcm_decrypt S (cipher r) g (u64_to_be (key_rotate_recv_seq r + 1)) c t \<noteq> None"
    then have "u64_to_be (key_rotate_recv_seq r) = u64_to_be (key_rotate_recv_seq r + 1)"
      using assms(1) d unfolding aead_binds_aad_def by blast
    then show False by simp
  qed
  then show ?thesis unfolding f r' using l by (simp add: read_rotate_wire)
qed

theorem key_rotate_replay_refused_witness:
  "read_frame toy_sym ((channel_new demo_key 64)\<lparr>key_rotate_recv_seq := 1\<rparr>)
     (rotate_wire (replicate 12 1) (replicate 32 5) (toy_tag demo_key (u64_to_be 0)) @ [3]) =
   (Err AeadFailure, (channel_new demo_key 64)\<lparr>key_rotate_recv_seq := 1\<rparr>, [3])"
proof -
  let ?r = "channel_new demo_key 64"
  have "read_frame toy_sym ?r (rotate_wire (replicate 12 1) (replicate 32 5) (toy_tag demo_key (u64_to_be 0)) @ []) =
     (Ok (KeyRotate (replicate 32 5)), ?r\<lparr>key_rotate_recv_seq := 1\<rparr>, [])"
    by (subst read_rotate_wire) (simp_all add: channel_new_def toy_sym_def toy_tag_def)
  from key_rotate_replay_refused [OF toy_sym_laws(3) this] show ?thesis .
qed

text \<open>Reflection: a frame carries nothing that says which endpoint wrote it. A frame that comes
  back to the endpoint that wrote it is accepted there as data of the peer.\<close>

theorem reflected_frame_accepted:
  assumes "aead_laws S" and "write_frame S s w d = (Ok (), s', w')"
    and "recv_initialized s \<longrightarrow> recv_seq s < send_seq s"
    and "length d \<le> max_frame_size s" and "length d + 16 < 2 ^ 32"
  shows "\<exists>frame. w_sent w' = w_sent w @ frame \<and>
     read_frame S s' (frame @ rest) =
       (Ok (Data d), s'\<lparr>recv_seq := send_seq s, recv_initialized := True\<rparr>, rest)"
proof -
  from write_frame_OkE [OF assms(2)] have s': "s' = s\<lparr>send_seq := send_seq s + 1\<rparr>" .
  have "\<exists>frame. w_sent w' = w_sent w @ frame \<and> length frame = 41 + length d \<and>
     read_frame S s' (frame @ rest) =
       (Ok (Data d), s'\<lparr>recv_seq := send_seq s, recv_initialized := True\<rparr>, rest)"
    by (rule write_frame_reads_back [OF assms(1,2)]) (use s' assms in simp_all)
  then show ?thesis by blast
qed

theorem reflected_frame_accepted_witness:
  "\<exists>frame s'. read_frame toy_sym s' (frame @ []) =
     (Ok (Data [5]), s'\<lparr>recv_seq := 0, recv_initialized := True\<rparr>, []) \<and>
     write_frame toy_sym (channel_new demo_key 64) open_writer [5] =
       (Ok (), s', open_writer\<lparr>w_sent := frame\<rparr>)"
proof -
  let ?c = "channel_new demo_key 64"
  obtain s' w' where wf: "write_frame toy_sym ?c open_writer [5] = (Ok (), s', w')"
    and w': "w' = open_writer\<lparr>w_sent := w_sent w'\<rparr>"
    by (simp add: write_frame_def toy_sym_def Let_def io_simps open_writer_def)
  from reflected_frame_accepted [OF toy_sym_laws(1) wf, of "[]"] obtain frame where
    "w_sent w' = frame" "read_frame toy_sym s' (frame @ []) =
     (Ok (Data [5]), s'\<lparr>recv_seq := 0, recv_initialized := True\<rparr>, [])"
    by (auto simp: channel_new_def)
  with wf w' show ?thesis by metis
qed

text \<open>The frame type is not authenticated and the two kinds of frames use the same associated
  data: the nonce, ciphertext and tag of a KEY\_ROTATE frame, sent again behind a DATA header whose
  sequence number is the rotation counter, are delivered as a payload: the rotation nonce.\<close>

theorem rotate_frame_opens_as_data:
  assumes "aead_laws S" and "send_key_rotate S s w g n = (Ok (), s', w')"
    and "length g = 12" and "length n = 32" and "cipher r = cipher s" and "32 \<le> max_frame_size r"
    and "recv_initialized r \<longrightarrow> recv_seq r < key_rotate_send_seq s"
  shows "\<exists>c t. w_sent w' = w_sent w @ rotate_wire g c t \<and>
     fst (read_frame S r (data_wire (key_rotate_send_seq s) g c t @ rest)) = Ok (Data n)"
proof -
  from send_key_rotate_OkE [OF assms(2)] obtain c t where
    e: "gcm_encrypt S (cipher s) g (u64_to_be (key_rotate_send_seq s)) n = Some (c, t)"
    and w: "w_sent w' = w_sent w @ rotate_wire g c t" .
  note ct = aead_lawsD [OF assms(1) e]
  with assms have "fst (read_frame S r (data_wire (key_rotate_send_seq s) g c t @ rest)) = Ok (Data n)"
    by (auto simp: read_data_wire not_le)
  with w show ?thesis by blast
qed

theorem rotate_frame_opens_as_data_witness:
  "\<exists>c t. fst (read_frame toy_sym (channel_new demo_key 64) (data_wire 0 (replicate 12 1) c t @ [])) =
     Ok (Data (replicate 32 5))"
proof -
  let ?c = "channel_new demo_key 64"
  obtain s1 w' where sk: "send_key_rotate toy_sym ?c open_writer (replicate 12 1) (replicate 32 5) = (Ok (), s1, w')"
    by (simp add: send_key_rotate_def toy_sym_def Let_def io_simps open_writer_def)
  show ?thesis
    using rotate_frame_opens_as_data [OF toy_sym_laws(1) sk, of ?c "[]"] by (auto simp: channel_new_def)
qed

end
