(* ===== verification/Signing.thy ===== *)
theory Signing
  imports Crypto_Prims
begin

text \<open>
  ML-DSA-65 signatures of \<open>latticeshield-crypto/src/signing.rs\<close>: the opaque key and
  signature types with their length-checked constructors, key generation, signing and
  verification under the domain separator \<open>SIGNING_CONTEXT\<close>. Locking the key's pages in
  memory and wiping it have no effect on the values; they are in \<open>Secrets\<close>.
\<close>

definition SIGNING_KEY_LEN :: nat where [layout_defs]: "SIGNING_KEY_LEN = 4032"
definition VERIFYING_KEY_LEN :: nat where [layout_defs]: "VERIFYING_KEY_LEN = 1952"
definition SIGNATURE_LEN :: nat where [layout_defs]: "SIGNATURE_LEN = 3309"

definition SIGNING_CONTEXT :: bytes where
  "SIGNING_CONTEXT = ascii ''latticeshield-v1''"

datatype signing_error = SigningFailed | VerificationFailed | InvalidLength

datatype signing_key = SigningKey (sk_to_bytes: bytes)
datatype verifying_key = VerifyingKey (vk_to_bytes: bytes)
datatype signature = Signature (sig_to_bytes: bytes)

text \<open>\<open>SigningKey::from_bytes\<close>, \<open>VerifyingKey::from_bytes\<close>, \<open>Signature::from_bytes\<close>.\<close>

definition sk_from_bytes :: "bytes \<Rightarrow> signing_error + signing_key" where
  "sk_from_bytes b = (if length b = SIGNING_KEY_LEN then Ok (SigningKey b) else Err InvalidLength)"

definition vk_from_bytes :: "bytes \<Rightarrow> signing_error + verifying_key" where
  "vk_from_bytes b = (if length b = VERIFYING_KEY_LEN then Ok (VerifyingKey b) else Err InvalidLength)"

definition sig_from_bytes :: "bytes \<Rightarrow> signing_error + signature" where
  "sig_from_bytes b = (if length b = SIGNATURE_LEN then Ok (Signature b) else Err InvalidLength)"

text \<open>\<open>generate_keypair\<close>: 32 random bytes seed the key generation.\<close>

definition generate_keypair ::
  "sig_prims \<Rightarrow> ('r, 'x, 'dk, 'ek) kex_prims \<Rightarrow> 'r \<Rightarrow> (signing_key \<times> verifying_key) \<times> 'r" where
  "generate_keypair G K r =
    (let (seed, r') = fill_bytes K 32 r;
         (sk, vk) = mldsa_keygen G seed
     in ((SigningKey sk, VerifyingKey vk), r'))"

text \<open>\<open>sign\<close>: hedged signing with 32 fresh random bytes.\<close>

definition sign ::
  "sig_prims \<Rightarrow> ('r, 'x, 'dk, 'ek) kex_prims \<Rightarrow> signing_key \<Rightarrow> bytes \<Rightarrow> 'r \<Rightarrow>
   (signing_error + signature) \<times> 'r" where
  "sign G K key msg r =
    (let (randomness, r') = fill_bytes K 32 r
     in (case mldsa_sign G (sk_to_bytes key) msg SIGNING_CONTEXT randomness of
           None \<Rightarrow> Err SigningFailed
         | Some s \<Rightarrow> Ok (Signature s), r'))"

definition verify :: "sig_prims \<Rightarrow> verifying_key \<Rightarrow> bytes \<Rightarrow> signature \<Rightarrow> signing_error + unit" where
  "verify G key msg s =
    (if mldsa_verify G (vk_to_bytes key) msg SIGNING_CONTEXT (sig_to_bytes s)
     then Ok () else Err VerificationFailed)"

section \<open>Properties\<close>

lemma from_bytes_to_bytes:
  "sk_from_bytes b = Ok k \<Longrightarrow> sk_to_bytes k = b" "vk_from_bytes b = Ok v \<Longrightarrow> vk_to_bytes v = b"
  "sig_from_bytes b = Ok s \<Longrightarrow> sig_to_bytes s = b"
  by (auto simp: sk_from_bytes_def vk_from_bytes_def sig_from_bytes_def split: if_splits)

lemma generate_keypairE:
  assumes "generate_keypair G K r = ((sk, vk), r')"
  obtains "mldsa_keygen G (fst (fill_bytes K 32 r)) = (sk_to_bytes sk, vk_to_bytes vk)"
proof -
  obtain seed r1 where f: "fill_bytes K 32 r = (seed, r1)" by fastforce
  obtain a b where k: "mldsa_keygen G seed = (a, b)" by fastforce
  from assms f k have "sk = SigningKey a" "vk = VerifyingKey b" by (auto simp: generate_keypair_def)
  with that f k show ?thesis by simp
qed

lemma sign_OkE:
  assumes "sign G K sk m r = (Ok s, r')"
  obtains x where "mldsa_sign G (sk_to_bytes sk) m SIGNING_CONTEXT x = Some (sig_to_bytes s)"
proof -
  obtain x r1 where f: "fill_bytes K 32 r = (x, r1)" by fastforce
  from assms f obtain b where "mldsa_sign G (sk_to_bytes sk) m SIGNING_CONTEXT x = Some b" "s = Signature b"
    by (cases "mldsa_sign G (sk_to_bytes sk) m SIGNING_CONTEXT x") (auto simp: sign_def)
  with that show ?thesis by simp
qed

lemma generate_keypair_sizes:
  assumes "sig_laws G" "kex_laws K" "generate_keypair G K r = ((sk, vk), r')"
  shows "sk_from_bytes (sk_to_bytes sk) = Ok sk" "vk_from_bytes (vk_to_bytes vk) = Ok vk"
proof -
  from assms(3) have "mldsa_keygen G (fst (fill_bytes K 32 r)) = (sk_to_bytes sk, vk_to_bytes vk)"
    by (rule generate_keypairE)
  from sig_lawsD(1) [OF assms(1) kex_lawsD(1) [OF assms(2)] this]
  have "length (sk_to_bytes sk) = 4032" "length (vk_to_bytes vk) = 1952" by simp_all
  then show "sk_from_bytes (sk_to_bytes sk) = Ok sk" "vk_from_bytes (vk_to_bytes vk) = Ok vk"
    by (simp_all add: sk_from_bytes_def vk_from_bytes_def layout_defs)
qed

lemma sign_length:
  assumes "sig_laws G" "sign G K sk m r = (Ok s, r')"
  shows "length (sig_to_bytes s) = SIGNATURE_LEN"
  using assms(2) by (rule sign_OkE) (simp add: sig_lawsD(2) [OF assms(1)] SIGNATURE_LEN_def)

lemma sign_verify:
  assumes "sig_laws G" "generate_keypair G K r = ((sk, vk), r1)" "sign G K sk m r2 = (Ok s, r3)"
  shows "verify G vk m s = Ok ()"
proof -
  from assms(2) have k: "mldsa_keygen G (fst (fill_bytes K 32 r)) = (sk_to_bytes sk, vk_to_bytes vk)"
    by (rule generate_keypairE)
  from assms(3) obtain x where "mldsa_sign G (sk_to_bytes sk) m SIGNING_CONTEXT x = Some (sig_to_bytes s)"
    by (rule sign_OkE)
  from sig_lawsD(3) [OF assms(1) k this] show ?thesis by (simp add: verify_def)
qed

lemma verify_cases: "verify G vk m s = Ok () \<or> verify G vk m s = Err VerificationFailed"
  by (simp add: verify_def)

lemma verify_binds:
  "sig_binds G \<Longrightarrow> verify G vk m s = Ok () \<Longrightarrow> verify G vk m' s = Ok () \<Longrightarrow> m = m'"
  unfolding verify_def sig_binds_def by (metis Inl_Inr_False)

end
