(* ===== verification/Handshake.thy ===== *)
theory Handshake
  imports Signing
begin

text \<open>
  The hybrid handshake of \<open>latticeshield-crypto/src/handshake.rs\<close>: X25519 and ML-KEM-768
  combined by HKDF-SHA256, the signed ServerHello (server authentication) and the signed
  ClientResponse (client authentication). Fixed-size arrays are byte lists; slices are
  \<open>take\<close> and \<open>drop\<close> at the offsets of the source.
\<close>

section \<open>Data\<close>

definition HKDF_INFO :: bytes where
  "HKDF_INFO = ascii ''latticeshield-v1-session-key''"

definition SESSION_KEY_LEN :: nat where [layout_defs]: "SESSION_KEY_LEN = 32"
definition X25519_KEY_LEN :: nat where [layout_defs]: "X25519_KEY_LEN = 32"
definition MLKEM768_EK_LEN :: nat where [layout_defs]: "MLKEM768_EK_LEN = 1184"
definition MLKEM768_CT_LEN :: nat where [layout_defs]: "MLKEM768_CT_LEN = 1088"
definition HELLO_NONCE_LEN :: nat where [layout_defs]: "HELLO_NONCE_LEN = 32"

definition SERVER_HELLO_LEN :: nat where
  [layout_defs]: "SERVER_HELLO_LEN = X25519_KEY_LEN + MLKEM768_EK_LEN + HELLO_NONCE_LEN"
definition SERVER_HELLO_SIGNED_LEN :: nat where
  [layout_defs]: "SERVER_HELLO_SIGNED_LEN = SERVER_HELLO_LEN + SIGNATURE_LEN"
definition CLIENT_RESPONSE_LEN :: nat where
  [layout_defs]: "CLIENT_RESPONSE_LEN = X25519_KEY_LEN + MLKEM768_CT_LEN"
definition CLIENT_RESPONSE_SIGNED_LEN :: nat where
  [layout_defs]: "CLIENT_RESPONSE_SIGNED_LEN = CLIENT_RESPONSE_LEN + SIGNATURE_LEN"

datatype handshake_error =
    EncapsulateFailed | DecapsulateFailed | HkdfFailed | AuthenticationFailed | ClientAuthFailed

datatype session_key = SessionKey (key_as_bytes: bytes)

record 'ek client_hello =
  hello_x25519_public :: bytes
  hello_kem_encap_key :: 'ek
  hello_nonce :: bytes

record client_response =
  resp_x25519_public :: bytes
  resp_kem_ciphertext :: bytes

record ('x, 'dk, 'ek) server_handshake =
  x25519_secret :: 'x
  kem_decap_key :: 'dk
  kem_encap_key :: 'ek
  sh_nonce :: bytes
  server_hello_raw :: bytes

section \<open>Operations\<close>

text \<open>\<open>derive_session_key\<close>.\<close>

definition derive_session_key ::
  "sym_prims \<Rightarrow> bytes \<Rightarrow> bytes \<Rightarrow> bytes \<Rightarrow> handshake_error + session_key" where
  "derive_session_key S x25519_sec kem_sec n =
    (let ikm = x25519_sec @ kem_sec
     in case hkdf_sha256 S n ikm HKDF_INFO SESSION_KEY_LEN of
          None \<Rightarrow> Err HkdfFailed
        | Some okm \<Rightarrow> Ok (SessionKey okm))"

text \<open>\<open>ServerHandshake::new\<close>: draws the ephemeral keys and the nonce, in this order, and
  serialises the ServerHello at once.\<close>

definition server_handshake_new ::
  "('r, 'x, 'dk, 'ek) kex_prims \<Rightarrow> 'r \<Rightarrow> ('x, 'dk, 'ek) server_handshake \<times> 'r" where
  "server_handshake_new K r =
    (let (x, r1) = x25519_random K r;
         ((dk, ek), r2) = kem_generate K r1;
         (n, r3) = fill_bytes K 32 r2
     in (\<lparr>x25519_secret = x, kem_decap_key = dk, kem_encap_key = ek, sh_nonce = n,
          server_hello_raw = x25519_public K x @ ek_as_bytes K ek @ n\<rparr>, r3))"

text \<open>\<open>ServerHandshake::client_hello\<close>, \<open>server_hello_bytes\<close>, \<open>server_hello_signed_bytes\<close>.\<close>

definition server_client_hello ::
  "('r, 'x, 'dk, 'ek) kex_prims \<Rightarrow> ('x, 'dk, 'ek) server_handshake \<Rightarrow> 'ek client_hello" where
  "server_client_hello K hs = \<lparr>hello_x25519_public = x25519_public K (x25519_secret hs),
     hello_kem_encap_key = kem_encap_key hs, hello_nonce = sh_nonce hs\<rparr>"

definition server_hello_bytes :: "('x, 'dk, 'ek) server_handshake \<Rightarrow> bytes" where
  "server_hello_bytes hs = server_hello_raw hs"

definition server_hello_signed_bytes ::
  "sig_prims \<Rightarrow> ('r, 'x, 'dk, 'ek) kex_prims \<Rightarrow> ('x, 'dk, 'ek) server_handshake \<Rightarrow> signing_key \<Rightarrow> 'r \<Rightarrow>
   (handshake_error + bytes) \<times> 'r" where
  "server_hello_signed_bytes G K hs key r =
    (let hello = server_hello_bytes hs
     in case sign G K key hello r of
          (Err _, r') \<Rightarrow> (Err AuthenticationFailed, r')
        | (Ok s, r') \<Rightarrow> (Ok (hello @ sig_to_bytes s), r'))"

text \<open>\<open>ServerHandshake::complete\<close>, \<open>complete_from_wire\<close>, \<open>complete_from_wire_signed\<close>.\<close>

definition complete ::
  "sym_prims \<Rightarrow> ('r, 'x, 'dk, 'ek) kex_prims \<Rightarrow> ('x, 'dk, 'ek) server_handshake \<Rightarrow> client_response \<Rightarrow>
   handshake_error + session_key" where
  "complete S K hs response =
    (let x25519_shared = x25519_dh K (x25519_secret hs) (resp_x25519_public response)
     in case kem_decapsulate K (kem_decap_key hs) (resp_kem_ciphertext response) of
          None \<Rightarrow> Err DecapsulateFailed
        | Some kem_shared \<Rightarrow> derive_session_key S x25519_shared kem_shared (sh_nonce hs))"

definition complete_from_wire ::
  "sym_prims \<Rightarrow> ('r, 'x, 'dk, 'ek) kex_prims \<Rightarrow> ('x, 'dk, 'ek) server_handshake \<Rightarrow> bytes \<Rightarrow>
   handshake_error + session_key" where
  "complete_from_wire S K hs b =
    (let x25519_pub = take X25519_KEY_LEN b;
         ct_bytes = drop X25519_KEY_LEN b
     in if length ct_bytes \<noteq> MLKEM768_CT_LEN then Err DecapsulateFailed
        else complete S K hs \<lparr>resp_x25519_public = x25519_pub, resp_kem_ciphertext = ct_bytes\<rparr>)"

definition complete_from_wire_signed ::
  "sym_prims \<Rightarrow> sig_prims \<Rightarrow> ('r, 'x, 'dk, 'ek) kex_prims \<Rightarrow> ('x, 'dk, 'ek) server_handshake \<Rightarrow> bytes \<Rightarrow>
   verifying_key \<Rightarrow> handshake_error + session_key" where
  "complete_from_wire_signed S G K hs b client_vk =
    (let cr_bytes = take CLIENT_RESPONSE_LEN b;
         sig_bytes = drop CLIENT_RESPONSE_LEN b;
         message = cr_bytes @ server_hello_raw hs
     in case sig_from_bytes sig_bytes of
          Err _ \<Rightarrow> Err ClientAuthFailed
        | Ok s \<Rightarrow> (case verify G client_vk message s of
            Err _ \<Rightarrow> Err ClientAuthFailed
          | Ok _ \<Rightarrow> complete_from_wire S K hs cr_bytes))"

text \<open>\<open>parse_server_hello\<close> and \<open>parse_server_hello_signed\<close>.\<close>

definition parse_server_hello :: "('r, 'x, 'dk, 'ek) kex_prims \<Rightarrow> bytes \<Rightarrow> 'ek client_hello" where
  "parse_server_hello K b = \<lparr>hello_x25519_public = take X25519_KEY_LEN b,
     hello_kem_encap_key = ek_from_bytes K (take MLKEM768_EK_LEN (drop X25519_KEY_LEN b)),
     hello_nonce = drop (X25519_KEY_LEN + MLKEM768_EK_LEN) b\<rparr>"

definition parse_server_hello_signed ::
  "sig_prims \<Rightarrow> ('r, 'x, 'dk, 'ek) kex_prims \<Rightarrow> bytes \<Rightarrow> verifying_key \<Rightarrow> handshake_error + 'ek client_hello" where
  "parse_server_hello_signed G K b vk =
    (let hello_bytes = take SERVER_HELLO_LEN b
     in case sig_from_bytes (drop SERVER_HELLO_LEN b) of
          Err _ \<Rightarrow> Err AuthenticationFailed
        | Ok s \<Rightarrow> (case verify G vk hello_bytes s of
            Err _ \<Rightarrow> Err AuthenticationFailed
          | Ok _ \<Rightarrow> Ok (parse_server_hello K hello_bytes)))"

text \<open>\<open>serialize_client_response\<close> and \<open>serialize_client_response_signed\<close>.\<close>

definition serialize_client_response :: "client_response \<Rightarrow> bytes" where
  "serialize_client_response response = resp_x25519_public response @ resp_kem_ciphertext response"

definition serialize_client_response_signed ::
  "sig_prims \<Rightarrow> ('r, 'x, 'dk, 'ek) kex_prims \<Rightarrow> client_response \<Rightarrow> signing_key \<Rightarrow> bytes \<Rightarrow> 'r \<Rightarrow>
   (handshake_error + bytes) \<times> 'r" where
  "serialize_client_response_signed G K resp sk server_hello r =
    (let cr_bytes = serialize_client_response resp;
         message = cr_bytes @ server_hello
     in case sign G K sk message r of
          (Err _, r') \<Rightarrow> (Err ClientAuthFailed, r')
        | (Ok s, r') \<Rightarrow> (Ok (cr_bytes @ sig_to_bytes s), r'))"

text \<open>\<open>client_respond\<close>.\<close>

definition client_respond ::
  "sym_prims \<Rightarrow> ('r, 'x, 'dk, 'ek) kex_prims \<Rightarrow> 'ek client_hello \<Rightarrow> 'r \<Rightarrow>
   (handshake_error + client_response \<times> session_key) \<times> 'r" where
  "client_respond S K hello r =
    (let (secret, r1) = x25519_random K r;
         public = x25519_public K secret;
         x25519_shared = x25519_dh K secret (hello_x25519_public hello)
     in case kem_encapsulate K (hello_kem_encap_key hello) r1 of
          (None, r2) \<Rightarrow> (Err EncapsulateFailed, r2)
        | (Some (ct, kem_shared), r2) \<Rightarrow>
            (case derive_session_key S x25519_shared kem_shared (hello_nonce hello) of
               Err e \<Rightarrow> (Err e, r2)
             | Ok key \<Rightarrow>
                 (Ok (\<lparr>resp_x25519_public = public, resp_kem_ciphertext = ct\<rparr>, key), r2)))"

section \<open>The server's state\<close>

text \<open>What \<open>ServerHandshake::new\<close> establishes and no operation changes.\<close>

definition handshake_wf :: "('r, 'x, 'dk, 'ek) kex_prims \<Rightarrow> ('x, 'dk, 'ek) server_handshake \<Rightarrow> bool" where
  "handshake_wf K hs \<longleftrightarrow>
     (\<exists>r r'. kem_generate K r = ((kem_decap_key hs, kem_encap_key hs), r')) \<and> length (sh_nonce hs) = 32 \<and>
     server_hello_raw hs = x25519_public K (x25519_secret hs) @ ek_as_bytes K (kem_encap_key hs) @ sh_nonce hs"

lemma server_handshake_new_wf:
  assumes "kex_laws K" "server_handshake_new K r = (hs, r')"
  shows "handshake_wf K hs"
proof -
  obtain x r1 where x: "x25519_random K r = (x, r1)" by fastforce
  obtain dk ek r2 where k: "kem_generate K r1 = ((dk, ek), r2)" by (metis prod.exhaust)
  obtain n r3 where n: "fill_bytes K 32 r2 = (n, r3)" by fastforce
  from n kex_lawsD(1) [OF assms(1), of 32 r2] have "length n = 32" by simp
  with assms(2) x k n show ?thesis by (fastforce simp: server_handshake_new_def handshake_wf_def)
qed

lemma parse_server_hello_bytes:
  assumes "kex_laws K" "handshake_wf K hs"
  shows "parse_server_hello K (server_hello_bytes hs) = server_client_hello K hs"
    and "length (server_hello_bytes hs) = SERVER_HELLO_LEN"
proof -
  from assms(2) obtain r r' where g: "kem_generate K r = ((kem_decap_key hs, kem_encap_key hs), r')"
    and n: "length (sh_nonce hs) = 32"
    and raw: "server_hello_raw hs = x25519_public K (x25519_secret hs) @ ek_as_bytes K (kem_encap_key hs) @ sh_nonce hs"
    by (auto simp: handshake_wf_def)
  note l = kex_lawsD(2) [OF assms(1), of "x25519_secret hs"] kex_lawsD(4,5) [OF assms(1) g]
  show "parse_server_hello K (server_hello_bytes hs) = server_client_hello K hs"
    using l n raw by (simp add: parse_server_hello_def server_client_hello_def server_hello_bytes_def layout_defs)
  show "length (server_hello_bytes hs) = SERVER_HELLO_LEN"
    using l n raw by (simp add: server_hello_bytes_def layout_defs)
qed

lemma derive_session_key_ok:
  assumes "hkdf_laws S"
  obtains key where "derive_session_key S a b n = Ok key" "length (key_as_bytes key) = 32"
proof -
  have "(32 :: nat) \<le> 255 * 32" by simp
  with assms obtain okm where "hkdf_sha256 S n (a @ b) HKDF_INFO 32 = Some okm" "length okm = 32"
    unfolding hkdf_laws_def by blast
  with that [of "SessionKey okm"] show ?thesis by (simp add: derive_session_key_def layout_defs)
qed

lemma client_respond_OkE:
  assumes "client_respond S K hello r = (Ok (resp, key), r')"
  obtains x q ct ss where "resp = \<lparr>resp_x25519_public = x25519_public K x, resp_kem_ciphertext = ct\<rparr>"
    "kem_encapsulate K (hello_kem_encap_key hello) q = (Some (ct, ss), r')"
    "derive_session_key S (x25519_dh K x (hello_x25519_public hello)) ss (hello_nonce hello) = Ok key"
  using assms by (auto simp: client_respond_def Let_def split: prod.splits option.splits sum.splits)

text \<open>The two sides derive the same key.\<close>

lemma complete_agrees:
  assumes "kex_laws K" "handshake_wf K hs"
    and "client_respond S K (server_client_hello K hs) r = (Ok (resp, key), r')"
  shows "complete_from_wire S K hs (serialize_client_response resp) = Ok key"
    and "length (serialize_client_response resp) = CLIENT_RESPONSE_LEN"
proof -
  from assms(3) obtain x q ct ss where
    resp: "resp = \<lparr>resp_x25519_public = x25519_public K x, resp_kem_ciphertext = ct\<rparr>"
    and enc: "kem_encapsulate K (kem_encap_key hs) q = (Some (ct, ss), r')"
    and key: "derive_session_key S (x25519_dh K x (x25519_public K (x25519_secret hs))) ss (sh_nonce hs) = Ok key"
    by (rule client_respond_OkE) (simp add: server_client_hello_def)
  from assms(2) obtain g g' where "kem_generate K g = ((kem_decap_key hs, kem_encap_key hs), g')"
    by (auto simp: handshake_wf_def)
  from kex_lawsD(6) [OF assms(1) this enc] have ct: "length ct = 1088" "kem_decapsulate K (kem_decap_key hs) ct = Some ss"
    by simp_all
  have pub: "length (x25519_public K x) = 32" by (rule kex_lawsD(2) [OF assms(1)])
  have dh: "x25519_dh K (x25519_secret hs) (x25519_public K x) = x25519_dh K x (x25519_public K (x25519_secret hs))"
    by (rule kex_lawsD(3) [OF assms(1)])
  show "complete_from_wire S K hs (serialize_client_response resp) = Ok key"
    using resp ct pub dh key
    by (simp add: complete_from_wire_def complete_def serialize_client_response_def layout_defs)
  show "length (serialize_client_response resp) = CLIENT_RESPONSE_LEN"
    using resp ct pub by (simp add: serialize_client_response_def layout_defs)
qed

lemma client_respond_total:
  assumes "kem_total K" "hkdf_laws S"
  obtains resp key r' where "client_respond S K hello r = (Ok (resp, key), r')" "length (key_as_bytes key) = 32"
proof -
  obtain x r1 where x: "x25519_random K r = (x, r1)" by fastforce
  obtain ct ss r2 where e: "kem_encapsulate K (hello_kem_encap_key hello) r1 = (Some (ct, ss), r2)"
    using assms(1) unfolding kem_total_def by (metis option.exhaust prod.exhaust fst_conv)
  obtain key where k: "derive_session_key S (x25519_dh K x (hello_x25519_public hello)) ss (hello_nonce hello) = Ok key"
    "length (key_as_bytes key) = 32" using assms(2) by (rule derive_session_key_ok)
  show ?thesis
    by (rule that [of "\<lparr>resp_x25519_public = x25519_public K x, resp_kem_ciphertext = ct\<rparr>" key r2])
      (use x e k in \<open>simp_all add: client_respond_def\<close>)
qed

lemma server_hello_signed_OkE:
  assumes "server_hello_signed_bytes G K hs sk r = (Ok wire, r')"
  obtains s where "sign G K sk (server_hello_bytes hs) r = (Ok s, r')"
    "wire = server_hello_bytes hs @ sig_to_bytes s"
  using assms by (auto simp: server_hello_signed_bytes_def Let_def split: prod.splits sum.splits)

lemma serialize_client_response_signed_OkE:
  assumes "serialize_client_response_signed G K resp sk hello r = (Ok wire, r')"
  obtains s where "sign G K sk (serialize_client_response resp @ hello) r = (Ok s, r')"
    "wire = serialize_client_response resp @ sig_to_bytes s"
  using assms by (auto simp: serialize_client_response_signed_def Let_def split: prod.splits sum.splits)

lemma parse_server_hello_signed_iff:
  "length b = SERVER_HELLO_SIGNED_LEN \<Longrightarrow> parse_server_hello_signed G K b vk =
    (if verify G vk (take SERVER_HELLO_LEN b) (Signature (drop SERVER_HELLO_LEN b)) = Ok ()
     then Ok (parse_server_hello K (take SERVER_HELLO_LEN b)) else Err AuthenticationFailed)"
  by (auto simp: parse_server_hello_signed_def sig_from_bytes_def layout_defs Let_def split: sum.splits)

lemma complete_from_wire_signed_iff:
  "length b = CLIENT_RESPONSE_SIGNED_LEN \<Longrightarrow> complete_from_wire_signed S G K hs b vk =
    (if verify G vk (take CLIENT_RESPONSE_LEN b @ server_hello_raw hs) (Signature (drop CLIENT_RESPONSE_LEN b)) = Ok ()
     then complete_from_wire S K hs (take CLIENT_RESPONSE_LEN b) else Err ClientAuthFailed)"
  by (auto simp: complete_from_wire_signed_def sig_from_bytes_def layout_defs Let_def split: sum.splits)

lemma parse_own_server_hello:
  assumes "sig_laws G" "kex_laws K" "generate_keypair G K a = ((sk, vk), a')" "handshake_wf K hs"
    and "server_hello_signed_bytes G K hs sk r = (Ok wire, r')"
  shows "parse_server_hello_signed G K wire vk = Ok (server_client_hello K hs)"
    and "take SERVER_HELLO_LEN wire = server_hello_raw hs"
    and "length wire = SERVER_HELLO_SIGNED_LEN"
proof -
  from assms(5) obtain s where s: "sign G K sk (server_hello_bytes hs) r = (Ok s, r')"
    and w: "wire = server_hello_bytes hs @ sig_to_bytes s" by (rule server_hello_signed_OkE)
  note hello = parse_server_hello_bytes [OF assms(2,4)]
  note l = sign_length [OF assms(1) s]
  show lw: "length wire = SERVER_HELLO_SIGNED_LEN" using w hello(2) l by (simp add: SERVER_HELLO_SIGNED_LEN_def)
  show "take SERVER_HELLO_LEN wire = server_hello_raw hs"
    using w hello(2) by (simp add: server_hello_bytes_def)
  show "parse_server_hello_signed G K wire vk = Ok (server_client_hello K hs)"
    unfolding parse_server_hello_signed_iff [OF lw] using w hello sign_verify [OF assms(1,3) s] by simp
qed

lemma signed_response_accepted:
  assumes "sig_laws G" "kex_laws K" "generate_keypair G K b = ((sk, vk), b')" "handshake_wf K hs"
    and "client_respond S K (server_client_hello K hs) q = (Ok (resp, key), q')"
    and "serialize_client_response_signed G K resp sk (server_hello_raw hs) r = (Ok wire, r')"
  shows "length wire = CLIENT_RESPONSE_SIGNED_LEN"
    and "complete_from_wire_signed S G K hs wire vk = Ok key"
proof -
  note cw = complete_agrees [OF assms(2,4,5)]
  from assms(6) obtain s where s: "sign G K sk (serialize_client_response resp @ server_hello_raw hs) r = (Ok s, r')"
    and w: "wire = serialize_client_response resp @ sig_to_bytes s"
    by (rule serialize_client_response_signed_OkE)
  show lw: "length wire = CLIENT_RESPONSE_SIGNED_LEN"
    using w cw(2) sign_length [OF assms(1) s] by (simp add: CLIENT_RESPONSE_SIGNED_LEN_def)
  show "complete_from_wire_signed S G K hs wire vk = Ok key"
    unfolding complete_from_wire_signed_iff [OF lw] using w cw sign_verify [OF assms(1,3) s] by simp
qed

section \<open>Properties\<close>

text \<open>Key agreement: for every server handshake and every client randomness, the client's
  answer to the ServerHello on the wire succeeds, the server completes from the bytes of that
  answer, and both sides hold the same 32-byte session key.\<close>

theorem session_keys_agree:
  assumes "kex_laws K" and "kem_total K" and "hkdf_laws S" and "server_handshake_new K r = (hs, r1)"
  shows "\<exists>resp key q'. client_respond S K (parse_server_hello K (server_hello_bytes hs)) q = (Ok (resp, key), q') \<and>
     complete_from_wire S K hs (serialize_client_response resp) = Ok key \<and> length (key_as_bytes key) = 32"
proof -
  note wf = server_handshake_new_wf [OF assms(1,4)]
  obtain resp key q' where c: "client_respond S K (server_client_hello K hs) q = (Ok (resp, key), q')"
    and l: "length (key_as_bytes key) = 32" using assms(2,3) by (rule client_respond_total)
  show ?thesis
    unfolding parse_server_hello_bytes(1) [OF assms(1) wf]
    using c l complete_agrees(1) [OF assms(1) wf c] by blast
qed

theorem session_keys_agree_witness:
  "\<exists>resp key q'. client_respond toy_sym toy_kex
       (parse_server_hello toy_kex (server_hello_bytes (fst (server_handshake_new toy_kex 3)))) 9 = (Ok (resp, key), q') \<and>
     complete_from_wire toy_sym toy_kex (fst (server_handshake_new toy_kex 3)) (serialize_client_response resp) = Ok key \<and>
     length (key_as_bytes key) = 32"
  by (rule session_keys_agree [OF toy_kex_laws toy_sym_laws(4) prod.collapse [symmetric]])

text \<open>Mutual authentication succeeds between honest parties: with the server's verifying key
  at the client and the client's at the server, the signed ServerHello (4557 bytes) is accepted, and
  the signed response (4429 bytes), whenever signing produced one, completes the handshake at
  the server with the client's key.\<close>

theorem mutual_handshake_completes:
  assumes "sig_laws G" and "kex_laws K" and "kem_total K" and "hkdf_laws S"
    and "generate_keypair G K a = ((server_sk, server_vk), a')"
    and "generate_keypair G K b = ((client_sk, client_vk), b')"
    and "server_handshake_new K r = (hs, r1)"
    and "server_hello_signed_bytes G K hs server_sk r1 = (Ok wire, r2)"
  shows "length wire = 4557 \<and> (\<exists>hello resp key q'. parse_server_hello_signed G K wire server_vk = Ok hello \<and>
     client_respond S K hello q = (Ok (resp, key), q') \<and>
     (\<forall>wire' q''. serialize_client_response_signed G K resp client_sk (take SERVER_HELLO_LEN wire) q' = (Ok wire', q'') \<longrightarrow>
        length wire' = 4429 \<and> complete_from_wire_signed S G K hs wire' client_vk = Ok key))"
proof -
  note wf = server_handshake_new_wf [OF assms(2,7)]
  note own = parse_own_server_hello [OF assms(1,2,5) wf assms(8)]
  obtain resp key q' where c: "client_respond S K (server_client_hello K hs) q = (Ok (resp, key), q')"
    using assms(3,4) by (rule client_respond_total)
  have "length wire' = 4429 \<and> complete_from_wire_signed S G K hs wire' client_vk = Ok key"
    if "serialize_client_response_signed G K resp client_sk (take SERVER_HELLO_LEN wire) q' = (Ok wire', q'')" for wire' q''
    using signed_response_accepted [OF assms(1,2,6) wf c] that unfolding own(2) by (simp add: layout_defs)
  with own c show ?thesis by (simp add: layout_defs) metis
qed

lemma toy_sign_ok:
  "length m \<le> 2500 \<Longrightarrow> \<exists>s r'. sign toy_sig toy_kex sk m r = (Ok s, r')"
  by (simp add: sign_def toy_sig_def toy_kex_def SIGNING_CONTEXT_def)

lemma toy_server_hello_signed:
  assumes "handshake_wf toy_kex hs"
  obtains wire r' where "server_hello_signed_bytes toy_sig toy_kex hs sk r = (Ok wire, r')"
proof -
  have "length (server_hello_bytes hs) \<le> 2500"
    using parse_server_hello_bytes(2) [OF toy_kex_laws(1) assms] by (simp add: layout_defs)
  then obtain s r' where "sign toy_sig toy_kex sk (server_hello_bytes hs) r = (Ok s, r')"
    using toy_sign_ok by blast
  with that show ?thesis by (simp add: server_hello_signed_bytes_def)
qed

lemma toy_response_signed:
  assumes "handshake_wf toy_kex hs"
    and "client_respond toy_sym toy_kex (server_client_hello toy_kex hs) q = (Ok (resp, key), q')"
  obtains wire r' where
    "serialize_client_response_signed toy_sig toy_kex resp sk (server_hello_raw hs) r = (Ok wire, r')"
proof -
  have "length (serialize_client_response resp @ server_hello_raw hs) \<le> 2500"
    using complete_agrees(2) [OF toy_kex_laws(1) assms] parse_server_hello_bytes(2) [OF toy_kex_laws(1) assms(1)]
    by (simp add: layout_defs server_hello_bytes_def)
  then obtain s r' where "sign toy_sig toy_kex sk (serialize_client_response resp @ server_hello_raw hs) r = (Ok s, r')"
    using toy_sign_ok by blast
  with that show ?thesis by (simp add: serialize_client_response_signed_def)
qed

theorem mutual_handshake_completes_witness:
  "\<exists>server_vk client_sk client_vk hs wire hello resp key q'.
     parse_server_hello_signed toy_sig toy_kex wire server_vk = Ok hello \<and>
     client_respond toy_sym toy_kex hello 8 = (Ok (resp, key), q') \<and>
     (\<exists>wire' q''. serialize_client_response_signed toy_sig toy_kex resp client_sk (take SERVER_HELLO_LEN wire) q' = (Ok wire', q'') \<and>
        complete_from_wire_signed toy_sym toy_sig toy_kex hs wire' client_vk = Ok key)"
proof -
  let ?kp = "\<lambda>r. generate_keypair toy_sig toy_kex r"
  obtain ssk svk a where kp1: "?kp 1 = ((ssk, svk), a)" by (metis prod.exhaust)
  obtain csk cvk b where kp2: "?kp 2 = ((csk, cvk), b)" by (metis prod.exhaust)
  obtain hs r1 where hs: "server_handshake_new toy_kex 3 = (hs, r1)" by (metis prod.exhaust)
  note wf = server_handshake_new_wf [OF toy_kex_laws(1) hs]
  obtain wire r2 where w: "server_hello_signed_bytes toy_sig toy_kex hs ssk r1 = (Ok wire, r2)"
    using wf by (rule toy_server_hello_signed)
  from mutual_handshake_completes [OF toy_sig_laws(1) toy_kex_laws toy_sym_laws(4) kp1 kp2 hs w, of 8]
  obtain hello resp key q' where p: "parse_server_hello_signed toy_sig toy_kex wire svk = Ok hello"
    and c: "client_respond toy_sym toy_kex hello 8 = (Ok (resp, key), q')"
    and f: "\<And>wire' q''. serialize_client_response_signed toy_sig toy_kex resp csk (take SERVER_HELLO_LEN wire) q' = (Ok wire', q'') \<Longrightarrow>
        complete_from_wire_signed toy_sym toy_sig toy_kex hs wire' cvk = Ok key" by blast
  have hello: "hello = server_client_hello toy_kex hs" "take SERVER_HELLO_LEN wire = server_hello_raw hs"
    using p parse_own_server_hello [OF toy_sig_laws(1) toy_kex_laws(1) kp1 wf w] by simp_all
  obtain wire' q'' where "serialize_client_response_signed toy_sig toy_kex resp csk (take SERVER_HELLO_LEN wire) q' = (Ok wire', q'')"
    using wf c unfolding hello by (rule toy_response_signed)
  with p c f show ?thesis by blast
qed

text \<open>C17. Server authentication: the client refuses a ServerHello whose 1248 bytes differ from
  the ones the server signed while the signature is the server's, before it parses it.\<close>

theorem tampered_server_hello_refused:
  assumes "sig_laws G" and "sig_binds G" and "kex_laws K"
    and "generate_keypair G K a = ((sk, vk), a')" and "server_handshake_new K r = (hs, r1)"
    and "server_hello_signed_bytes G K hs sk r1 = (Ok wire, r2)"
    and "length wire' = SERVER_HELLO_SIGNED_LEN" and "drop SERVER_HELLO_LEN wire' = drop SERVER_HELLO_LEN wire"
    and "take SERVER_HELLO_LEN wire' \<noteq> take SERVER_HELLO_LEN wire"
  shows "parse_server_hello_signed G K wire' vk = Err AuthenticationFailed"
proof -
  note own = parse_own_server_hello [OF assms(1,3,4) server_handshake_new_wf [OF assms(3,5)] assms(6)]
  from own(1) have "verify G vk (take SERVER_HELLO_LEN wire) (Signature (drop SERVER_HELLO_LEN wire)) = Ok ()"
    unfolding parse_server_hello_signed_iff [OF own(3)] by (simp split: if_splits)
  with assms(8,9) have "verify G vk (take SERVER_HELLO_LEN wire') (Signature (drop SERVER_HELLO_LEN wire')) \<noteq> Ok ()"
    using verify_binds [OF assms(2)] by metis
  then show ?thesis unfolding parse_server_hello_signed_iff [OF assms(7)] by simp
qed

theorem tampered_server_hello_refused_witness:
  "\<exists>vk wire wire'. wire' \<noteq> wire \<and> is_ok (parse_server_hello_signed toy_sig toy_kex wire vk) \<and>
     parse_server_hello_signed toy_sig toy_kex wire' vk = Err AuthenticationFailed"
proof -
  obtain sk vk a where kp: "generate_keypair toy_sig toy_kex 1 = ((sk, vk), a)" by (metis prod.exhaust)
  obtain hs r1 where hs: "server_handshake_new toy_kex 3 = (hs, r1)" by (metis prod.exhaust)
  note wf = server_handshake_new_wf [OF toy_kex_laws(1) hs]
  obtain wire r2 where w: "server_hello_signed_bytes toy_sig toy_kex hs sk r1 = (Ok wire, r2)"
    using wf by (rule toy_server_hello_signed)
  note own = parse_own_server_hello [OF toy_sig_laws(1) toy_kex_laws(1) kp wf w]
  let ?w = "(hd wire + 1) # tl wire"
  have l: "0 < length wire" "length ?w = SERVER_HELLO_SIGNED_LEN" using own(3) by (simp_all add: layout_defs)
  then obtain x xs where "wire = x # xs" by (cases wire) auto
  then have "drop SERVER_HELLO_LEN ?w = drop SERVER_HELLO_LEN wire" "take SERVER_HELLO_LEN ?w \<noteq> take SERVER_HELLO_LEN wire"
    by (simp_all add: layout_defs)
  from tampered_server_hello_refused [OF toy_sig_laws toy_kex_laws(1) kp hs w l(2) this] own(1)
  show ?thesis using \<open>wire = x # xs\<close> by (intro exI [of _ vk] exI [of _ wire] exI [of _ ?w]) simp
qed

text \<open>C18. Client authentication is bound to one handshake: a signed response that one ServerHello
  accepted is refused with \<open>ClientAuthFailed\<close> in every handshake with another ServerHello, so a
  recorded response cannot be replayed.\<close>

theorem client_response_bound_to_handshake:
  assumes "sig_binds G" and "length wire = CLIENT_RESPONSE_SIGNED_LEN"
    and "complete_from_wire_signed S G K hs wire client_vk = Ok key"
    and "server_hello_bytes hs' \<noteq> server_hello_bytes hs"
  shows "complete_from_wire_signed S G K hs' wire client_vk = Err ClientAuthFailed"
proof -
  from assms(3) have "verify G client_vk (take CLIENT_RESPONSE_LEN wire @ server_hello_raw hs)
      (Signature (drop CLIENT_RESPONSE_LEN wire)) = Ok ()"
    unfolding complete_from_wire_signed_iff [OF assms(2)] by (simp split: if_splits)
  with assms(4) have "verify G client_vk (take CLIENT_RESPONSE_LEN wire @ server_hello_raw hs')
      (Signature (drop CLIENT_RESPONSE_LEN wire)) \<noteq> Ok ()"
    unfolding server_hello_bytes_def using verify_binds [OF assms(1)] by (metis same_append_eq)
  then show ?thesis unfolding complete_from_wire_signed_iff [OF assms(2)] by simp
qed

theorem client_response_bound_to_handshake_witness:
  "\<exists>hs hs' wire vk. is_ok (complete_from_wire_signed toy_sym toy_sig toy_kex hs wire vk) \<and>
     complete_from_wire_signed toy_sym toy_sig toy_kex hs' wire vk = Err ClientAuthFailed"
proof -
  obtain sk vk a where kp: "generate_keypair toy_sig toy_kex 1 = ((sk, vk), a)" by (metis prod.exhaust)
  obtain hs r1 where hs: "server_handshake_new toy_kex 3 = (hs, r1)" by (metis prod.exhaust)
  note wf = server_handshake_new_wf [OF toy_kex_laws(1) hs]
  obtain resp key q' where c: "client_respond toy_sym toy_kex (server_client_hello toy_kex hs) 8 = (Ok (resp, key), q')"
    using toy_kex_laws(2) toy_sym_laws(4) by (rule client_respond_total)
  obtain wire r' where w: "serialize_client_response_signed toy_sig toy_kex resp sk (server_hello_raw hs) q' = (Ok wire, r')"
    using wf c by (rule toy_response_signed)
  note acc = signed_response_accepted [OF toy_sig_laws(1) toy_kex_laws(1) kp wf c w]
  let ?hs' = "hs\<lparr>server_hello_raw := []\<rparr>"
  have "server_hello_bytes ?hs' \<noteq> server_hello_bytes hs"
    using parse_server_hello_bytes(2) [OF toy_kex_laws(1) wf] by (auto simp: server_hello_bytes_def layout_defs)
  from client_response_bound_to_handshake [OF toy_sig_laws(2) acc this] acc(2) show ?thesis by blast
qed

end
