(* ===== verification/Identity.thy ===== *)
theory Identity
  imports Signing Interfaces
begin

text \<open>
  Long-term identities on disk: \<open>latticeshield-bridge/src/identity.rs\<close> (\<open>ServerIdentity\<close>,
  \<open>ClientVerifyingIdentity\<close>, \<open>ControlPlaneVerifyingIdentity\<close>) and
  \<open>latticeshield-client/src/identity.rs\<close> (\<open>load_verifying_key\<close>, \<open>ClientIdentity\<close>).

  The file system is a map from path strings to files with their permission bits, their bytes and
  whether the process may open them. Opening with \<open>create\<close> and \<open>truncate\<close> gives a new file
  the requested mode and leaves the mode of an existing file alone, as open(2) does.
\<close>

section \<open>Files and paths\<close>

text \<open>The octal permission constants \<open>0o600\<close>, \<open>0o644\<close> and \<open>0o1000\<close> (one past \<open>0o777\<close>).\<close>

definition oct600 :: nat where "oct600 = 6 * 64"
definition oct644 :: nat where "oct644 = 6 * 64 + 4 * 8 + 4"
definition oct1000 :: nat where "oct1000 = 512"

lemmas oct_defs = oct600_def oct644_def oct1000_def

record disk_file =
  f_mode :: nat
  f_data :: bytes
  f_open :: bool

type_synonym filesys = "string \<Rightarrow> disk_file option"

definition fs_read :: "filesys \<Rightarrow> string \<Rightarrow> io_error + bytes" where
  "fs_read fs p = (case fs p of
      None \<Rightarrow> Err NotFound
    | Some f \<Rightarrow> if f_open f then Ok (f_data f) else Err PermissionDenied)"

definition fs_write :: "filesys \<Rightarrow> string \<Rightarrow> nat \<Rightarrow> bytes \<Rightarrow> (io_error + unit) \<times> filesys" where
  "fs_write fs p mode b = (case fs p of
      None \<Rightarrow> (Ok (), fs(p \<mapsto> \<lparr>f_mode = mode, f_data = b, f_open = True\<rparr>))
    | Some f \<Rightarrow> if f_open f then (Ok (), fs(p \<mapsto> f\<lparr>f_data := b\<rparr>)) else (Err PermissionDenied, fs))"

text \<open>\<open>Path::join\<close> with a relative file name, and \<open>Path::with_extension\<close>: trailing separators
  and \<open>/.\<close> are not part of the file name, a leading dot does not start an extension, and a path
  without a file name is left as it is.\<close>

definition path_join :: "string \<Rightarrow> string \<Rightarrow> string" where
  "path_join d f = (if d = [] then f else if last d = CHR ''/'' then d @ f else d @ ''/'' @ f)"

fun strip_tail :: "string \<Rightarrow> string" where
  "strip_tail (c # cs) = (if c = CHR ''/'' then strip_tail cs
     else if c = CHR ''.'' \<and> (case cs of d # _ \<Rightarrow> d = CHR ''/'' | [] \<Rightarrow> False) then strip_tail cs
     else c # cs)"
| "strip_tail [] = []"

definition with_extension :: "string \<Rightarrow> string \<Rightarrow> string" where
  "with_extension p ext =
    (let q = strip_tail (rev p);
         name = rev (takeWhile (\<lambda>c. c \<noteq> CHR ''/'') q);
         dir = rev (dropWhile (\<lambda>c. c \<noteq> CHR ''/'') q);
         before = rev (drop 1 (dropWhile (\<lambda>c. c \<noteq> CHR ''.'') (rev name)));
         stem = (if CHR ''.'' \<in> set name \<and> before \<noteq> [] then before else name)
     in if name = [] \<or> name = ''.'' \<or> name = ''..'' then p
        else dir @ stem @ (if ext = [] then [] else ''.'' @ ext))"

section \<open>Key pairs\<close>

datatype load_error =
    NoAccess io_error | InsecureMode nat
  | SkOpen io_error | SkTruncated | SkInvalid signing_error
  | VkOpen io_error | VkTruncated | VkInvalid signing_error

record identity =
  signing_key :: signing_key
  verifying_key :: verifying_key

definition vk_path_from :: "string \<Rightarrow> string" where
  "vk_path_from sk_path = with_extension sk_path ''vk''"

text \<open>\<open>ServerIdentity::load\<close>. \<open>read_exact\<close> takes the first bytes of each file.\<close>

definition server_identity_load :: "filesys \<Rightarrow> string \<Rightarrow> load_error + identity" where
  "server_identity_load fs sk_path = (case fs sk_path of
     None \<Rightarrow> Err (NoAccess NotFound)
   | Some meta \<Rightarrow>
      (let mode = f_mode meta mod oct1000 in
       if mode \<noteq> oct600 then Err (InsecureMode mode)
       else (case fs_read fs sk_path of
         Err e \<Rightarrow> Err (SkOpen e)
       | Ok sk_data \<Rightarrow> (case read_exact SIGNING_KEY_LEN sk_data of
           None \<Rightarrow> Err SkTruncated
         | Some (sk_buf, _) \<Rightarrow> (case sk_from_bytes sk_buf of
             Err e \<Rightarrow> Err (SkInvalid e)
           | Ok sk \<Rightarrow> (case fs_read fs (vk_path_from sk_path) of
               Err e \<Rightarrow> Err (VkOpen e)
             | Ok vk_data \<Rightarrow> (case read_exact VERIFYING_KEY_LEN vk_data of
                 None \<Rightarrow> Err VkTruncated
               | Some (vk_buf, _) \<Rightarrow> (case vk_from_bytes vk_buf of
                   Err e \<Rightarrow> Err (VkInvalid e)
                 | Ok vk \<Rightarrow> Ok \<lparr>signing_key = sk, verifying_key = vk\<rparr>))))))))"

text \<open>\<open>ClientIdentity::load\<close> performs the same steps on \<open>client.sk\<close>.\<close>

definition client_identity_load :: "filesys \<Rightarrow> string \<Rightarrow> load_error + identity" where
  "client_identity_load fs sk_path = server_identity_load fs sk_path"

text \<open>\<open>generate_and_save\<close> of the bridge and of the client. \<open>mkdir\<close> is the outcome of
  \<open>create_dir_all\<close>.\<close>

definition save_pair ::
  "filesys \<Rightarrow> string \<Rightarrow> string \<Rightarrow> signing_key \<Rightarrow> verifying_key \<Rightarrow> (io_error + unit) \<times> filesys" where
  "save_pair fs sk_path vk_path sk vk = (case fs_write fs sk_path oct600 (sk_to_bytes sk) of
      (Err e, fs1) \<Rightarrow> (Err e, fs1)
    | (Ok _, fs1) \<Rightarrow> fs_write fs1 vk_path oct644 (vk_to_bytes vk))"

definition server_generate_and_save ::
  "sig_prims \<Rightarrow> ('r, 'x, 'dk, 'ek) kex_prims \<Rightarrow> (io_error + unit) \<Rightarrow> filesys \<Rightarrow> string \<Rightarrow> 'r \<Rightarrow>
   (io_error + unit) \<times> filesys \<times> 'r" where
  "server_generate_and_save G K mkdir fs dir r = (case mkdir of
      Err e \<Rightarrow> (Err e, fs, r)
    | Ok _ \<Rightarrow>
        (let ((sk, vk), r') = generate_keypair G K r;
             (res, fs') = save_pair fs (path_join dir ''server.sk'') (path_join dir ''server.vk'') sk vk
         in (res, fs', r')))"

definition client_generate_and_save ::
  "sig_prims \<Rightarrow> ('r, 'x, 'dk, 'ek) kex_prims \<Rightarrow> (io_error + unit) \<Rightarrow> filesys \<Rightarrow> string \<Rightarrow> 'r \<Rightarrow>
   (io_error + unit) \<times> filesys \<times> 'r" where
  "client_generate_and_save G K mkdir fs dir r = (case mkdir of
      Err e \<Rightarrow> (Err e, fs, r)
    | Ok _ \<Rightarrow>
        (let ((sk, vk), r') = generate_keypair G K r;
             (res, fs') = save_pair fs (path_join dir ''client.sk'') (path_join dir ''client.vk'') sk vk
         in (res, fs', r')))"

section \<open>Public keys\<close>

datatype identity_error =
    IdentityIo io_error
  | IdentityInvalidSize (expected: nat) (found: nat)
  | IdentityInvalidKey signing_error

text \<open>\<open>ClientVerifyingIdentity::load\<close> and \<open>ControlPlaneVerifyingIdentity::load\<close>: the two have the
  same body.\<close>

definition client_verifying_identity_load :: "filesys \<Rightarrow> string \<Rightarrow> identity_error + verifying_key" where
  "client_verifying_identity_load fs p = (case fs_read fs p of
      Err e \<Rightarrow> Err (IdentityIo e)
    | Ok data \<Rightarrow>
        if length data \<noteq> VERIFYING_KEY_LEN
        then Err (IdentityInvalidSize VERIFYING_KEY_LEN (length data))
        else map_err IdentityInvalidKey (vk_from_bytes data))"

definition control_plane_verifying_identity_load :: "filesys \<Rightarrow> string \<Rightarrow> identity_error + verifying_key" where
  "control_plane_verifying_identity_load fs p = (case fs_read fs p of
      Err e \<Rightarrow> Err (IdentityIo e)
    | Ok data \<Rightarrow>
        if length data \<noteq> VERIFYING_KEY_LEN
        then Err (IdentityInvalidSize VERIFYING_KEY_LEN (length data))
        else map_err IdentityInvalidKey (vk_from_bytes data))"

text \<open>\<open>load_verifying_key\<close> and \<open>fingerprint\<close> of the client.\<close>

datatype vk_load_error = VkReadError io_error | VkBadLength nat nat | VkParseError signing_error

definition load_verifying_key :: "filesys \<Rightarrow> string \<Rightarrow> vk_load_error + verifying_key" where
  "load_verifying_key fs p = (case fs_read fs p of
      Err e \<Rightarrow> Err (VkReadError e)
    | Ok b \<Rightarrow>
        if length b \<noteq> VERIFYING_KEY_LEN then Err (VkBadLength VERIFYING_KEY_LEN (length b))
        else map_err VkParseError (vk_from_bytes (take VERIFYING_KEY_LEN b)))"

definition fingerprint :: "sym_prims \<Rightarrow> verifying_key \<Rightarrow> string" where
  "fingerprint S vk = hex_encode (sha256 S (vk_to_bytes vk))"

section \<open>The loaders of public keys satisfy their contract\<close>

text \<open>A file seen by a loader: its bytes when it can be read.\<close>

definition one_file :: "bytes option \<Rightarrow> filesys" where
  "one_file b = (\<lambda>p. map_option (\<lambda>d. \<lparr>f_mode = oct644, f_data = d, f_open = True\<rparr>) b)"

lemma fs_read_one_file: "fs_read (one_file b) p = (case b of None \<Rightarrow> Err NotFound | Some d \<Rightarrow> Ok d)"
  by (simp add: fs_read_def one_file_def split: option.splits)

interpretation cvi: sized_loader "\<lambda>b. client_verifying_identity_load (one_file b) p" VERIFYING_KEY_LEN vk_to_bytes for p
  by unfold_locales (auto simp: client_verifying_identity_load_def fs_read_one_file vk_from_bytes_def)

interpretation cpi: sized_loader "\<lambda>b. control_plane_verifying_identity_load (one_file b) p" VERIFYING_KEY_LEN vk_to_bytes for p
  by unfold_locales (auto simp: control_plane_verifying_identity_load_def fs_read_one_file vk_from_bytes_def)

interpretation lvk: sized_loader "\<lambda>b. load_verifying_key (one_file b) p" VERIFYING_KEY_LEN vk_to_bytes for p
  by unfold_locales (auto simp: load_verifying_key_def fs_read_one_file vk_from_bytes_def)

section \<open>Saving and loading\<close>

lemma path_join_inject: "path_join d f = path_join d g \<longleftrightarrow> f = g"
  by (simp add: path_join_def)

lemma server_identity_load_mode:
  "fs p = Some f \<Longrightarrow> f_mode f mod oct1000 \<noteq> oct600 \<Longrightarrow>
   server_identity_load fs p = Err (InsecureMode (f_mode f mod oct1000))"
  by (simp add: server_identity_load_def)

text \<open>Loading a pair whose two files start with the encodings of the keys.\<close>

lemma server_identity_load_ok:
  assumes "fs p = Some f" "f_mode f mod oct1000 = oct600" "f_open f" "f_data f = sk_to_bytes sk @ sk_tail"
    and "fs (vk_path_from p) = Some g" "f_open g" "f_data g = vk_to_bytes vk @ vk_tail"
    and "length (sk_to_bytes sk) = SIGNING_KEY_LEN" "length (vk_to_bytes vk) = VERIFYING_KEY_LEN"
  shows "server_identity_load fs p = Ok \<lparr>signing_key = sk, verifying_key = vk\<rparr>"
  using assms by (simp add: server_identity_load_def fs_read_def io_simps sk_from_bytes_def vk_from_bytes_def)

lemma generate_keypair_lengths:
  assumes "sig_laws G" "kex_laws K" "generate_keypair G K r = ((sk, vk), r')"
  shows "length (sk_to_bytes sk) = SIGNING_KEY_LEN" "length (vk_to_bytes vk) = VERIFYING_KEY_LEN"
  using generate_keypair_sizes [OF assms]
  by (auto simp: sk_from_bytes_def vk_from_bytes_def split: if_splits)

text \<open>A pair saved where neither file exists: what the file system holds then, and what the loaders make of it.\<close>

definition saved_pair :: "filesys \<Rightarrow> string \<Rightarrow> signing_key \<Rightarrow> verifying_key \<Rightarrow> filesys" where
  "saved_pair fs p sk vk = fs(p \<mapsto> \<lparr>f_mode = oct600, f_data = sk_to_bytes sk, f_open = True\<rparr>,
     vk_path_from p \<mapsto> \<lparr>f_mode = oct644, f_data = vk_to_bytes vk, f_open = True\<rparr>)"

lemma save_pair_fresh:
  assumes "fs p = None" "fs (vk_path_from p) = None" "p \<noteq> vk_path_from p"
  shows "save_pair fs p (vk_path_from p) sk vk = (Ok (), saved_pair fs p sk vk)"
  using assms by (simp add: save_pair_def fs_write_def saved_pair_def)

lemma saved_pair_loads:
  assumes "length (sk_to_bytes sk) = SIGNING_KEY_LEN" "length (vk_to_bytes vk) = VERIFYING_KEY_LEN" "p \<noteq> vk_path_from p"
  shows "server_identity_load (saved_pair fs p sk vk) p = Ok \<lparr>signing_key = sk, verifying_key = vk\<rparr>"
    and "client_identity_load (saved_pair fs p sk vk) p = Ok \<lparr>signing_key = sk, verifying_key = vk\<rparr>"
    and "load_verifying_key (saved_pair fs p sk vk) (vk_path_from p) = Ok vk"
    and "client_verifying_identity_load (saved_pair fs p sk vk) (vk_path_from p) = Ok vk"
    and "control_plane_verifying_identity_load (saved_pair fs p sk vk) (vk_path_from p) = Ok vk"
proof -
  have "fs_read (saved_pair fs p sk vk) (vk_path_from p) = Ok (vk_to_bytes vk)" by (simp add: saved_pair_def fs_read_def)
  then show "load_verifying_key (saved_pair fs p sk vk) (vk_path_from p) = Ok vk"
    "client_verifying_identity_load (saved_pair fs p sk vk) (vk_path_from p) = Ok vk"
    "control_plane_verifying_identity_load (saved_pair fs p sk vk) (vk_path_from p) = Ok vk"
    using assms(2) by (simp_all add: load_verifying_key_def client_verifying_identity_load_def
        control_plane_verifying_identity_load_def vk_from_bytes_def)
  show "server_identity_load (saved_pair fs p sk vk) p = Ok \<lparr>signing_key = sk, verifying_key = vk\<rparr>"
    using assms by (simp add: server_identity_load_def saved_pair_def fs_read_def read_exact_def sk_from_bytes_def vk_from_bytes_def oct_defs)
  then show "client_identity_load (saved_pair fs p sk vk) p = Ok \<lparr>signing_key = sk, verifying_key = vk\<rparr>"
    by (simp add: client_identity_load_def)
qed

text \<open>The file names of the three key pairs.\<close>

lemma key_paths:
  "path_join d ''server.vk'' = vk_path_from (path_join d ''server.sk'')"
  "path_join d ''client.vk'' = vk_path_from (path_join d ''client.sk'')"
  "path_join d ''admin.vk'' = vk_path_from (path_join d ''admin.sk'')"
  by (cases d rule: rev_cases; simp add: vk_path_from_def with_extension_def path_join_def Let_def)+

lemma key_paths_distinct:
  "path_join d ''server.sk'' \<noteq> vk_path_from (path_join d ''server.sk'')"
  "path_join d ''client.sk'' \<noteq> vk_path_from (path_join d ''client.sk'')"
  "path_join d ''admin.sk'' \<noteq> vk_path_from (path_join d ''admin.sk'')"
  by (simp_all add: key_paths [symmetric] path_join_inject)

text \<open>Keys on disk: on a directory without key files, \<open>generate_and_save\<close> of the bridge
  succeeds, writes the signing key with mode 0600 and the verifying key with mode 0644, touches no
  other file, and \<open>ServerIdentity::load\<close> reads the generated pair back.\<close>

theorem server_keys_save_then_load:
  assumes "sig_laws G" and "kex_laws K" and "generate_keypair G K r = ((sk, vk), r')"
    and "fs (path_join dir ''server.sk'') = None" and "fs (path_join dir ''server.vk'') = None"
  shows "\<exists>fs'. server_generate_and_save G K (Ok ()) fs dir r = (Ok (), fs', r') \<and>
     server_identity_load fs' (path_join dir ''server.sk'') = Ok \<lparr>signing_key = sk, verifying_key = vk\<rparr> \<and>
     map_option f_mode (fs' (path_join dir ''server.sk'')) = Some oct600 \<and>
     map_option f_mode (fs' (path_join dir ''server.vk'')) = Some oct644 \<and>
     (\<forall>p. p \<noteq> path_join dir ''server.sk'' \<and> p \<noteq> path_join dir ''server.vk'' \<longrightarrow> fs' p = fs p)"
proof -
  let ?s = "path_join dir ''server.sk''" and ?fs = "saved_pair fs (path_join dir ''server.sk'') sk vk"
  note ne = key_paths_distinct(1) [of dir]
  have "server_generate_and_save G K (Ok ()) fs dir r = (Ok (), ?fs, r')"
    using assms(3-5) save_pair_fresh [OF _ _ ne] by (simp add: server_generate_and_save_def key_paths)
  moreover have "server_identity_load ?fs ?s = Ok \<lparr>signing_key = sk, verifying_key = vk\<rparr>"
    by (rule saved_pair_loads(1) [OF generate_keypair_lengths [OF assms(1-3)] ne])
  ultimately show ?thesis using ne by (simp add: saved_pair_def key_paths)
qed

theorem server_keys_save_then_load_witness:
  "\<exists>sk vk r' fs'. server_generate_and_save toy_sig toy_kex (Ok ()) (\<lambda>_. None) ''/etc/ls'' 4 = (Ok (), fs', r') \<and>
     server_identity_load fs' (path_join ''/etc/ls'' ''server.sk'') = Ok \<lparr>signing_key = sk, verifying_key = vk\<rparr>"
proof -
  obtain sk vk r' where kp: "generate_keypair toy_sig toy_kex 4 = ((sk, vk), r')" by (metis prod.exhaust)
  from server_keys_save_then_load [OF toy_sig_laws(1) toy_kex_laws(1) kp, of "\<lambda>_. None" "''/etc/ls''"]
  show ?thesis by blast
qed

text \<open>Permissions: a signing key whose permission bits are not exactly 0600 is refused before
  it is opened, whatever the files contain. This includes the key \<open>generate_and_save\<close> itself writes
  over an existing file with wider permissions: the new secret key stays exposed with the old mode
  and cannot be loaded.\<close>

theorem regenerated_key_keeps_old_mode:
  assumes "generate_keypair G K r = ((sk, vk), r')"
    and "fs (path_join dir ''server.sk'') = Some old" and "f_open old" and "f_mode old mod oct1000 \<noteq> oct600"
    and "fs (path_join dir ''server.vk'') = None"
  shows "\<exists>fs'. server_generate_and_save G K (Ok ()) fs dir r = (Ok (), fs', r') \<and>
     fs' (path_join dir ''server.sk'') = Some (old\<lparr>f_data := sk_to_bytes sk\<rparr>) \<and>
     server_identity_load fs' (path_join dir ''server.sk'') = Err (InsecureMode (f_mode old mod oct1000))"
proof -
  let ?s = "path_join dir ''server.sk''" and ?v = "path_join dir ''server.vk''"
  let ?fs = "fs(?s \<mapsto> old\<lparr>f_data := sk_to_bytes sk\<rparr>,
    ?v \<mapsto> \<lparr>f_mode = oct644, f_data = vk_to_bytes vk, f_open = True\<rparr>)"
  have ne: "?s \<noteq> ?v" by (simp add: path_join_inject)
  have "server_generate_and_save G K (Ok ()) fs dir r = (Ok (), ?fs, r')"
    using assms ne by (simp add: server_generate_and_save_def save_pair_def fs_write_def)
  moreover have "server_identity_load ?fs ?s = Err (InsecureMode (f_mode old mod oct1000))"
    using server_identity_load_mode [of ?fs ?s "old\<lparr>f_data := sk_to_bytes sk\<rparr>"] ne assms(4) by simp
  ultimately show ?thesis using ne by simp
qed

theorem regenerated_key_keeps_old_mode_witness:
  "\<exists>fs' r'. server_generate_and_save toy_sig toy_kex (Ok ())
       [''k/server.sk'' \<mapsto> \<lparr>f_mode = oct644, f_data = [], f_open = True\<rparr>] ''k'' 4 = (Ok (), fs', r') \<and>
     server_identity_load fs' (path_join ''k'' ''server.sk'') = Err (InsecureMode oct644)"
proof -
  let ?old = "\<lparr>f_mode = oct644, f_data = [], f_open = True\<rparr>"
  obtain sk vk r' where kp: "generate_keypair toy_sig toy_kex 4 = ((sk, vk), r')" by (metis prod.exhaust)
  from regenerated_key_keeps_old_mode [OF kp, of "[''k/server.sk'' \<mapsto> ?old]" "''k''" ?old]
  show ?thesis by (auto simp: path_join_def oct_defs)
qed

text \<open>Oversized key files: \<open>ServerIdentity::load\<close> takes the first 4032 and 1952 bytes, so
  appending bytes to either file changes nothing, while the loaders of public keys refuse every
  file that is not exactly 1952 bytes long.\<close>

theorem oversized_key_files:
  assumes "server_identity_load fs p = Ok idn" and "fs p = Some f" and "p \<noteq> vk_path_from p"
    and "extra \<noteq> []"
  shows "server_identity_load (fs(p \<mapsto> f\<lparr>f_data := f_data f @ extra\<rparr>)) p = Ok idn \<and>
     is_err (load_verifying_key (one_file (Some (vk_to_bytes (verifying_key idn) @ extra))) q) \<and>
     is_err (client_verifying_identity_load (one_file (Some (vk_to_bytes (verifying_key idn) @ extra))) q)"
proof -
  let ?vk = "vk_to_bytes (verifying_key idn)"
  from assms(1) have l: "length ?vk = VERIFYING_KEY_LEN"
    by (auto simp: server_identity_load_def vk_from_bytes_def Let_def
        split: option.splits if_splits sum.splits)
  have "take SIGNING_KEY_LEN (f_data f @ extra) = take SIGNING_KEY_LEN (f_data f)"
    if "SIGNING_KEY_LEN \<le> length (f_data f)" using that by simp
  then have "server_identity_load (fs(p \<mapsto> f\<lparr>f_data := f_data f @ extra\<rparr>)) p = Ok idn"
    using assms by (auto simp: server_identity_load_def fs_read_def read_exact_def Let_def
        split: option.splits if_splits sum.splits)
  moreover have "is_err (load_verifying_key (one_file (Some (?vk @ extra))) q)"
    by (rule lvk.load_bad) (use l assms(4) in simp)
  moreover have "is_err (client_verifying_identity_load (one_file (Some (?vk @ extra))) q)"
    by (rule cvi.load_bad) (use l assms(4) in simp)
  ultimately show ?thesis by blast
qed

theorem oversized_key_files_witness:
  "\<exists>fs idn. server_identity_load fs ''k.sk'' = Ok idn \<and>
     is_err (load_verifying_key (one_file (Some (vk_to_bytes (verifying_key idn) @ [0]))) ''q'')"
proof -
  let ?sk = "replicate 4032 (1 :: byte)" and ?vk = "replicate 1952 (2 :: byte)"
  let ?f = "\<lparr>f_mode = oct600, f_data = ?sk, f_open = True\<rparr>"
  let ?fs = "[''k.sk'' \<mapsto> ?f, ''k.vk'' \<mapsto> \<lparr>f_mode = oct644, f_data = ?vk, f_open = True\<rparr>]"
  have vkp: "vk_path_from ''k.sk'' = ''k.vk''" by (simp add: vk_path_from_def with_extension_def Let_def)
  have load: "server_identity_load ?fs ''k.sk'' = Ok \<lparr>signing_key = SigningKey ?sk, verifying_key = VerifyingKey ?vk\<rparr>"
    by (rule server_identity_load_ok [where f = ?f and sk_tail = "[]" and vk_tail = "[]"
          and g = "\<lparr>f_mode = oct644, f_data = ?vk, f_open = True\<rparr>"])
      (simp_all add: vkp oct_defs layout_defs)
  from oversized_key_files [OF load, of ?f "[0]" "''q''"] load vkp show ?thesis
    by (intro exI [of _ ?fs] exI [of _ "\<lparr>signing_key = SigningKey ?sk, verifying_key = VerifyingKey ?vk\<rparr>"]) simp
qed

end
