(* ===== verification/Net.thy ===== *)
theory Net
  imports Interfaces
begin

text \<open>
  Network addresses with the parsers of the standard library that the configurations use, and the per-IP connection caps of the listeners: the counting of
  \<open>run\<close>, \<open>spawn_quic_listener\<close> and \<open>spawn_ws_listener\<close> in \<open>latticeshield-bridge/src/server.rs\<close>,
  and \<open>IpCountGuard\<close> of \<open>ws.rs\<close>, which gives the slot back. The map behind the mutex is a partial
  function; every access holds the lock.
\<close>

datatype ip_addr = IpV4 u32 | IpV6 "128 word"

type_synonym port = "16 word"

record socket_addr =
  addr_ip :: ip_addr
  addr_port :: port
  addr_scope :: u32

section \<open>Parsing addresses and numbers\<close>

text \<open>The parser of \<open>core::net\<close>: \<open>read_number\<close> takes digits of a radix with an optional limit on
  their number and refuses overflow and, where asked, a leading zero.\<close>

definition digit_value :: "nat \<Rightarrow> char \<Rightarrow> nat option" where
  "digit_value radix c =
    (let n = of_char c;
         v = (if 48 \<le> n \<and> n \<le> 57 then n - 48
              else if 97 \<le> n \<and> n \<le> 122 then n - 87
              else if 65 \<le> n \<and> n \<le> 90 then n - 55 else 99)
     in if v < radix then Some v else None)"

fun read_digits :: "nat \<Rightarrow> nat option \<Rightarrow> nat \<Rightarrow> nat \<Rightarrow> nat \<Rightarrow> string \<Rightarrow> (nat \<times> nat \<times> string) option" where
  "read_digits radix limit bound count acc [] = Some (count, acc, [])"
| "read_digits radix limit bound count acc (c # cs) = (case digit_value radix c of
      None \<Rightarrow> Some (count, acc, c # cs)
    | Some d \<Rightarrow>
        (let acc' = acc * radix + d in
         if bound \<le> acc' then None
         else if (case limit of Some m \<Rightarrow> m < Suc count | None \<Rightarrow> False) then None
         else read_digits radix limit bound (Suc count) acc' cs))"

definition read_number :: "nat \<Rightarrow> nat option \<Rightarrow> bool \<Rightarrow> nat \<Rightarrow> string \<Rightarrow> (nat \<times> string) option" where
  "read_number radix limit allow_zero_prefix bound s =
    (case read_digits radix limit bound 0 0 s of
       None \<Rightarrow> None
     | Some (count, v, rest) \<Rightarrow>
         if count = 0 then None
         else if \<not> allow_zero_prefix \<and> hd s = CHR ''0'' \<and> 1 < count then None
         else Some (v, rest))"

fun expect_char :: "char \<Rightarrow> string \<Rightarrow> string option" where
  "expect_char c (d # cs) = (if c = d then Some cs else None)"
| "expect_char c [] = None"

definition read_octet :: "string \<Rightarrow> (nat \<times> string) option" where
  "read_octet = read_number 10 (Some 3) False 256"

fun read_octets :: "nat \<Rightarrow> nat \<Rightarrow> string \<Rightarrow> (nat \<times> string) option" where
  "read_octets 0 acc s = Some (acc, s)"
| "read_octets (Suc n) acc s = (case expect_char (CHR ''.'') s of
      None \<Rightarrow> None
    | Some s1 \<Rightarrow> (case read_octet s1 of
        None \<Rightarrow> None | Some (v, s2) \<Rightarrow> read_octets n (acc * 256 + v) s2))"

definition read_ipv4 :: "string \<Rightarrow> (nat \<times> string) option" where
  "read_ipv4 s = (case read_octet s of None \<Rightarrow> None | Some (v, s1) \<Rightarrow> read_octets 3 v s1)"

text \<open>\<open>read_groups\<close>: up to \<open>limit\<close> hexadecimal groups separated by colons, the last two possibly as
  a dotted IPv4 address. The flag says whether an IPv4 address ended the run.\<close>

fun read_groups :: "nat \<Rightarrow> bool \<Rightarrow> nat list \<Rightarrow> string \<Rightarrow> nat list \<times> bool \<times> string" where
  "read_groups 0 first acc s = (rev acc, False, s)"
| "read_groups (Suc n) first acc s =
    (let sep = (if first then Some s else expect_char (CHR '':'') s)
     in case (if 0 < n then Option.bind sep read_ipv4 else None) of
          Some (v, s1) \<Rightarrow> (rev acc @ [v div 65536, v mod 65536], True, s1)
        | None \<Rightarrow> (case Option.bind sep (read_number 16 (Some 4) True 65536) of
            Some (g, s1) \<Rightarrow> read_groups n False (g # acc) s1
          | None \<Rightarrow> (rev acc, False, s)))"

definition of_groups :: "nat list \<Rightarrow> nat" where
  "of_groups gs = foldl (\<lambda>a g. a * 65536 + g) 0 gs"

definition read_ipv6 :: "string \<Rightarrow> (nat \<times> string) option" where
  "read_ipv6 s = (case read_groups 8 True [] s of
     (head, head_ipv4, s1) \<Rightarrow>
       if length head = 8 then Some (of_groups head, s1)
       else if head_ipv4 then None
       else (case Option.bind (expect_char (CHR '':'') s1) (expect_char (CHR '':'')) of
          None \<Rightarrow> None
        | Some s2 \<Rightarrow> (case read_groups (8 - (length head + 1)) True [] s2 of
            (tail, _, s3) \<Rightarrow>
              Some (of_groups (head @ replicate (8 - length head - length tail) 0 @ tail), s3))))"

definition read_port :: "string \<Rightarrow> (nat \<times> string) option" where
  "read_port s = Option.bind (expect_char (CHR '':'') s) (read_number 10 None True 65536)"

text \<open>\<open>SocketAddr::from_str\<close>: an IPv4 address or a bracketed IPv6 address with an optional numeric
  scope, then a port, and nothing after it.\<close>

definition parse_socket_addr :: "string \<Rightarrow> socket_addr option" where
  "parse_socket_addr s =
    (case (case read_ipv4 s of
             None \<Rightarrow> None
           | Some (v, s1) \<Rightarrow> (case read_port s1 of
               Some (p, []) \<Rightarrow> Some \<lparr>addr_ip = IpV4 (word_of_nat v), addr_port = word_of_nat p, addr_scope = 0\<rparr>
             | _ \<Rightarrow> None)) of
       Some a \<Rightarrow> Some a
     | None \<Rightarrow>
         (case Option.bind (expect_char (CHR ''['') s) read_ipv6 of
            None \<Rightarrow> None
          | Some (v, s1) \<Rightarrow>
              (let scope = Option.bind (expect_char (CHR ''%'') s1) (read_number 10 None True (2 ^ 32));
                   (sc, s2) = (case scope of Some x \<Rightarrow> x | None \<Rightarrow> (0, s1))
               in case Option.bind (expect_char (CHR '']'') s2) read_port of
                    Some (p, []) \<Rightarrow> Some \<lparr>addr_ip = IpV6 (word_of_nat v), addr_port = word_of_nat p,
                      addr_scope = word_of_nat sc\<rparr>
                  | _ \<Rightarrow> None)))"

text \<open>\<open>str::parse\<close> to an unsigned integer below \<open>bound\<close>: an optional plus sign, then decimal digits.\<close>

definition parse_unsigned :: "nat \<Rightarrow> string \<Rightarrow> nat option" where
  "parse_unsigned bound s =
    (let ds = (case s of c # cs \<Rightarrow> if c = CHR ''+'' \<and> cs \<noteq> [] then cs else s | [] \<Rightarrow> s)
     in case read_number 10 None True bound ds of Some (v, []) \<Rightarrow> Some v | _ \<Rightarrow> None)"

text \<open>UTF-8 validity of a file read as a string, by the well-formed byte sequences of the standard.\<close>

fun utf8_valid :: "nat list \<Rightarrow> bool" where
  "utf8_valid [] \<longleftrightarrow> True"
| "utf8_valid (a # s) \<longleftrightarrow>
    (if a < 128 then utf8_valid s
     else if 194 \<le> a \<and> a \<le> 223
     then (case s of b # t \<Rightarrow> 128 \<le> b \<and> b \<le> 191 \<and> utf8_valid t | [] \<Rightarrow> False)
     else if 224 \<le> a \<and> a \<le> 239
     then (case s of b # c # t \<Rightarrow>
             (if a = 224 then 160 else 128) \<le> b \<and> b \<le> (if a = 237 then 159 else 191) \<and>
             128 \<le> c \<and> c \<le> 191 \<and> utf8_valid t | _ \<Rightarrow> False)
     else if 240 \<le> a \<and> a \<le> 244
     then (case s of b # c # d # t \<Rightarrow>
             (if a = 240 then 144 else 128) \<le> b \<and> b \<le> (if a = 244 then 143 else 191) \<and>
             128 \<le> c \<and> c \<le> 191 \<and> 128 \<le> d \<and> d \<le> 191 \<and> utf8_valid t | _ \<Rightarrow> False)
     else False)"

definition read_to_string :: "io_error + bytes \<Rightarrow> io_error + string" where
  "read_to_string r = (case r of
      Err e \<Rightarrow> Err e
    | Ok b \<Rightarrow> if utf8_valid (map unat b) then Ok (map (\<lambda>x. char_of (unat x :: nat)) b) else Err InvalidData)"

section \<open>The per-IP table\<close>

type_synonym ip_counter_map = "ip_addr \<Rightarrow> nat option"

definition ip_count :: "ip_counter_map \<Rightarrow> ip_addr \<Rightarrow> nat" where
  "ip_count m ip = (case m ip of None \<Rightarrow> 0 | Some c \<Rightarrow> c)"

text \<open>\<open>entry(ip).or_insert(0)\<close>, the comparison with the cap, and the increment. The flag says
  whether the connection goes on.\<close>

definition conn_admit :: "nat \<Rightarrow> ip_counter_map \<Rightarrow> ip_addr \<Rightarrow> bool \<times> ip_counter_map" where
  "conn_admit max_per_ip m ip =
    (let count = ip_count m ip;
         m1 = m(ip \<mapsto> count)
     in if max_per_ip \<le> count then (False, m1) else (True, m1(ip \<mapsto> count + 1)))"

text \<open>\<open>IpCountGuard::drop\<close>.\<close>

definition ip_guard_drop :: "ip_counter_map \<Rightarrow> ip_addr \<Rightarrow> ip_counter_map" where
  "ip_guard_drop m ip = (case m ip of
      None \<Rightarrow> m
    | Some count \<Rightarrow>
        (let count' = (if 0 < count then count - 1 else count)
         in if count' = 0 then m(ip := None) else m(ip \<mapsto> count')))"

definition admit_slot :: "nat \<Rightarrow> ip_counter_map \<Rightarrow> ip_addr \<Rightarrow> ip_counter_map option" where
  "admit_slot cap m ip = (if fst (conn_admit cap m ip) then Some (snd (conn_admit cap m ip)) else None)"

interpretation ipc: slot_table "admit_slot cap" ip_guard_drop ip_count cap for cap
  by unfold_locales (auto simp: admit_slot_def conn_admit_def ip_guard_drop_def ip_count_def Let_def fun_eq_iff
      split: option.splits if_splits)

section \<open>Histories of a listener\<close>

text \<open>The table together with the peers of the tasks that are still running.\<close>

record ip_listener =
  ip_table :: ip_counter_map
  live_peers :: "ip_addr list"

datatype listener_event = Accepted ip_addr | TaskEnded ip_addr

fun ip_listener_step :: "nat \<Rightarrow> ip_listener \<Rightarrow> listener_event \<Rightarrow> ip_listener" where
  "ip_listener_step cap l (Accepted ip) = (case conn_admit cap (ip_table l) ip of
      (True, m) \<Rightarrow> \<lparr>ip_table = m, live_peers = ip # live_peers l\<rparr>
    | (False, m) \<Rightarrow> l\<lparr>ip_table := m\<rparr>)"
| "ip_listener_step cap l (TaskEnded ip) = (if ip \<in> set (live_peers l)
     then \<lparr>ip_table = ip_guard_drop (ip_table l) ip, live_peers = remove1 ip (live_peers l)\<rparr> else l)"

definition ip_listener_run :: "nat \<Rightarrow> listener_event list \<Rightarrow> ip_listener" where
  "ip_listener_run cap evs = foldl (ip_listener_step cap) \<lparr>ip_table = \<lambda>_. None, live_peers = []\<rparr> evs"

text \<open>An entry of the table is never 0.\<close>

definition no_zero_entry :: "ip_counter_map \<Rightarrow> bool" where
  "no_zero_entry m \<longleftrightarrow> (\<forall>ip. m ip \<noteq> Some 0)"

lemma conn_admit_cases:
  assumes "0 < cap"
  obtains (refused) "conn_admit cap m ip = (False, m)"
  | (admitted) m' where "conn_admit cap m ip = (True, m')" "admit_slot cap m ip = Some m'"
proof (cases "conn_admit cap m ip")
  case (Pair b m')
  have "m' x = m x" if "\<not> b" for x
    using Pair that assms by (auto simp: conn_admit_def ip_count_def Let_def split: option.splits if_splits)
  then have "m' = m" if "\<not> b" using that by blast
  with Pair refused admitted show ?thesis by (cases b) (auto simp: admit_slot_def)
qed

lemma no_zero_admit: "no_zero_entry m \<Longrightarrow> admit_slot cap m ip = Some m' \<Longrightarrow> no_zero_entry m'"
  by (auto simp: no_zero_entry_def admit_slot_def conn_admit_def Let_def split: if_splits)

lemma no_zero_drop: "no_zero_entry m \<Longrightarrow> no_zero_entry (ip_guard_drop m ip)"
  by (auto simp: no_zero_entry_def ip_guard_drop_def Let_def split: option.splits if_splits)

lemma no_zero_table: "no_zero_entry m \<Longrightarrow> m ip = (if ip_count m ip = 0 then None else Some (ip_count m ip))"
  by (cases "m ip") (auto simp: no_zero_entry_def ip_count_def intro: gr0I)

lemmas ip_table_laws = no_zero_admit no_zero_drop

interpretation ipl: capped_listener "admit_slot cap" ip_guard_drop ip_count cap ip_table live_peers
    "ip_listener_step cap" "\<lparr>ip_table = \<lambda>_. None, live_peers = []\<rparr>" no_zero_entry for cap
proof (unfold_locales, goal_cases)
  case (6 s e)
  show ?case
  proof (cases e)
    case (Accepted ip)
    from 6 show ?thesis by (rule conn_admit_cases [of cap "ip_table s" ip]) (use Accepted in auto)
  qed auto
qed (auto simp: ip_count_def intro: ip_table_laws, simp add: no_zero_entry_def)

text \<open>The per-IP cap holds at every moment: after any history of accepted connections and ended
  tasks, no address has more live connections than the cap, the table counts exactly the live
  connections, and it has no entry for an address without one (nothing leaks).\<close>

theorem per_ip_cap_holds:
  assumes "0 < cap"
  shows "count_list (live_peers (ip_listener_run cap history)) ip \<le> cap \<and>
     ip_table (ip_listener_run cap history) ip =
       (let n = count_list (live_peers (ip_listener_run cap history)) ip in if n = 0 then None else Some n)"
  using ipl.cap_kept [OF assms, of history ip] no_zero_table [of "ip_table (ip_listener_run cap history)" ip]
  by (simp add: ip_listener_run_def ipl.run_def Let_def)

theorem per_ip_cap_holds_witness:
  "ip_table (ip_listener_run 2 [Accepted (IpV4 1), Accepted (IpV4 1), Accepted (IpV4 1), TaskEnded (IpV4 1)]) (IpV4 1) = Some 1"
  using per_ip_cap_holds [of 2 "[Accepted (IpV4 1), Accepted (IpV4 1), Accepted (IpV4 1), TaskEnded (IpV4 1)]" "IpV4 1"]
  by (simp add: ip_listener_run_def conn_admit_def ip_count_def ip_guard_drop_def Let_def)

text \<open>A slot that is free is given: a peer is refused exactly when it already has as many live
  connections as the cap allows.\<close>

theorem refused_iff_at_cap:
  assumes "0 < cap"
  shows "fst (conn_admit cap (ip_table (ip_listener_run cap history)) ip) =
     (count_list (live_peers (ip_listener_run cap history)) ip < cap)"
proof -
  have "ip_count (ip_table (ip_listener_run cap history)) ip = count_list (live_peers (ip_listener_run cap history)) ip"
    using ipl.cap_kept [OF assms, of history ip] by (simp add: ip_listener_run_def ipl.run_def)
  then show ?thesis by (auto simp: conn_admit_def Let_def)
qed

theorem refused_iff_at_cap_witness:
  "\<not> fst (conn_admit 1 (ip_table (ip_listener_run 1 [Accepted (IpV4 1)])) (IpV4 1))"
  using refused_iff_at_cap [of 1 "[Accepted (IpV4 1)]" "IpV4 1"]
  by (simp add: ip_listener_run_def conn_admit_def ip_count_def Let_def)

end
