(* ===== verification/Ws.thy ===== *)
theory Ws
  imports Net
begin

text \<open>
  WebSocket support of the bridge, \<open>latticeshield-bridge/src/ws.rs\<close>: the normalisation and the
  check of the \<open>Origin\<close> header, and the adapter \<open>WsStream\<close> that presents a WebSocket as a byte
  stream to the session. \<open>url::Url::parse\<close> is a parameter; what the source reads from the parsed
  URL is the record \<open>url\<close>.
\<close>

section \<open>Origins\<close>

record url =
  url_scheme :: string
  url_host_str :: "string option"
  url_path :: string
  url_query :: "string option"
  url_fragment :: "string option"
  url_port :: "port option"

datatype origin_error =
    InvalidUrl | BadScheme string | MissingHost | BadPath string | HasQuery | HasFragment

datatype normalized_origin = NormalizedOrigin (normalized: string)

definition origin_parse :: "(string \<Rightarrow> url option) \<Rightarrow> string \<Rightarrow> origin_error + normalized_origin" where
  "origin_parse url_parse s = (case url_parse s of
     None \<Rightarrow> Err InvalidUrl
   | Some u \<Rightarrow>
      (let scheme = url_scheme u in
       if scheme \<noteq> ''https'' \<and> scheme \<noteq> ''http'' then Err (BadScheme scheme)
       else (case url_host_str u of
         None \<Rightarrow> Err MissingHost
       | Some h \<Rightarrow>
          (let host = lower h; path = url_path u in
           if path \<noteq> [] \<and> path \<noteq> ''/'' then Err (BadPath path)
           else if url_query u \<noteq> None then Err HasQuery
           else if url_fragment u \<noteq> None then Err HasFragment
           else (let port = (case url_port u of Some p \<Rightarrow> unat p
                             | None \<Rightarrow> if scheme = ''https'' then 443 else 80)
                 in Ok (NormalizedOrigin (scheme @ ''://'' @ host @ '':'' @ dec port)))))))"

definition matches_header :: "(string \<Rightarrow> url option) \<Rightarrow> normalized_origin \<Rightarrow> string \<Rightarrow> bool" where
  "matches_header url_parse self header = (case origin_parse url_parse header of
      Ok parsed \<Rightarrow> normalized parsed = normalized self
    | Err _ \<Rightarrow> False)"

text \<open>\<open>OriginCheck::on_request\<close>: \<open>True\<close> lets the upgrade go on, \<open>False\<close> is the answer 403. The
  header is \<open>None\<close> when it is missing or not a visible ASCII string.\<close>

definition on_request :: "(string \<Rightarrow> url option) \<Rightarrow> normalized_origin list \<Rightarrow> string option \<Rightarrow> bool" where
  "on_request url_parse allowed_origins origin_header =
    (if allowed_origins = [] then True
     else (case origin_header of
        None \<Rightarrow> False
      | Some origin_str \<Rightarrow> (\<exists>x \<in> set allowed_origins. matches_header url_parse x origin_str)))"

text \<open>The origin a header denotes (RFC 6454): scheme, host without regard to case, effective port.\<close>

definition origin_triple :: "(string \<Rightarrow> url option) \<Rightarrow> string \<Rightarrow> (string \<times> string \<times> nat) option" where
  "origin_triple url_parse s = (case url_parse s of
     None \<Rightarrow> None
   | Some u \<Rightarrow>
      (case url_host_str u of
         None \<Rightarrow> None
       | Some h \<Rightarrow>
          if url_scheme u \<in> {''https'', ''http''} \<and> url_path u \<in> {[], ''/''} \<and>
             url_query u = None \<and> url_fragment u = None
          then Some (url_scheme u, lower h, case url_port u of Some p \<Rightarrow> unat p
                       | None \<Rightarrow> if url_scheme u = ''https'' then 443 else 80)
          else None))"

definition origin_string :: "string \<times> string \<times> nat \<Rightarrow> string" where
  "origin_string t = (case t of (s, h, p) \<Rightarrow> s @ ''://'' @ h @ '':'' @ dec p)"

lemma origin_parse_triple:
  "(origin_parse P s = Ok n) \<longleftrightarrow> (\<exists>t. origin_triple P s = Some t \<and> n = NormalizedOrigin (origin_string t))"
  by (auto simp: origin_parse_def origin_triple_def origin_string_def Let_def split: option.splits if_splits)

lemma origin_triple_scheme:
  "origin_triple P s = Some (sch, h, p) \<Longrightarrow> sch = ''https'' \<or> sch = ''http''"
  by (auto simp: origin_triple_def split: option.splits if_splits)

lemma dec_no_colon: "CHR '':'' \<notin> set (dec n)"
  using dec_chars [of "CHR '':''" n] by auto

lemma split_last_unique:
  assumes "a @ x # b = c @ x # d" "x \<notin> set b" "x \<notin> set d"
  shows "a = c \<and> b = d"
proof -
  have "rev b @ x # rev a = rev d @ x # rev c" using arg_cong [OF assms(1), of rev] by simp
  then have "takeWhile (\<lambda>y. y \<noteq> x) (rev b @ x # rev a) = takeWhile (\<lambda>y. y \<noteq> x) (rev d @ x # rev c)"
    by simp
  moreover have "\<forall>y \<in> set (rev b). y \<noteq> x" "\<forall>y \<in> set (rev d). y \<noteq> x" using assms(2,3) by auto
  ultimately have "b = d" by (simp add: takeWhile_append)
  with assms(1) show ?thesis by simp
qed

text \<open>The normal form loses nothing.\<close>

lemma origin_string_inject:
  assumes "sch \<in> {''https'', ''http''}" "sch' \<in> {''https'', ''http''}"
    and "origin_string (sch, h, p) = origin_string (sch', h', p')"
  shows "(sch, h, p) = (sch', h', p')"
proof -
  have s: "sch = sch'" using assms by (auto simp: origin_string_def)
  with assms(3) have "h @ CHR '':'' # dec p = h' @ CHR '':'' # dec p'" by (simp add: origin_string_def)
  from split_last_unique [OF this dec_no_colon dec_no_colon] s show ?thesis by simp
qed

lemma origin_string_eq:
  assumes "origin_triple P a = Some t" "origin_triple P b = Some u"
  shows "origin_string t = origin_string u \<longleftrightarrow> t = u"
proof -
  obtain s h p where t: "t = (s, h, p)" by (cases t)
  obtain s' h' p' where u: "u = (s', h', p')" by (cases u)
  have "s \<in> {''https'', ''http''}" "s' \<in> {''https'', ''http''}"
    using assms origin_triple_scheme unfolding t u by blast+
  from origin_string_inject [OF this] show ?thesis unfolding t u by metis
qed

text \<open>C38. The origin check is exact: with a non-empty allowlist of parsed origins, an upgrade goes
  on if and only if the request has an \<open>Origin\<close> header that denotes the same scheme, host (ignoring
  case) and effective port as one of the configured origins; a header that is missing or not an
  origin is refused.\<close>

theorem origin_check_exact:
  assumes "list_all2 (\<lambda>s x. origin_parse P s = Ok x) configured allowed" and "allowed \<noteq> []"
  shows "on_request P allowed header =
    (\<exists>h t s. header = Some h \<and> origin_triple P h = Some t \<and> s \<in> set configured \<and> origin_triple P s = Some t)"
proof -
  have m: "matches_header P x h = (\<exists>t. origin_triple P h = Some t \<and> origin_triple P s = Some t)"
    if "origin_parse P s = Ok x" for s x h
  proof -
    from that obtain t where t: "origin_triple P s = Some t" "x = NormalizedOrigin (origin_string t)"
      by (auto simp: origin_parse_triple)
    show ?thesis
    proof (cases "origin_triple P h")
      case None
      then have "\<not> is_ok (origin_parse P h)" by (auto simp: origin_parse_triple)
      then show ?thesis using None by (auto simp: matches_header_def split: sum.splits)
    next
      case (Some t')
      then have "origin_parse P h = Ok (NormalizedOrigin (origin_string t'))" by (simp add: origin_parse_triple)
      then have "matches_header P x h \<longleftrightarrow> origin_string t' = origin_string t"
        using t(2) by (simp add: matches_header_def)
      also have "\<dots> \<longleftrightarrow> t' = t" by (rule origin_string_eq [OF Some t(1)])
      finally show ?thesis using t(1) Some by auto
    qed
  qed
  have src: "\<exists>s \<in> set configured. origin_parse P s = Ok x" if "x \<in> set allowed" for x
    using that assms(1) by (force simp: list_all2_conv_all_nth in_set_conv_nth)
  have img: "\<exists>x \<in> set allowed. origin_parse P s = Ok x" if "s \<in> set configured" for s
    using that assms(1) by (force simp: list_all2_conv_all_nth in_set_conv_nth)
  have "(\<exists>x \<in> set allowed. matches_header P x h) =
      (\<exists>s \<in> set configured. \<exists>t. origin_triple P h = Some t \<and> origin_triple P s = Some t)" for h
  proof
    assume "\<exists>x \<in> set allowed. matches_header P x h"
    then obtain x where x: "x \<in> set allowed" "matches_header P x h" by blast
    from src [OF x(1)] obtain s where "s \<in> set configured" "origin_parse P s = Ok x" by blast
    with m [of s x h] x(2) show "\<exists>s \<in> set configured. \<exists>t. origin_triple P h = Some t \<and> origin_triple P s = Some t"
      by blast
  next
    assume "\<exists>s \<in> set configured. \<exists>t. origin_triple P h = Some t \<and> origin_triple P s = Some t"
    then obtain s where s: "s \<in> set configured" "\<exists>t. origin_triple P h = Some t \<and> origin_triple P s = Some t"
      by blast
    from img [OF s(1)] obtain x where "x \<in> set allowed" "origin_parse P s = Ok x" by blast
    with m [of s x h] s(2) show "\<exists>x \<in> set allowed. matches_header P x h" by blast
  qed
  with assms(2) show ?thesis by (auto simp: on_request_def split: option.splits)
qed

text \<open>A URL parser that knows one origin, with and without its default port.\<close>

definition demo_url_parse :: "string \<Rightarrow> url option" where
  "demo_url_parse s = (if s = ''https://A.io'' \<or> s = ''https://a.io/''
     then Some \<lparr>url_scheme = ''https'', url_host_str = Some ''a.io'', url_path = ''/'', url_query = None,
       url_fragment = None, url_port = None\<rparr> else None)"

theorem origin_check_exact_witness:
  "\<exists>allowed. origin_parse demo_url_parse ''https://A.io'' = Ok allowed \<and>
     on_request demo_url_parse [allowed] (Some ''https://a.io/'') \<and>
     \<not> on_request demo_url_parse [allowed] (Some ''https://b.io'')"
proof -
  obtain x where x: "origin_parse demo_url_parse ''https://A.io'' = Ok x"
    by (simp add: origin_parse_def demo_url_parse_def)
  then have l: "list_all2 (\<lambda>s y. origin_parse demo_url_parse s = Ok y) [''https://A.io''] [x]" by simp
  have "on_request demo_url_parse [x] (Some ''https://a.io/'')"
    unfolding origin_check_exact [OF l, simplified] by (simp add: origin_triple_def demo_url_parse_def)
  moreover have "\<not> on_request demo_url_parse [x] (Some ''https://b.io'')"
    unfolding origin_check_exact [OF l, simplified] by (simp add: origin_triple_def demo_url_parse_def)
  ultimately show ?thesis using x by blast
qed

section \<open>The stream adapter\<close>

datatype ws_message = WsBinary bytes | WsText bytes | WsClose | WsPing bytes | WsPong bytes | WsFrame bytes

text \<open>What polling the inner WebSocket for the next message answers; after the last element the
  stream is closed.\<close>

datatype ws_poll = WsPending | WsItem ws_message | WsError

datatype 'a poll = Pending | Ready "io_error + 'a"

record ws_stream =
  inner :: "ws_poll list"
  read_buf :: bytes
  read_pos :: nat
  write_buf :: bytes
  ws_sent :: "ws_message list"

definition ws_new :: "ws_poll list \<Rightarrow> ws_stream" where
  "ws_new i = \<lparr>inner = i, read_buf = [], read_pos = 0, write_buf = [], ws_sent = []\<rparr>"

text \<open>\<open>poll_read\<close> into a buffer with room for \<open>cap\<close> bytes; an empty answer is end of file.\<close>

function ws_poll_read :: "nat \<Rightarrow> ws_stream \<Rightarrow> bytes poll \<times> ws_stream" where
  "ws_poll_read cap me =
    (if read_pos me < length (read_buf me)
     then (let remaining = drop (read_pos me) (read_buf me);
               to_copy = min (length remaining) cap;
               pos = read_pos me + to_copy
           in (Ready (Ok (take to_copy remaining)),
               if length (read_buf me) \<le> pos then me\<lparr>read_buf := [], read_pos := 0\<rparr>
               else me\<lparr>read_pos := pos\<rparr>))
     else (case inner me of
        [] \<Rightarrow> (Ready (Ok []), me)
      | WsPending # r \<Rightarrow> (Pending, me\<lparr>inner := r\<rparr>)
      | WsError # r \<Rightarrow> (Ready (Err BrokenPipe), me\<lparr>inner := r\<rparr>)
      | WsItem (WsBinary d) # r \<Rightarrow>
          if d = [] then (Ready (Ok []), me\<lparr>inner := r\<rparr>)
          else ws_poll_read cap (me\<lparr>inner := r, read_buf := d, read_pos := 0\<rparr>)
      | WsItem (WsText d) # r \<Rightarrow>
          if d = [] then (Ready (Ok []), me\<lparr>inner := r\<rparr>)
          else ws_poll_read cap (me\<lparr>inner := r, read_buf := d, read_pos := 0\<rparr>)
      | WsItem WsClose # r \<Rightarrow> (Ready (Ok []), me\<lparr>inner := r\<rparr>)
      | WsItem (WsPing _) # r \<Rightarrow> ws_poll_read cap (me\<lparr>inner := r\<rparr>)
      | WsItem (WsPong _) # r \<Rightarrow> ws_poll_read cap (me\<lparr>inner := r\<rparr>)
      | WsItem (WsFrame _) # r \<Rightarrow> ws_poll_read cap (me\<lparr>inner := r\<rparr>)))"
  by pat_completeness auto
termination
  by (relation "measure (\<lambda>(cap, me). length (inner me))") auto

declare ws_poll_read.simps [simp del]

definition ws_poll_write :: "bytes \<Rightarrow> ws_stream \<Rightarrow> nat poll \<times> ws_stream" where
  "ws_poll_write buf me = (Ready (Ok (length buf)), me\<lparr>write_buf := write_buf me @ buf\<rparr>)"

text \<open>\<open>poll_flush\<close>; \<open>ready\<close>, \<open>send\<close> and \<open>fl\<close> are the answers of the inner sink to \<open>poll_ready\<close>,
  \<open>start_send\<close> and \<open>poll_flush\<close>.\<close>

definition ws_poll_flush :: "unit poll \<Rightarrow> io_error + unit \<Rightarrow> unit poll \<Rightarrow> ws_stream \<Rightarrow> unit poll \<times> ws_stream" where
  "ws_poll_flush ready send fl me =
    (let finish = (\<lambda>m. (case fl of Pending \<Rightarrow> Pending | Ready (Ok _) \<Rightarrow> Ready (Ok ())
                        | Ready (Err _) \<Rightarrow> Ready (Err BrokenPipe), m))
     in if write_buf me = [] then finish me
        else (case ready of
           Pending \<Rightarrow> (Pending, me)
         | Ready (Err _) \<Rightarrow> (Ready (Err BrokenPipe), me)
         | Ready (Ok _) \<Rightarrow>
             (let payload = write_buf me; me1 = me\<lparr>write_buf := []\<rparr>
              in case send of
                   Err _ \<Rightarrow> (Ready (Err BrokenPipe), me1)
                 | Ok _ \<Rightarrow> finish (me1\<lparr>ws_sent := ws_sent me @ [WsBinary payload]\<rparr>))))"

definition ws_poll_shutdown :: "unit poll \<Rightarrow> ws_stream \<Rightarrow> unit poll \<times> ws_stream" where
  "ws_poll_shutdown close me = (case close of Pending \<Rightarrow> Pending | Ready (Ok _) \<Rightarrow> Ready (Ok ())
     | Ready (Err _) \<Rightarrow> Ready (Err BrokenPipe), me)"

subsection \<open>Reading\<close>

text \<open>The bytes an inner stream carries before the reader sees the end.\<close>

fun ws_payload :: "ws_poll list \<Rightarrow> bytes" where
  "ws_payload [] = []"
| "ws_payload (WsPending # r) = ws_payload r"
| "ws_payload (WsError # r) = []"
| "ws_payload (WsItem (WsBinary d) # r) = (if d = [] then [] else d @ ws_payload r)"
| "ws_payload (WsItem (WsText d) # r) = (if d = [] then [] else d @ ws_payload r)"
| "ws_payload (WsItem WsClose # r) = []"
| "ws_payload (WsItem (WsPing _) # r) = ws_payload r"
| "ws_payload (WsItem (WsPong _) # r) = ws_payload r"
| "ws_payload (WsItem (WsFrame _) # r) = ws_payload r"

definition ws_remaining :: "ws_stream \<Rightarrow> bytes" where
  "ws_remaining me = drop (read_pos me) (read_buf me) @ ws_payload (inner me)"

text \<open>One call of \<open>poll_read\<close> takes the next bytes, or says that there are none.\<close>

lemma ws_poll_read_spec:
  assumes "0 < cap"
  shows "case ws_poll_read cap me of
      (Ready (Ok b), me') \<Rightarrow> (if b = [] then ws_remaining me = []
         else ws_remaining me = b @ ws_remaining me' \<and> length b \<le> cap)
    | (Ready (Err e), me') \<Rightarrow> e = BrokenPipe \<and> ws_remaining me = []
    | (Pending, me') \<Rightarrow> ws_remaining me' = ws_remaining me \<and> length (inner me') < length (inner me)"
  using assms
proof (induction cap me rule: ws_poll_read.induct)
  case (1 cap me)
  show ?case
  proof (cases "read_pos me < length (read_buf me)")
    case True
    then show ?thesis using "1.prems"
      by (subst ws_poll_read.simps) (auto simp: ws_remaining_def Let_def append_take_drop_id drop_drop [symmetric]
          add.commute simp del: drop_drop simp flip: append_assoc)
  next
    case False
    then have r: "ws_remaining me = ws_payload (inner me)" by (simp add: ws_remaining_def)
    show ?thesis
    proof (cases "inner me")
      case Nil
      with False r show ?thesis by (subst ws_poll_read.simps) simp
    next
      case (Cons x xs)
      show ?thesis
      proof (cases x)
        case WsPending
        with False r Cons show ?thesis by (subst ws_poll_read.simps) (simp add: ws_remaining_def)
      next
        case WsError
        with False r Cons show ?thesis by (subst ws_poll_read.simps) simp
      next
        case (WsItem m)
        show ?thesis
        proof (cases m)
          case (WsBinary d)
          with "1.IH"(1) [OF False Cons WsItem WsBinary] "1.prems" False r Cons WsItem show ?thesis
            by (cases "d = []"; subst ws_poll_read.simps)
              (auto simp: ws_remaining_def split: prod.splits poll.splits sum.splits)
        next
          case (WsText d)
          with "1.IH"(2) [OF False Cons WsItem WsText] "1.prems" False r Cons WsItem show ?thesis
            by (cases "d = []"; subst ws_poll_read.simps)
              (auto simp: ws_remaining_def split: prod.splits poll.splits sum.splits)
        next
          case WsClose
          with False r Cons WsItem show ?thesis by (subst ws_poll_read.simps) simp
        next
          case (WsPing d)
          with "1.IH"(3) [OF False Cons WsItem WsPing] "1.prems" False r Cons WsItem show ?thesis
            by (subst ws_poll_read.simps) (auto simp: ws_remaining_def split: prod.splits poll.splits sum.splits)
        next
          case (WsPong d)
          with "1.IH"(4) [OF False Cons WsItem WsPong] "1.prems" False r Cons WsItem show ?thesis
            by (subst ws_poll_read.simps) (auto simp: ws_remaining_def split: prod.splits poll.splits sum.splits)
        next
          case (WsFrame d)
          with "1.IH"(5) [OF False Cons WsItem WsFrame] "1.prems" False r Cons WsItem show ?thesis
            by (subst ws_poll_read.simps) (auto simp: ws_remaining_def split: prod.splits poll.splits sum.splits)
        qed
      qed
    qed
  qed
qed

text \<open>A reader that polls with buffers of \<open>cap\<close> bytes until it sees the end or an error.\<close>

function ws_read_all :: "nat \<Rightarrow> ws_stream \<Rightarrow> bytes" where
  "ws_read_all cap me = (if cap = 0 then [] else case ws_poll_read cap me of
      (Pending, me') \<Rightarrow> ws_read_all cap me'
    | (Ready (Err _), me') \<Rightarrow> []
    | (Ready (Ok b), me') \<Rightarrow> if b = [] then [] else b @ ws_read_all cap me')"
  by pat_completeness auto
termination
proof (relation "measures [\<lambda>(cap, me). length (ws_remaining me), \<lambda>(cap, me). length (inner me)]", goal_cases)
  case 1
  then show ?case by simp
next
  case (2 cap me p me')
  then show ?case using ws_poll_read_spec [of cap me] by (auto split: poll.splits)
next
  case (3 cap me p me' r b)
  then have "ws_poll_read cap me = (Ready (Ok b), me')" by simp
  with 3 ws_poll_read_spec [of cap me] have "ws_remaining me = b @ ws_remaining me'" by simp
  with 3 show ?case by simp
qed

declare ws_read_all.simps [simp del]

lemma ws_read_all_remaining: "0 < cap \<Longrightarrow> ws_read_all cap me = ws_remaining me"
proof (induction cap me rule: ws_read_all.induct)
  case (1 cap me)
  show ?case
  proof (cases "ws_poll_read cap me")
    case (Pair p me')
    note spec = ws_poll_read_spec [OF "1.prems", of me, unfolded Pair]
    show ?thesis
    proof (cases p)
      case Pending
      with "1.IH"(1) [of p me'] Pair "1.prems" spec show ?thesis
        by (subst ws_read_all.simps) simp
    next
      case (Ready r)
      with "1.IH"(2) "1.prems" Pair spec show ?thesis
        by (cases r; subst ws_read_all.simps) (auto split: if_splits)
    qed
  qed
qed

subsection \<open>Writing\<close>

text \<open>The writes between two flushes, and a sequence of such batches on a sink that accepts.\<close>

definition ws_batch :: "ws_stream \<Rightarrow> bytes list \<Rightarrow> ws_stream" where
  "ws_batch me ws = snd (ws_poll_flush (Ready (Ok ())) (Ok ()) (Ready (Ok ()))
     (foldl (\<lambda>m w. snd (ws_poll_write w m)) me ws))"

lemma ws_writes: "foldl (\<lambda>m w. snd (ws_poll_write w m)) me ws = me\<lparr>write_buf := write_buf me @ concat ws\<rparr>"
  by (induction ws arbitrary: me) (simp_all add: ws_poll_write_def)

lemma ws_batch_sent:
  "write_buf me = [] \<Longrightarrow> ws_batch me ws =
     me\<lparr>ws_sent := ws_sent me @ (if concat ws = [] then [] else [WsBinary (concat ws)])\<rparr>"
  by (simp add: ws_batch_def ws_writes ws_poll_flush_def Let_def)

lemma ws_batches_sent:
  "write_buf me = [] \<Longrightarrow> foldl ws_batch me wss =
     me\<lparr>ws_sent := ws_sent me @ concat (map (\<lambda>ws. if concat ws = [] then [] else [WsBinary (concat ws)]) wss)\<rparr>"
  by (induction wss arbitrary: me) (simp_all add: ws_batch_sent)

lemma ws_payload_items:
  "ws_payload (map WsItem (concat (map (\<lambda>ws. if concat ws = [] then [] else [WsBinary (concat ws)]) wss))) =
     concat (concat wss)"
proof (induction wss)
  case Nil
  then show ?case by simp
next
  case (Cons ws wss)
  then show ?case by (cases "concat ws = []") (simp_all del: concat_eq_Nil_conv)
qed

lemma ws_arriving_payload:
  assumes "filter (\<lambda>x. x \<noteq> WsPending) arriving = map WsItem (ws_sent (foldl ws_batch (ws_new i) wss))"
  shows "ws_payload arriving = concat (concat wss)"
proof -
  have sent: "ws_sent (foldl ws_batch (ws_new i) wss) =
      concat (map (\<lambda>ws. if concat ws = [] then [] else [WsBinary (concat ws)]) wss)"
    by (subst ws_batches_sent) (simp_all add: ws_new_def)
  have "ws_payload arriving = ws_payload (filter (\<lambda>x. x \<noteq> WsPending) arriving)"
    by (induction arriving rule: ws_payload.induct) auto
  also have "\<dots> = concat (concat wss)" unfolding assms sent by (rule ws_payload_items)
  finally show ?thesis .
qed

text \<open>The adapter is transparent: whatever is written on one end, in any number of writes and
  flushes, is read on the other end as the same bytes in the same order, whatever the size of the
  reader's buffer and however often the socket has nothing to read in between; a write of nothing
  puts no message on the wire.\<close>

theorem ws_stream_transparent:
  assumes "0 < cap"
    and "filter (\<lambda>x. x \<noteq> WsPending) arriving = map WsItem (ws_sent (foldl ws_batch (ws_new i) wss))"
  shows "ws_read_all cap (ws_new arriving) = concat (concat wss)"
  using ws_arriving_payload [OF assms(2)]
  by (simp add: ws_read_all_remaining [OF assms(1)] ws_remaining_def ws_new_def)

theorem ws_stream_transparent_witness:
  "ws_read_all 1 (ws_new [WsItem (WsBinary [1, 2, 3]), WsPending, WsItem (WsBinary [4])]) = [1, 2, 3, 4]"
proof -
  have f: "filter (\<lambda>x. x \<noteq> WsPending) [WsItem (WsBinary [1, 2, 3]), WsPending, WsItem (WsBinary [4])] =
     map WsItem (ws_sent (foldl ws_batch (ws_new []) [[[1], [2, 3]], [], [[4]]]))"
    by (simp add: ws_batch_sent ws_new_def)
  from ws_stream_transparent [OF _ f, of 1] show ?thesis by simp
qed

text \<open>An empty binary or text message ends the stream: the reader sees end of file at the
  message and never the ones that follow, although the peer did not close.\<close>

theorem empty_message_is_eof:
  assumes "0 < cap" and "m = WsBinary [] \<or> m = WsText []" and "\<forall>x \<in> set before. \<exists>d. x = WsItem (WsBinary d) \<and> d \<noteq> []"
  shows "ws_read_all cap (ws_new (before @ WsItem m # after)) = ws_read_all cap (ws_new before)"
proof -
  have "ws_payload (before @ WsItem m # after) = ws_payload before"
    using assms(3) by (induction before) (use assms(2) in auto)
  then show ?thesis by (simp add: ws_read_all_remaining [OF assms(1)] ws_remaining_def ws_new_def)
qed

theorem empty_message_is_eof_witness:
  "ws_read_all 8 (ws_new ([WsItem (WsBinary [1])] @ WsItem (WsBinary []) # [WsItem (WsBinary [2])])) =
   ws_read_all 8 (ws_new [WsItem (WsBinary [1])])"
  by (rule empty_message_is_eof) simp_all

end
