(* ===== verification/Vk_Share.thy ===== *)
theory Vk_Share
  imports Crypto_Prims "HOL-Library.AList"
begin

text \<open>
  One-time download tokens for the bridge's verifying key, \<open>latticeshield-bridge/src/vk_share.rs\<close>.
  The store is the hash map behind the mutex, as an association list with distinct keys; each
  operation runs under the lock, so a history is a sequence of operations. \<open>Instant\<close> is a number of
  clock ticks; the token is the UUID that \<open>Uuid::new_v4\<close> returned.
\<close>

definition DEFAULT_TOKEN_TTL_SECS :: nat where "DEFAULT_TOKEN_TTL_SECS = 600"
definition DEFAULT_TOKEN_MAX :: nat where "DEFAULT_TOKEN_MAX = 1000"

datatype vk_share_error = TooManyTokens

record vk_share_entry =
  vk_hex :: string
  vk_fingerprint :: string
  expires_at :: nat
  used :: bool

type_synonym vk_share_store = "(string \<times> vk_share_entry) list"

definition new_store :: vk_share_store where "new_store = []"

definition sha256_hex :: "sym_prims \<Rightarrow> bytes \<Rightarrow> string" where
  "sha256_hex S b = hex_encode (sha256 S b)"

definition create_token ::
  "sym_prims \<Rightarrow> string \<Rightarrow> nat \<Rightarrow> vk_share_store \<Rightarrow> bytes \<Rightarrow> nat \<Rightarrow> nat \<Rightarrow>
   (vk_share_error + string \<times> string) \<times> vk_share_store" where
  "create_token S token now store vk_bytes ttl max_tokens =
    (let vkh = hex_encode vk_bytes;
         fpr = sha256_hex S vk_bytes;
         guard = filter (\<lambda>(_, v). now < expires_at v) store
     in if max_tokens \<le> length guard then (Err TooManyTokens, guard)
        else (Ok (token, fpr),
              AList.update token \<lparr>vk_hex = vkh, vk_fingerprint = fpr, expires_at = now + ttl, used = False\<rparr> guard))"

definition http_json_response :: "nat \<Rightarrow> string \<Rightarrow> string" where
  "http_json_response status body =
    (let reason = (if status = 200 then ''OK'' else if status = 404 then ''Not Found''
                   else if status = 410 then ''Gone'' else ''Error'');
         crlf = [CHR 0x0D, CHR 0x0A]
     in ''HTTP/1.1 '' @ dec status @ '' '' @ reason @ crlf @ ''Content-Type: application/json'' @ crlf @
        ''Content-Length: '' @ dec (length body) @ crlf @ ''Connection: close'' @ crlf @ crlf @ body)"

definition dq :: string where "dq = [CHR 0x22]"

definition json_error :: "string \<Rightarrow> string" where
  "json_error msg = ''{'' @ dq @ ''error'' @ dq @ '':'' @ dq @ msg @ dq @ ''}''"

definition vk_body :: "vk_share_entry \<Rightarrow> string" where
  "vk_body entry = ''{'' @ dq @ ''server_vk'' @ dq @ '':'' @ dq @ vk_hex entry @ dq @ '','' @
     dq @ ''fingerprint'' @ dq @ '':'' @ dq @ vk_fingerprint entry @ dq @ ''}''"

definition vk_response :: "string \<Rightarrow> nat \<Rightarrow> vk_share_store \<Rightarrow> string \<times> vk_share_store" where
  "vk_response token now store = (case map_of store token of
      None \<Rightarrow> (http_json_response 404 (json_error ''token not found''), store)
    | Some entry \<Rightarrow>
        if expires_at entry < now
        then (http_json_response 410 (json_error ''token expired''), AList.delete token store)
        else if used entry
        then (http_json_response 410 (json_error ''token already used''), store)
        else (http_json_response 200 (vk_body entry), AList.update token (entry\<lparr>used := True\<rparr>) store))"

section \<open>The store\<close>

definition store_wf :: "vk_share_store \<Rightarrow> bool" where
  "store_wf store \<longleftrightarrow> distinct (map fst store)"

lemma map_of_filter_wf:
  "distinct (map fst s) \<Longrightarrow> map_of (filter (\<lambda>(_, v). P v) s) k =
     (case map_of s k of None \<Rightarrow> None | Some v \<Rightarrow> if P v then Some v else None)"
proof (induction s)
  case Nil
  then show ?case by simp
next
  case (Cons x s)
  then have "map_of s (fst x) = None" by (simp add: map_of_eq_None_iff)
  with Cons show ?case by (cases x) (auto split: option.splits)
qed

lemma store_wf_filter: "store_wf s \<Longrightarrow> store_wf (filter P s)"
  by (simp add: store_wf_def distinct_map_filter)

lemma create_token_wf: "store_wf s \<Longrightarrow> store_wf (snd (create_token S t now s vk ttl m))"
  by (simp add: create_token_def Let_def store_wf_filter distinct_update store_wf_def distinct_map_filter)

lemma vk_response_wf: "store_wf s \<Longrightarrow> store_wf (snd (vk_response t now s))"
  by (auto simp: vk_response_def store_wf_def distinct_update distinct_delete split: option.splits)

lemma length_update_new: "length (AList.update k v s) \<le> Suc (length s)"
  by (induction s) auto

lemma length_update_old: "map_of s k \<noteq> None \<Longrightarrow> length (AList.update k v s) = length s"
  by (induction s) (auto split: if_splits)

text \<open>The responses that hand out a key, and the ones that refuse, differ in their status line.\<close>

definition is_200 :: "string \<Rightarrow> bool" where
  "is_200 r \<longleftrightarrow> take 13 r = ''HTTP/1.1 200 ''"

lemma dec_values: "dec 200 = ''200''" "dec 404 = ''404''" "dec 410 = ''410''"
  by code_simp+

lemma is_200_response: "is_200 (http_json_response 200 b)" "\<not> is_200 (http_json_response 404 b)"
  "\<not> is_200 (http_json_response 410 b)"
  by (simp_all add: is_200_def http_json_response_def Let_def dec_values)

section \<open>Histories\<close>

datatype store_op =
    Create (op_token: string) (op_vk: bytes) (op_ttl: nat) (op_max: nat) (op_now: nat)
  | Get (op_token: string) (op_now: nat)

text \<open>One operation: the new store, the tokens it created and the tokens it served with status 200.\<close>

fun store_step :: "sym_prims \<Rightarrow> vk_share_store \<Rightarrow> store_op \<Rightarrow> vk_share_store \<times> string list \<times> string list" where
  "store_step S s (Create t vk ttl m now) = (case create_token S t now s vk ttl m of
      (Ok _, s') \<Rightarrow> (s', [t], []) | (Err _, s') \<Rightarrow> (s', [], []))"
| "store_step S s (Get t now) = (case vk_response t now s of
      (r, s') \<Rightarrow> (s', [], if is_200 r then [t] else []))"

primrec store_run :: "sym_prims \<Rightarrow> vk_share_store \<Rightarrow> store_op list \<Rightarrow> vk_share_store \<times> string list \<times> string list" where
  "store_run S s [] = (s, [], [])"
| "store_run S s (x # xs) = (case store_step S s x of (s', c, g) \<Rightarrow>
     (case store_run S s' xs of (s'', c', g') \<Rightarrow> (s'', c @ c', g @ g')))"

text \<open>Whether a token can still be served.\<close>

definition live :: "vk_share_store \<Rightarrow> string \<Rightarrow> nat" where
  "live s t = (case map_of s t of Some e \<Rightarrow> if used e then 0 else 1 | None \<Rightarrow> 0)"

lemma store_step_wf: "store_wf s \<Longrightarrow> store_wf (fst (store_step S s x))"
  by (cases x) (auto split: prod.splits sum.splits dest: create_token_wf vk_response_wf
      [unfolded vk_response_def] simp: create_token_wf vk_response_wf split_beta)

lemma live_update: "live (AList.update k v s) t = (if t = k then (if used v then 0 else 1) else live s t)"
  by (simp add: live_def update_conv)

lemma live_filter: "store_wf s \<Longrightarrow> live (filter (\<lambda>(_, v). P v) s) t \<le> live s t"
  by (auto simp: live_def store_wf_def map_of_filter_wf split: option.splits)

lemma live_delete: "live (AList.delete k s) t \<le> live s t"
  by (auto simp: live_def delete_conv split: option.splits)

text \<open>Serving a token uses it up; only creating it makes it available.\<close>

lemma store_step_live:
  assumes "store_wf s" "store_step S s x = (s', c, g)"
  shows "count_list g t + live s' t \<le> live s t + count_list c t"
proof (cases x)
  case (Create k vk ttl m now)
  let ?g = "filter (\<lambda>(_, v). now < expires_at v) s"
  have "live ?g t \<le> live s t" by (rule live_filter [OF assms(1)])
  with assms(2) Create show ?thesis
    by (auto simp: create_token_def Let_def live_update split: if_splits)
next
  case (Get k now)
  show ?thesis
  proof (cases "map_of s k")
    case None
    with assms(2) Get show ?thesis by (auto simp: vk_response_def is_200_response)
  next
    case (Some e)
    have "live s k = (if used e then 0 else 1)" using Some by (simp add: live_def)
    with Some assms(2) Get live_delete [of k s t] show ?thesis
      by (auto simp: vk_response_def is_200_response live_update split: if_splits)
  qed
qed

lemma store_run_live:
  "store_wf s \<Longrightarrow> store_run S s xs = (s', c, g) \<Longrightarrow> count_list g t + live s' t \<le> live s t + count_list c t"
proof (induction xs arbitrary: s c g)
  case Nil
  then show ?case by simp
next
  case (Cons x xs)
  obtain s1 c1 g1 where st: "store_step S s x = (s1, c1, g1)" by (metis prod.exhaust)
  obtain c2 g2 where run: "store_run S s1 xs = (s', c2, g2)" "c = c1 @ c2" "g = g1 @ g2"
    using Cons.prems(2) st by (auto split: prod.splits)
  have "store_wf s1" using store_step_wf [OF Cons.prems(1), of S x] st by simp
  from Cons.IH [OF this run(1)] store_step_live [OF Cons.prems(1) st, of t] run(2,3)
  show ?case by simp
qed

lemma store_run_single_use:
  assumes "store_run S new_store history = (s', created, served)" and "distinct created"
  shows "distinct served \<and> set served \<subseteq> set created"
proof -
  have c: "count_list served t \<le> count_list created t" for t
    using store_run_live [of new_store S history s' created served t] assms(1)
    by (simp add: store_wf_def new_store_def live_def)
  have "count_list served t \<le> 1" for t
    using c [of t] assms(2) by (metis distinct_count_list le_trans)
  then have "distinct served" by (simp add: distinct_count_list)
  moreover have "set served \<subseteq> set created"
  proof
    fix t assume "t \<in> set served"
    then have "count_list served t \<noteq> 0" by (simp add: count_list_0_iff)
    with c [of t] have "count_list created t \<noteq> 0" by simp
    then show "t \<in> set created" by (simp add: count_list_0_iff)
  qed
  ultimately show ?thesis by blast
qed

text \<open>Tokens are single-use: in every history of the store, a token that was created at most
  once (the UUIDs are fresh) is answered with status 200, handing out the key, at most once; a token
  that was never created is never served.\<close>

theorem token_served_at_most_once:
  assumes "store_run S new_store history = (s', created, served)" and "distinct created"
  shows "distinct served \<and> set served \<subseteq> set created"
  using assms by (rule store_run_single_use)

theorem token_served_at_most_once_witness:
  "snd (store_run toy_sym new_store [Create ''a'' [1] 600 10 0, Get ''a'' 5, Get ''a'' 6]) = ([''a''], [''a'']) \<and>
   distinct [''a''] \<and> set [''a''] \<subseteq> set [''a'']"
proof -
  have r: "store_run toy_sym new_store [Create ''a'' [1] 600 10 0, Get ''a'' 5, Get ''a'' 6] =
      (fst (store_run toy_sym new_store [Create ''a'' [1] 600 10 0, Get ''a'' 5, Get ''a'' 6]), [''a''], [''a''])"
    by (simp add: new_store_def create_token_def vk_response_def is_200_response Let_def)
  from token_served_at_most_once [OF r] show ?thesis by (subst r) simp
qed

text \<open>A created token can be used: it hands out the key with its fingerprint until the
  moment it expires, and after that it answers 410 and is removed.\<close>

theorem created_token_lifetime:
  assumes "create_token S t now s vk ttl m = (Ok (t', fpr), s')"
  shows "t' = t \<and> fpr = sha256_hex S vk \<and>
    (\<forall>later. if later \<le> now + ttl
       then fst (vk_response t later s') = http_json_response 200 (''{'' @ dq @ ''server_vk'' @ dq @ '':'' @ dq @
          hex_encode vk @ dq @ '','' @ dq @ ''fingerprint'' @ dq @ '':'' @ dq @ fpr @ dq @ ''}'')
       else vk_response t later s' = (http_json_response 410 (json_error ''token expired''), AList.delete t s'))"
  using assms by (auto simp: create_token_def vk_response_def vk_body_def Let_def update_conv split: if_splits)

theorem created_token_lifetime_witness:
  "\<exists>s' fpr. create_token toy_sym ''a'' 7 new_store [1] 600 10 = (Ok (''a'', fpr), s') \<and>
     is_200 (fst (vk_response ''a'' 607 s')) \<and> \<not> is_200 (fst (vk_response ''a'' 608 s'))"
proof -
  obtain s' fpr where c: "create_token toy_sym ''a'' 7 new_store [1] 600 10 = (Ok (''a'', fpr), s')"
    by (simp add: create_token_def new_store_def Let_def)
  note l = created_token_lifetime [OF c]
  from l have "is_200 (fst (vk_response ''a'' 607 s'))" by (auto simp: is_200_response dest: spec [of _ 607])
  moreover from l have "\<not> is_200 (fst (vk_response ''a'' 608 s'))"
    by (auto simp: is_200_response dest: spec [of _ 608])
  ultimately show ?thesis using c by blast
qed

text \<open>The store stays within its capacity: whatever the history, as long as every creation
  asks for the same limit, the store never holds more entries than that limit, and its keys stay
  distinct.\<close>

theorem store_within_capacity:
  assumes "store_wf s" and "length s \<le> limit"
    and "\<forall>x \<in> set history. case x of Create t vk ttl m now \<Rightarrow> m = limit | Get t now \<Rightarrow> True"
  shows "store_wf (fst (store_run S s history)) \<and> length (fst (store_run S s history)) \<le> limit"
  using assms
proof (induction history arbitrary: s)
  case Nil
  then show ?case by simp
next
  case (Cons x xs)
  let ?s = "fst (store_step S s x)"
  have wf: "store_wf ?s" by (rule store_step_wf [OF Cons.prems(1)])
  have len: "length ?s \<le> limit"
  proof (cases x)
    case (Create k vk ttl m now)
    let ?g = "filter (\<lambda>(_, v). now < expires_at v) s"
    have "length ?g \<le> limit" using length_filter_le Cons.prems(2) le_trans by blast
    moreover have "length (AList.update k e ?g) \<le> limit" if "\<not> limit \<le> length ?g" for e
      using length_update_new [of k e ?g] that by linarith
    ultimately show ?thesis using Create Cons.prems(3) by (simp add: create_token_def Let_def)
  next
    case (Get k now)
    have "length (AList.delete k s) \<le> limit"
      using length_delete_le [of k s] Cons.prems(2) by simp
    with Get Cons.prems(2) show ?thesis
      by (auto simp: vk_response_def length_update_old split: option.splits prod.splits)
  qed
  have "fst (store_run S s (x # xs)) = fst (store_run S ?s xs)" by (auto split: prod.splits)
  with Cons.IH [OF wf len] Cons.prems(3) show ?case by simp
qed

theorem store_within_capacity_witness:
  "length (fst (store_run toy_sym new_store [Create ''a'' [1] 60 1 0, Create ''b'' [1] 60 1 0, Get ''b'' 0])) \<le> 1"
  using store_within_capacity [of new_store 1 "[Create ''a'' [1] 60 1 0, Create ''b'' [1] 60 1 0, Get ''b'' 0]" toy_sym]
  by (simp add: new_store_def store_wf_def)

end
