(* ===== verification/Bridge_Config.thy ===== *)
theory Bridge_Config
  imports Ws Identity Vk_Share
begin

text \<open>
  The bridge's configuration, \<open>latticeshield-bridge/src/config.rs\<close>: the sections with their
  defaults, \<open>Config::validate\<close> section by section, and \<open>Config::load\<close>. The TOML decoder (see
  \<open>Config_File\<close>) and the URL parser are parameters; the process environment is a partial function. Log messages are not
  modelled. Durations are seconds; a path is a string.
\<close>

section \<open>Sections and defaults\<close>

record server_config =
  srv_listen_addr :: string
  srv_backend_addr :: string
  srv_max_frame_size :: nat
  srv_handshake_timeout_secs :: u64
  srv_max_connections_per_ip :: u32

definition default_server_config :: server_config where
  "default_server_config = \<lparr>srv_listen_addr = ''0.0.0.0:8443'', srv_backend_addr = ''127.0.0.1:8080'',
     srv_max_frame_size = 64 * 1024, srv_handshake_timeout_secs = 10, srv_max_connections_per_ip = 50\<rparr>"

record admin_config =
  adm_enabled :: bool
  adm_listen_addr :: string
  adm_control_plane_vk_path :: "string option"
  adm_rate_limit_per_second :: u32
  adm_handshake_timeout_secs :: u64

definition default_admin_config :: admin_config where
  "default_admin_config = \<lparr>adm_enabled = False, adm_listen_addr = ''127.0.0.1:8445'',
     adm_control_plane_vk_path = None, adm_rate_limit_per_second = 5, adm_handshake_timeout_secs = 10\<rparr>"

record auth_config =
  auth_client_vk_path :: "string option"
  auth_require_client_auth :: bool

definition default_auth_config :: auth_config where
  "default_auth_config = \<lparr>auth_client_vk_path = None, auth_require_client_auth = True\<rparr>"

record control_plane_config =
  cp_enabled :: bool
  cp_endpoint :: string
  cp_agent_name :: string
  cp_heartbeat_interval_secs :: u64
  cp_install_token :: "string option"
  cp_cloud_vk_path :: "string option"

definition default_control_plane_config :: control_plane_config where
  "default_control_plane_config = \<lparr>cp_enabled = False, cp_endpoint = [], cp_agent_name = [],
     cp_heartbeat_interval_secs = 30, cp_install_token = None, cp_cloud_vk_path = None\<rparr>"

record key_rotation_config =
  kr_enabled :: bool
  kr_max_bytes_per_key :: u64
  kr_max_seconds_per_key :: u64

definition default_key_rotation_config :: key_rotation_config where
  "default_key_rotation_config = \<lparr>kr_enabled = False, kr_max_bytes_per_key = 10737418240,
     kr_max_seconds_per_key = 86400\<rparr>"

record tls_config =
  tls_cfg_enabled :: bool
  tls_cfg_listen_addr :: string
  tls_cfg_cert_path :: string
  tls_cfg_key_path :: string

definition default_tls_config :: tls_config where
  "default_tls_config = \<lparr>tls_cfg_enabled = False, tls_cfg_listen_addr = ''0.0.0.0:8440'',
     tls_cfg_cert_path = ''./keys/tls.crt'', tls_cfg_key_path = ''./keys/tls.key''\<rparr>"

record quic_config =
  quic_cfg_enabled :: bool
  quic_cfg_listen_addr :: string
  quic_cfg_cert_path :: "string option"
  quic_cfg_key_path :: "string option"

definition default_quic_config :: quic_config where
  "default_quic_config = \<lparr>quic_cfg_enabled = False, quic_cfg_listen_addr = ''0.0.0.0:8441'',
     quic_cfg_cert_path = None, quic_cfg_key_path = None\<rparr>"

record ws_config =
  ws_cfg_enabled :: bool
  ws_cfg_listen_addr :: string
  ws_cfg_cert_path :: "string option"
  ws_cfg_key_path :: "string option"
  ws_cfg_allowed_origins :: "string list"
  ws_cfg_handshake_timeout_secs :: u64
  ws_cfg_max_connections_per_ip :: u32

definition default_ws_config :: ws_config where
  "default_ws_config = \<lparr>ws_cfg_enabled = False, ws_cfg_listen_addr = ''0.0.0.0:8446'',
     ws_cfg_cert_path = None, ws_cfg_key_path = None, ws_cfg_allowed_origins = [],
     ws_cfg_handshake_timeout_secs = 10, ws_cfg_max_connections_per_ip = 100\<rparr>"

text \<open>\<open>Config\<close>; \<open>CryptoConfig\<close>, \<open>MetricsConfig\<close> and \<open>LoggingConfig\<close> have one field each.\<close>

record config =
  server :: server_config
  crypto_signing_key_path :: string
  metrics_listen_addr :: string
  logging_level :: string
  control_plane :: control_plane_config
  key_rotation :: key_rotation_config
  tls :: tls_config
  quic :: quic_config
  auth :: auth_config
  admin :: admin_config
  websocket :: ws_config

definition default_config :: config where
  "default_config = \<lparr>server = default_server_config, crypto_signing_key_path = ''./keys/server.sk'',
     metrics_listen_addr = ''0.0.0.0:8444'', logging_level = ''info'',
     control_plane = default_control_plane_config, key_rotation = default_key_rotation_config,
     tls = default_tls_config, quic = default_quic_config, auth = default_auth_config,
     admin = default_admin_config, websocket = default_ws_config\<rparr>"

record valid_config =
  vc_listen_addr :: socket_addr
  vc_backend_addr :: socket_addr
  vc_metrics_addr :: socket_addr
  vc_max_frame_size :: nat
  vc_handshake_timeout_secs :: u64
  vc_max_connections_per_ip :: u32
  vc_signing_key_path :: string
  vc_log_level :: string
  vc_control_plane_enabled :: bool
  vc_control_plane_endpoint :: string
  vc_control_plane_agent_name :: string
  vc_heartbeat_interval :: u64
  vc_key_rotation_enabled :: bool
  vc_max_bytes_per_key :: u64
  vc_key_rotation_interval :: u64
  vc_tls_enabled :: bool
  vc_tls_listen_addr :: socket_addr
  vc_tls_cert_path :: string
  vc_tls_key_path :: string
  vc_quic_enabled :: bool
  vc_quic_listen_addr :: socket_addr
  vc_quic_cert_path :: string
  vc_quic_key_path :: string
  vc_client_auth_enabled :: bool
  vc_client_vk_path :: "string option"
  vc_admin_enabled :: bool
  vc_admin_listen_addr :: socket_addr
  vc_admin_control_plane_vk_path :: "string option"
  vc_admin_rate_limit_per_second :: u32
  vc_admin_handshake_timeout_secs :: u64
  vc_control_plane_install_token :: "string option"
  vc_cloud_vk_path :: "string option"
  vc_shutdown_timeout :: nat
  vc_ws_enabled :: bool
  vc_ws_listen_addr :: socket_addr
  vc_ws_cert_path :: string
  vc_ws_key_path :: string
  vc_ws_allowed_origins :: "normalized_origin list"
  vc_ws_handshake_timeout_secs :: u64
  vc_ws_max_connections_per_ip :: u32
  vc_vk_share_max_tokens :: nat

section \<open>Validation\<close>

datatype config_section = SServer | SMetrics | STls | SQuic | SAdmin | SWebsocket

datatype config_error =
    CannotRead io_error | InvalidToml
  | InvalidAddr config_section | InvalidBackendAddr
  | BadFrameSize nat | BadHandshakeTimeout config_section | BadMaxConnections | EmptySigningKeyPath
  | MissingEndpoint | InvalidEndpoint
  | BadMaxBytes u64 | BadMaxSeconds u64
  | MissingCert config_section | MissingKey config_section
  | Conflict config_section config_section
  | MissingClientVk | MissingControlPlaneVk | BadRateLimit
  | BadOrigin string origin_error

definition parse_addr :: "config_section \<Rightarrow> string \<Rightarrow> config_error + socket_addr" where
  "parse_addr sec s = (case parse_socket_addr s of None \<Rightarrow> Err (InvalidAddr sec) | Some a \<Rightarrow> Ok a)"

definition validate_server :: "config \<Rightarrow> config_error + socket_addr \<times> socket_addr \<times> socket_addr" where
  "validate_server c =
    and_then (parse_addr SServer (srv_listen_addr (server c))) (\<lambda>la.
    and_then (case parse_socket_addr (srv_backend_addr (server c)) of None \<Rightarrow> Err InvalidBackendAddr | Some a \<Rightarrow> Ok a) (\<lambda>ba.
    and_then (parse_addr SMetrics (metrics_listen_addr c)) (\<lambda>ma.
    and_then (bail_checks [
       (srv_max_frame_size (server c) < 1024 \<or> 16 * 1024 * 1024 < srv_max_frame_size (server c),
          BadFrameSize (srv_max_frame_size (server c))),
       (srv_handshake_timeout_secs (server c) < 1, BadHandshakeTimeout SServer),
       (srv_max_connections_per_ip (server c) = 0, BadMaxConnections),
       (crypto_signing_key_path c = [], EmptySigningKeyPath)]) (\<lambda>_.
    Ok (la, ba, ma)))))"

definition validate_control_plane :: "(string \<Rightarrow> url option) \<Rightarrow> control_plane_config \<Rightarrow> config_error + unit" where
  "validate_control_plane url_parse cp = bail_checks [
     (cp_enabled cp \<and> cp_endpoint cp = [], MissingEndpoint),
     (cp_enabled cp \<and> cp_endpoint cp \<noteq> [] \<and> url_parse (cp_endpoint cp) = None, InvalidEndpoint)]"

definition resolve_agent_name :: "(string \<Rightarrow> string option) \<Rightarrow> control_plane_config \<Rightarrow> string" where
  "resolve_agent_name env cp = (if cp_agent_name cp = []
     then (case env ''HOSTNAME'' of Some h \<Rightarrow> h | None \<Rightarrow> ''unknown'') else cp_agent_name cp)"

definition resolve_install_token :: "(string \<Rightarrow> string option) \<Rightarrow> control_plane_config \<Rightarrow> string option" where
  "resolve_install_token env cp =
    (let env_token = (case env ''INSTALL_TOKEN'' of Some v \<Rightarrow> if v = [] then None else Some v | None \<Rightarrow> None)
     in case env_token of Some t \<Rightarrow> Some t | None \<Rightarrow> cp_install_token cp)"

definition validate_key_rotation :: "key_rotation_config \<Rightarrow> config_error + unit" where
  "validate_key_rotation kr = bail_checks [
     (kr_max_bytes_per_key kr < 1048576, BadMaxBytes (kr_max_bytes_per_key kr)),
     (kr_max_seconds_per_key kr < 60, BadMaxSeconds (kr_max_seconds_per_key kr))]"

definition validate_tls :: "tls_config \<Rightarrow> socket_addr \<Rightarrow> socket_addr \<Rightarrow> config_error + socket_addr" where
  "validate_tls t la ma = and_then (parse_addr STls (tls_cfg_listen_addr t)) (\<lambda>ta.
     and_then (if tls_cfg_enabled t then bail_checks [
        (tls_cfg_cert_path t = [], MissingCert STls),
        (tls_cfg_key_path t = [], MissingKey STls),
        (ta = la, Conflict STls SServer),
        (ta = ma, Conflict STls SMetrics)] else Ok ()) (\<lambda>_. Ok ta))"

definition validate_quic ::
  "quic_config \<Rightarrow> socket_addr \<Rightarrow> socket_addr \<Rightarrow> bool \<Rightarrow> socket_addr \<Rightarrow> config_error + socket_addr" where
  "validate_quic c la ma tls_on ta = and_then (parse_addr SQuic (quic_cfg_listen_addr c)) (\<lambda>qa.
     and_then (if quic_cfg_enabled c then bail_checks [
        (quic_cfg_cert_path c = None, MissingCert SQuic),
        (quic_cfg_key_path c = None, MissingKey SQuic),
        (qa = la, Conflict SQuic SServer),
        (tls_on \<and> qa = ta, Conflict SQuic STls),
        (qa = ma, Conflict SQuic SMetrics)] else Ok ()) (\<lambda>_. Ok qa))"

definition validate_auth :: "auth_config \<Rightarrow> config_error + bool" where
  "validate_auth a = and_then (bail_checks [
       (auth_require_client_auth a \<and> auth_client_vk_path a = None, MissingClientVk)]) (\<lambda>_.
     Ok (auth_require_client_auth a \<and> auth_client_vk_path a \<noteq> None))"

definition validate_admin ::
  "admin_config \<Rightarrow> socket_addr \<Rightarrow> socket_addr \<Rightarrow> bool \<Rightarrow> socket_addr \<Rightarrow> bool \<Rightarrow> socket_addr \<Rightarrow> config_error + socket_addr" where
  "validate_admin c la ma tls_on ta quic_on qa = and_then (parse_addr SAdmin (adm_listen_addr c)) (\<lambda>aa.
     and_then (if adm_enabled c then bail_checks [
        (adm_control_plane_vk_path c = None, MissingControlPlaneVk),
        (adm_rate_limit_per_second c < 1, BadRateLimit),
        (adm_handshake_timeout_secs c < 1, BadHandshakeTimeout SAdmin),
        (aa = la, Conflict SAdmin SServer),
        (aa = ma, Conflict SAdmin SMetrics),
        (tls_on \<and> aa = ta, Conflict SAdmin STls),
        (quic_on \<and> aa = qa, Conflict SAdmin SQuic)] else Ok ()) (\<lambda>_. Ok aa))"

definition validate_websocket ::
  "ws_config \<Rightarrow> socket_addr \<Rightarrow> socket_addr \<Rightarrow> bool \<Rightarrow> socket_addr \<Rightarrow> bool \<Rightarrow> socket_addr \<Rightarrow> bool \<Rightarrow> socket_addr \<Rightarrow>
   config_error + socket_addr" where
  "validate_websocket c la ma tls_on ta quic_on qa adm_on aa =
     and_then (parse_addr SWebsocket (ws_cfg_listen_addr c)) (\<lambda>wa.
     and_then (if ws_cfg_enabled c then bail_checks [
        (ws_cfg_cert_path c = None, MissingCert SWebsocket),
        (ws_cfg_key_path c = None, MissingKey SWebsocket),
        (wa = la, Conflict SWebsocket SServer),
        (wa = ma, Conflict SWebsocket SMetrics),
        (tls_on \<and> wa = ta, Conflict SWebsocket STls),
        (quic_on \<and> wa = qa, Conflict SWebsocket SQuic),
        (adm_on \<and> wa = aa, Conflict SWebsocket SAdmin)] else Ok ()) (\<lambda>_. Ok wa))"

fun parse_origins :: "(string \<Rightarrow> url option) \<Rightarrow> string list \<Rightarrow> config_error + normalized_origin list" where
  "parse_origins url_parse [] = Ok []"
| "parse_origins url_parse (s # ss) = (case origin_parse url_parse s of
      Err e \<Rightarrow> Err (BadOrigin s e)
    | Ok x \<Rightarrow> and_then (parse_origins url_parse ss) (\<lambda>xs. Ok (x # xs)))"

definition resolve_token_max :: "(string \<Rightarrow> string option) \<Rightarrow> nat" where
  "resolve_token_max env = (case env ''LATTICE_VK_TOKEN_MAX'' of
      Some v \<Rightarrow> if v \<noteq> [] then (case parse_unsigned (2 ^ 64) v of
                   Some n \<Rightarrow> if 0 < n then n else DEFAULT_TOKEN_MAX
                 | None \<Rightarrow> DEFAULT_TOKEN_MAX) else DEFAULT_TOKEN_MAX
    | None \<Rightarrow> DEFAULT_TOKEN_MAX)"

definition resolve_shutdown_timeout :: "(string \<Rightarrow> string option) \<Rightarrow> nat" where
  "resolve_shutdown_timeout env = (case Option.bind (env ''SHUTDOWN_TIMEOUT_SECS'') (parse_unsigned (2 ^ 64)) of
      Some n \<Rightarrow> n | None \<Rightarrow> 30)"

definition unwrap_or_default :: "string option \<Rightarrow> string" where
  "unwrap_or_default x = (case x of Some s \<Rightarrow> s | None \<Rightarrow> [])"

text \<open>\<open>Config::validate\<close>.\<close>

definition validate ::
  "(string \<Rightarrow> url option) \<Rightarrow> (string \<Rightarrow> string option) \<Rightarrow> config \<Rightarrow> config_error + valid_config" where
  "validate url_parse env c =
    and_then (validate_server c) (\<lambda>(la, ba, ma).
    and_then (validate_control_plane url_parse (control_plane c)) (\<lambda>_.
    and_then (validate_key_rotation (key_rotation c)) (\<lambda>_.
    and_then (validate_tls (tls c) la ma) (\<lambda>ta.
    and_then (validate_quic (quic c) la ma (tls_cfg_enabled (tls c)) ta) (\<lambda>qa.
    and_then (validate_auth (auth c)) (\<lambda>client_auth.
    and_then (validate_admin (admin c) la ma (tls_cfg_enabled (tls c)) ta (quic_cfg_enabled (quic c)) qa) (\<lambda>aa.
    and_then (validate_websocket (websocket c) la ma (tls_cfg_enabled (tls c)) ta
        (quic_cfg_enabled (quic c)) qa (adm_enabled (admin c)) aa) (\<lambda>wa.
    and_then (parse_origins url_parse (ws_cfg_allowed_origins (websocket c))) (\<lambda>origins.
    Ok \<lparr>vc_listen_addr = la, vc_backend_addr = ba, vc_metrics_addr = ma,
        vc_max_frame_size = srv_max_frame_size (server c),
        vc_handshake_timeout_secs = srv_handshake_timeout_secs (server c),
        vc_max_connections_per_ip = srv_max_connections_per_ip (server c),
        vc_signing_key_path = crypto_signing_key_path c, vc_log_level = logging_level c,
        vc_control_plane_enabled = cp_enabled (control_plane c),
        vc_control_plane_endpoint = cp_endpoint (control_plane c),
        vc_control_plane_agent_name = resolve_agent_name env (control_plane c),
        vc_heartbeat_interval = max (cp_heartbeat_interval_secs (control_plane c)) 5,
        vc_key_rotation_enabled = kr_enabled (key_rotation c),
        vc_max_bytes_per_key = kr_max_bytes_per_key (key_rotation c),
        vc_key_rotation_interval = kr_max_seconds_per_key (key_rotation c),
        vc_tls_enabled = tls_cfg_enabled (tls c), vc_tls_listen_addr = ta,
        vc_tls_cert_path = tls_cfg_cert_path (tls c), vc_tls_key_path = tls_cfg_key_path (tls c),
        vc_quic_enabled = quic_cfg_enabled (quic c), vc_quic_listen_addr = qa,
        vc_quic_cert_path = unwrap_or_default (quic_cfg_cert_path (quic c)),
        vc_quic_key_path = unwrap_or_default (quic_cfg_key_path (quic c)),
        vc_client_auth_enabled = client_auth, vc_client_vk_path = auth_client_vk_path (auth c),
        vc_admin_enabled = adm_enabled (admin c), vc_admin_listen_addr = aa,
        vc_admin_control_plane_vk_path = adm_control_plane_vk_path (admin c),
        vc_admin_rate_limit_per_second = adm_rate_limit_per_second (admin c),
        vc_admin_handshake_timeout_secs = adm_handshake_timeout_secs (admin c),
        vc_control_plane_install_token = resolve_install_token env (control_plane c),
        vc_cloud_vk_path = cp_cloud_vk_path (control_plane c),
        vc_shutdown_timeout = resolve_shutdown_timeout env,
        vc_ws_enabled = ws_cfg_enabled (websocket c), vc_ws_listen_addr = wa,
        vc_ws_cert_path = unwrap_or_default (ws_cfg_cert_path (websocket c)),
        vc_ws_key_path = unwrap_or_default (ws_cfg_key_path (websocket c)),
        vc_ws_allowed_origins = origins,
        vc_ws_handshake_timeout_secs = ws_cfg_handshake_timeout_secs (websocket c),
        vc_ws_max_connections_per_ip = ws_cfg_max_connections_per_ip (websocket c),
        vc_vk_share_max_tokens = resolve_token_max env\<rparr>)))))))))"

text \<open>\<open>Config::load\<close>.\<close>

definition config_load ::
  "(string \<Rightarrow> config option) \<Rightarrow> (string \<Rightarrow> url option) \<Rightarrow> (string \<Rightarrow> string option) \<Rightarrow> filesys \<Rightarrow> string \<Rightarrow>
   config_error + valid_config" where
  "config_load toml_from_str url_parse env fs path = (case read_to_string (fs_read fs path) of
      Err e \<Rightarrow> Err (CannotRead e)
    | Ok contents \<Rightarrow> (case toml_from_str contents of
        None \<Rightarrow> Err InvalidToml
      | Some c \<Rightarrow> validate url_parse env c))"

section \<open>Properties\<close>

lemmas validate_defs = validate_def validate_server_def validate_control_plane_def validate_key_rotation_def
  validate_tls_def validate_quic_def validate_auth_def validate_admin_def validate_websocket_def

text \<open>The sections of an accepted configuration, each with its own validation.\<close>

lemma validate_OkE:
  assumes "validate P env c = Ok v"
  obtains la ba ma ta qa ca aa wa os where
    "validate_server c = Ok (la, ba, ma)" "validate_control_plane P (control_plane c) = Ok ()"
    "validate_key_rotation (key_rotation c) = Ok ()" "validate_tls (tls c) la ma = Ok ta"
    "validate_quic (quic c) la ma (tls_cfg_enabled (tls c)) ta = Ok qa" "validate_auth (auth c) = Ok ca"
    "validate_admin (admin c) la ma (tls_cfg_enabled (tls c)) ta (quic_cfg_enabled (quic c)) qa = Ok aa"
    "validate_websocket (websocket c) la ma (tls_cfg_enabled (tls c)) ta (quic_cfg_enabled (quic c)) qa
       (adm_enabled (admin c)) aa = Ok wa"
    "parse_origins P (ws_cfg_allowed_origins (websocket c)) = Ok os"
    "vc_listen_addr v = la" "vc_metrics_addr v = ma" "vc_tls_listen_addr v = ta" "vc_quic_listen_addr v = qa"
    "vc_admin_listen_addr v = aa" "vc_ws_listen_addr v = wa" "vc_client_auth_enabled v = ca"
    "vc_ws_allowed_origins v = os"
    "vc_tls_enabled v = tls_cfg_enabled (tls c)" "vc_quic_enabled v = quic_cfg_enabled (quic c)"
    "vc_admin_enabled v = adm_enabled (admin c)" "vc_ws_enabled v = ws_cfg_enabled (websocket c)"
    "vc_max_frame_size v = srv_max_frame_size (server c)"
    "vc_handshake_timeout_secs v = srv_handshake_timeout_secs (server c)"
    "vc_max_connections_per_ip v = srv_max_connections_per_ip (server c)"
    "vc_max_bytes_per_key v = kr_max_bytes_per_key (key_rotation c)"
    "vc_key_rotation_interval v = kr_max_seconds_per_key (key_rotation c)"
    "vc_heartbeat_interval v = max (cp_heartbeat_interval_secs (control_plane c)) 5"
    "vc_client_vk_path v = auth_client_vk_path (auth c)"
    "vc_admin_control_plane_vk_path v = adm_control_plane_vk_path (admin c)"
    "vc_admin_rate_limit_per_second v = adm_rate_limit_per_second (admin c)"
    "vc_vk_share_max_tokens v = resolve_token_max env"
    "vc_control_plane_enabled v = cp_enabled (control_plane c)"
    "vc_control_plane_endpoint v = cp_endpoint (control_plane c)"
  using assms by (auto simp: validate_def)

lemma resolve_token_max_pos: "0 < resolve_token_max env"
  by (simp add: resolve_token_max_def DEFAULT_TOKEN_MAX_def split: option.splits)

lemma word_ge_1: "\<not> x < 1 \<Longrightarrow> 1 \<le> (x :: 'a::len word)"
  by (simp only: not_less)

lemma validate_server_Ok:
  assumes "validate_server c = Ok (la, ba, ma)"
  shows "1024 \<le> srv_max_frame_size (server c)" "srv_max_frame_size (server c) \<le> 16 * 1024 * 1024"
    "1 \<le> srv_handshake_timeout_secs (server c)" "srv_max_connections_per_ip (server c) \<noteq> 0"
  using assms by (auto simp: validate_server_def word_ge_1 simp del: word_less_1 less_eq_word_numeral_numeral)

lemma validate_key_rotation_Ok:
  assumes "validate_key_rotation k = Ok u"
  shows "1048576 \<le> kr_max_bytes_per_key k" "60 \<le> kr_max_seconds_per_key k"
  using assms by (simp_all add: validate_key_rotation_def not_less)

lemma validate_control_plane_Ok:
  "validate_control_plane P k = Ok u \<Longrightarrow> cp_enabled k \<Longrightarrow> cp_endpoint k \<noteq> []"
  by (simp add: validate_control_plane_def)

lemma validate_auth_Ok:
  "validate_auth a = Ok b \<Longrightarrow> b = auth_require_client_auth a \<and> (b \<longrightarrow> auth_client_vk_path a \<noteq> None)"
  by (auto simp: validate_auth_def)

lemma validate_admin_Ok:
  assumes "validate_admin a la ma t ta q qa = Ok aa" "adm_enabled a"
  shows "adm_control_plane_vk_path a \<noteq> None" "1 \<le> adm_rate_limit_per_second a"
    "aa \<noteq> la" "aa \<noteq> ma" "t \<longrightarrow> aa \<noteq> ta" "q \<longrightarrow> aa \<noteq> qa"
  using assms by (auto simp: validate_admin_def word_ge_1 simp del: word_less_1)

lemma validate_tls_Ok:
  "validate_tls t la ma = Ok ta \<Longrightarrow> tls_cfg_enabled t \<Longrightarrow> ta \<noteq> la \<and> ta \<noteq> ma"
  by (auto simp: validate_tls_def)

lemma validate_quic_Ok:
  "validate_quic k la ma t ta = Ok qa \<Longrightarrow> quic_cfg_enabled k \<Longrightarrow> qa \<noteq> la \<and> qa \<noteq> ma \<and> (t \<longrightarrow> qa \<noteq> ta)"
  by (auto simp: validate_quic_def)

lemma validate_websocket_Ok:
  "validate_websocket w la ma t ta q qa a aa = Ok wa \<Longrightarrow> ws_cfg_enabled w \<Longrightarrow>
   wa \<noteq> la \<and> wa \<noteq> ma \<and> (t \<longrightarrow> wa \<noteq> ta) \<and> (q \<longrightarrow> wa \<noteq> qa) \<and> (a \<longrightarrow> wa \<noteq> aa)"
  by (auto simp: validate_websocket_def)

text \<open>C39. What a validated configuration guarantees: the frame size is between 1 KiB and 16 MiB (so
  with the tag it fits the 32-bit length field), timeouts, caps, rotation limits and the heartbeat
  interval have their minimum values, the token store has room, and every path that start-up takes out
  with \<open>expect\<close> is there: the client's key when client authentication is on, the control plane's key
  when the admin listener is on, an endpoint when the control plane is on.\<close>

theorem validated_config_guarantees:
  assumes "validate P env c = Ok v"
  shows "1024 \<le> vc_max_frame_size v \<and> vc_max_frame_size v + 16 < 2 ^ 32 \<and>
    1 \<le> vc_handshake_timeout_secs v \<and> 1 \<le> vc_max_connections_per_ip v \<and>
    1048576 \<le> vc_max_bytes_per_key v \<and> 60 \<le> vc_key_rotation_interval v \<and> 5 \<le> vc_heartbeat_interval v \<and>
    0 < vc_vk_share_max_tokens v \<and>
    (vc_client_auth_enabled v \<longrightarrow> vc_client_vk_path v \<noteq> None) \<and>
    (vc_admin_enabled v \<longrightarrow> vc_admin_control_plane_vk_path v \<noteq> None \<and> 1 \<le> vc_admin_rate_limit_per_second v) \<and>
    (vc_control_plane_enabled v \<longrightarrow> vc_control_plane_endpoint v \<noteq> [])"
  using assms
proof (rule validate_OkE, goal_cases)
  case 1
  note srv = validate_server_Ok [OF 1(1)]
  have "vc_max_frame_size v + 16 < 2 ^ 32" using srv(2) 1(22) by simp
  moreover have "1 \<le> vc_max_connections_per_ip v"
    using srv(4) 1(24) by (simp add: word_le_nat_alt Suc_le_eq unat_gt_0)
  moreover have "5 \<le> vc_heartbeat_interval v" unfolding 1(27) by (rule max.cobounded2)
  ultimately show ?thesis
    using srv validate_key_rotation_Ok [OF 1(3)] validate_control_plane_Ok [OF 1(2)] validate_auth_Ok [OF 1(6)]
      validate_admin_Ok [OF 1(7)] resolve_token_max_pos [of env] 1(16,20,22-33)
    by (intro conjI) simp_all
qed

definition demo_config :: config where
  "demo_config = default_config\<lparr>auth := \<lparr>auth_client_vk_path = Some ''c.vk'', auth_require_client_auth = True\<rparr>\<rparr>"

definition demo_valid :: valid_config where
  "demo_valid = (case validate (\<lambda>_. None) (\<lambda>_. None) demo_config of Ok v \<Rightarrow> v | Err _ \<Rightarrow> undefined)"

lemma demo_addrs:
  "parse_socket_addr ''0.0.0.0:8443'' = Some \<lparr>addr_ip = IpV4 0, addr_port = 8443, addr_scope = 0\<rparr>"
  "parse_socket_addr ''127.0.0.1:8080'' = Some \<lparr>addr_ip = IpV4 0x7F000001, addr_port = 8080, addr_scope = 0\<rparr>"
  "parse_socket_addr ''0.0.0.0:8444'' = Some \<lparr>addr_ip = IpV4 0, addr_port = 8444, addr_scope = 0\<rparr>"
  "parse_socket_addr ''0.0.0.0:8440'' = Some \<lparr>addr_ip = IpV4 0, addr_port = 8440, addr_scope = 0\<rparr>"
  "parse_socket_addr ''0.0.0.0:8441'' = Some \<lparr>addr_ip = IpV4 0, addr_port = 8441, addr_scope = 0\<rparr>"
  "parse_socket_addr ''127.0.0.1:8445'' = Some \<lparr>addr_ip = IpV4 0x7F000001, addr_port = 8445, addr_scope = 0\<rparr>"
  "parse_socket_addr ''0.0.0.0:8446'' = Some \<lparr>addr_ip = IpV4 0, addr_port = 8446, addr_scope = 0\<rparr>"
  by code_simp+

lemmas default_defs = default_config_def default_server_config_def default_admin_config_def default_auth_config_def
  default_control_plane_config_def default_key_rotation_config_def default_tls_config_def
  default_quic_config_def default_ws_config_def

lemma demo_validates: "validate (\<lambda>_. None) (\<lambda>_. None) demo_config = Ok demo_valid"
proof -
  have "\<exists>v. validate (\<lambda>_. None) (\<lambda>_. None) demo_config = Ok v"
    by (simp add: validate_defs demo_config_def default_defs parse_addr_def demo_addrs) blast
  then show ?thesis by (auto simp: demo_valid_def)
qed

theorem validated_config_guarantees_witness:
  "1024 \<le> vc_max_frame_size demo_valid \<and> 0 < vc_vk_share_max_tokens demo_valid"
  using validated_config_guarantees [OF demo_validates] by simp

text \<open>The addresses of the optional listeners that start-up will bind.\<close>

definition optional_listeners :: "valid_config \<Rightarrow> socket_addr list" where
  "optional_listeners v = (if vc_tls_enabled v then [vc_tls_listen_addr v] else []) @
     (if vc_quic_enabled v then [vc_quic_listen_addr v] else []) @
     (if vc_admin_enabled v then [vc_admin_listen_addr v] else []) @
     (if vc_ws_enabled v then [vc_ws_listen_addr v] else [])"

lemma validated_addresses:
  assumes "validate P env c = Ok v"
  shows "distinct (vc_listen_addr v # optional_listeners v) \<and> distinct (vc_metrics_addr v # optional_listeners v)"
  using assms
proof (rule validate_OkE, goal_cases)
  case 1
  note off = validate_tls_Ok [OF 1(4)] validate_quic_Ok [OF 1(5)] validate_admin_Ok(3-6) [OF 1(7)]
    validate_websocket_Ok [OF 1(8)]
  show ?thesis unfolding optional_listeners_def 1(10-15) 1(18-21) using off by auto
qed

text \<open>Ports: in a validated configuration all enabled listeners (proxy, TLS, QUIC, admin, WebSocket)
  have different addresses, and all optional ones differ from the metrics address. The pair of the
  proxy and the metrics listener is not compared.\<close>

theorem validated_listeners_distinct:
  assumes "validate P env c = Ok v"
  shows "distinct (vc_listen_addr v # optional_listeners v) \<and> distinct (vc_metrics_addr v # optional_listeners v)"
  using assms by (rule validated_addresses)

theorem validated_listeners_distinct_witness:
  "distinct (vc_listen_addr demo_valid # optional_listeners demo_valid)"
  using validated_listeners_distinct [OF demo_validates] by blast

lemma validate_section_off:
  "\<not> tls_cfg_enabled t \<Longrightarrow> validate_tls t la ma = parse_addr STls (tls_cfg_listen_addr t)"
  "\<not> quic_cfg_enabled k \<Longrightarrow> validate_quic k la ma b ta = parse_addr SQuic (quic_cfg_listen_addr k)"
  "\<not> adm_enabled a \<Longrightarrow> validate_admin a la ma b ta d qa = parse_addr SAdmin (adm_listen_addr a)"
  "\<not> ws_cfg_enabled w \<Longrightarrow> validate_websocket w la ma b ta d qa e aa = parse_addr SWebsocket (ws_cfg_listen_addr w)"
  by (auto simp: validate_tls_def validate_quic_def validate_admin_def validate_websocket_def and_then_def
      split: sum.splits)

text \<open>The proxy and the metrics server may be configured on the same address: when no optional
  listener is enabled, an accepted configuration stays accepted after its metrics address is replaced
  by the proxy's, although only one of the two can bind.\<close>

theorem metrics_may_share_proxy_addr:
  assumes "validate P env c = Ok v" and "optional_listeners v = []"
  shows "validate P env (c\<lparr>metrics_listen_addr := srv_listen_addr (server c)\<rparr>) =
    Ok (v\<lparr>vc_metrics_addr := vc_listen_addr v\<rparr>)"
proof -
  have off: "\<not> tls_cfg_enabled (tls c)" "\<not> quic_cfg_enabled (quic c)" "\<not> adm_enabled (admin c)"
    "\<not> ws_cfg_enabled (websocket c)"
    using assms(2) by (rule_tac [!] validate_OkE [OF assms(1)]) (simp_all add: optional_listeners_def split: if_splits)
  from assms(1) obtain la ba ma where srv: "validate_server c = Ok (la, ba, ma)" by (rule validate_OkE)
  let ?c = "c\<lparr>metrics_listen_addr := srv_listen_addr (server c)\<rparr>"
  from srv have "validate_server ?c = Ok (la, ba, la)"
    by (auto simp: validate_server_def parse_addr_def split: option.splits)
  with assms(1) srv show ?thesis
    by (auto simp: validate_def validate_section_off off)
qed

theorem metrics_may_share_proxy_addr_witness:
  "validate (\<lambda>_. None) (\<lambda>_. None) (demo_config\<lparr>metrics_listen_addr := srv_listen_addr (server demo_config)\<rparr>) =
    Ok (demo_valid\<lparr>vc_metrics_addr := vc_listen_addr demo_valid\<rparr>)"
proof (rule metrics_may_share_proxy_addr [OF demo_validates])
  show "optional_listeners demo_valid = []"
    by (rule validate_OkE [OF demo_validates]) (simp add: optional_listeners_def demo_config_def default_defs)
qed

text \<open>Client authentication is decided by \<open>require_client_auth\<close> alone: it is on exactly when the flag
  is set, so a configured client key is ignored when the flag is cleared, and without an \<open>[auth]\<close>
  section the configuration is refused.\<close>

theorem client_auth_follows_flag:
  "(validate P env c = Ok v \<longrightarrow> vc_client_auth_enabled v = auth_require_client_auth (auth c)) \<and>
   validate P env default_config = Err MissingClientVk"
proof
  show "validate P env c = Ok v \<longrightarrow> vc_client_auth_enabled v = auth_require_client_auth (auth c)"
    by (auto simp: validate_auth_def elim!: validate_OkE)
  show "validate P env default_config = Err MissingClientVk"
    by (simp add: validate_defs default_defs parse_addr_def demo_addrs and_then_def bail_checks.simps)
qed

theorem client_auth_follows_flag_witness: "vc_client_auth_enabled demo_valid"
  using client_auth_follows_flag [of "\<lambda>_. None" "\<lambda>_. None" demo_config demo_valid] demo_validates
  by (simp add: demo_config_def)

end
