(* ===== verification/Metrics.thy ===== *)
theory Metrics
  imports Prelude
begin

text \<open>
  Metrics of the bridge, \<open>latticeshield-bridge/src/metrics.rs\<close>: the counters of the Prometheus
  recorder the code increments, the parallel atomic counters of \<open>MetricsState\<close>, and the two guards
  that count active sessions. Atomic additions wrap. The gauge is an integer and of the histogram
  only the number of observations is kept.
\<close>

record metrics_state =
  connections_total :: u64
  connections_active :: u64
  bytes_transmitted_total :: u64
  channel_errors_total :: u64
  key_rotations_total :: u64

definition metrics_state_new :: metrics_state where
  "metrics_state_new = \<lparr>connections_total = 0, connections_active = 0, bytes_transmitted_total = 0,
     channel_errors_total = 0, key_rotations_total = 0\<rparr>"

record metrics_snapshot =
  snap_connections_active :: u64
  snap_connections_total :: u64
  snap_bytes_transmitted_total :: u64
  snap_channel_errors_total :: u64
  snap_key_rotations_total :: u64

definition snapshot :: "metrics_state \<Rightarrow> metrics_snapshot" where
  "snapshot m = \<lparr>snap_connections_active = connections_active m, snap_connections_total = connections_total m,
     snap_bytes_transmitted_total = bytes_transmitted_total m,
     snap_channel_errors_total = channel_errors_total m, snap_key_rotations_total = key_rotations_total m\<rparr>"

text \<open>What the recorder holds, by series: \<open>CONNECTIONS_TOTAL\<close> without a label and with
  \<open>status="success"\<close>, and the other five families.\<close>

record prometheus =
  prom_connections_total :: nat
  prom_connections_success :: nat
  prom_connections_active :: int
  prom_handshakes :: nat
  prom_bytes_transmitted :: nat
  prom_channel_errors :: nat
  prom_key_rotations :: nat

definition prometheus_new :: prometheus where
  "prometheus_new = \<lparr>prom_connections_total = 0, prom_connections_success = 0, prom_connections_active = 0,
     prom_handshakes = 0, prom_bytes_transmitted = 0, prom_channel_errors = 0, prom_key_rotations = 0\<rparr>"

record bridge_metrics =
  bm_state :: metrics_state
  bm_prom :: prometheus

definition metrics_init :: bridge_metrics where
  "metrics_init = \<lparr>bm_state = metrics_state_new, bm_prom = prometheus_new\<rparr>"

definition active_guard_new :: "prometheus \<Rightarrow> prometheus" where
  "active_guard_new p = p\<lparr>prom_connections_active := prom_connections_active p + 1\<rparr>"

definition active_guard_drop :: "prometheus \<Rightarrow> prometheus" where
  "active_guard_drop p = p\<lparr>prom_connections_active := prom_connections_active p - 1,
     prom_connections_success := prom_connections_success p + 1\<rparr>"

definition metrics_active_guard_new :: "metrics_state \<Rightarrow> metrics_state" where
  "metrics_active_guard_new m = m\<lparr>connections_active := connections_active m + 1\<rparr>"

definition metrics_active_guard_drop :: "metrics_state \<Rightarrow> metrics_state" where
  "metrics_active_guard_drop m = m\<lparr>connections_active := connections_active m - 1\<rparr>"

text \<open>The updates at the instrumented places of the session.\<close>

definition count_connection :: "bridge_metrics \<Rightarrow> bridge_metrics" where
  "count_connection m = m\<lparr>
     bm_prom := (bm_prom m)\<lparr>prom_connections_total := prom_connections_total (bm_prom m) + 1\<rparr>,
     bm_state := (bm_state m)\<lparr>connections_total := connections_total (bm_state m) + 1\<rparr>\<rparr>"

definition count_channel_error :: "bridge_metrics \<Rightarrow> bridge_metrics" where
  "count_channel_error m = m\<lparr>
     bm_state := (bm_state m)\<lparr>channel_errors_total := channel_errors_total (bm_state m) + 1\<rparr>,
     bm_prom := (bm_prom m)\<lparr>prom_channel_errors := prom_channel_errors (bm_prom m) + 1\<rparr>\<rparr>"

definition count_bytes :: "nat \<Rightarrow> bridge_metrics \<Rightarrow> bridge_metrics" where
  "count_bytes n m = m\<lparr>
     bm_state := (bm_state m)\<lparr>bytes_transmitted_total := bytes_transmitted_total (bm_state m) + word_of_nat n\<rparr>,
     bm_prom := (bm_prom m)\<lparr>prom_bytes_transmitted := prom_bytes_transmitted (bm_prom m) + n\<rparr>\<rparr>"

definition count_rotation :: "bridge_metrics \<Rightarrow> bridge_metrics" where
  "count_rotation m = m\<lparr>
     bm_prom := (bm_prom m)\<lparr>prom_key_rotations := prom_key_rotations (bm_prom m) + 1\<rparr>,
     bm_state := (bm_state m)\<lparr>key_rotations_total := key_rotations_total (bm_state m) + 1\<rparr>\<rparr>"

definition count_handshake :: "bridge_metrics \<Rightarrow> bridge_metrics" where
  "count_handshake m = m\<lparr>bm_prom := (bm_prom m)\<lparr>prom_handshakes := prom_handshakes (bm_prom m) + 1\<rparr>\<rparr>"

definition enter_session :: "bridge_metrics \<Rightarrow> bridge_metrics" where
  "enter_session m = m\<lparr>bm_prom := active_guard_new (bm_prom m), bm_state := metrics_active_guard_new (bm_state m)\<rparr>"

definition leave_session :: "bridge_metrics \<Rightarrow> bridge_metrics" where
  "leave_session m = m\<lparr>bm_state := metrics_active_guard_drop (bm_state m), bm_prom := active_guard_drop (bm_prom m)\<rparr>"

lemmas metric_defs = count_connection_def count_channel_error_def count_bytes_def count_rotation_def
  count_handshake_def enter_session_def leave_session_def active_guard_new_def active_guard_drop_def
  metrics_active_guard_new_def metrics_active_guard_drop_def

end
