(* ===== verification/Session.thy ===== *)
theory Session
  imports Channel_Props Handshake Identity Bridge_Config Metrics
begin

text \<open>
  One client connection of the bridge, \<open>latticeshield-bridge/src/session.rs\<close>: the handshake phase,
  the relay loop with its \<open>select!\<close> over client, backend, rotation timer and rotation signal, and
  \<open>do_rotate\<close>.

  The client's direction is the list of the bytes it will deliver; a branch of \<open>select!\<close> that wins
  against a pending \<open>read_frame\<close> drops that future together with the bytes it has already taken from
  the socket, and the event says how many there were (\<open>lost\<close>). The randomness of a rotation is part
  of the event.
\<close>

section \<open>State and events\<close>

datatype session_error =
    SeHello handshake_error | SeHelloWrite io_error
  | SeReadResponse io_error | SeClientAuth handshake_error | SeHandshake handshake_error
  | SeBackendConnect io_error | SeBackendWrite io_error | SeFrameWrite frame_error
  | SeRotate key_rotate_error

datatype loop_status = Running | Broken | Failed session_error | Panicked

record session =
  ss_channel :: channel
  ss_client_in :: bytes
  ss_client_w :: writer
  ss_backend_w :: writer
  ss_bytes_this_epoch :: u64
  ss_metrics :: bridge_metrics

datatype select_arm =
    ClientFrame
  | BackendRead "io_error + bytes" (lost: nat)
  | RotationTick (lost: nat)
  | RotateSignal bool (lost: nat)

record session_event =
  ev_arm :: select_arm
  ev_nonce :: bytes
  ev_gcm_nonce :: bytes

section \<open>Operations\<close>

text \<open>\<open>do_rotate\<close>.\<close>

definition do_rotate ::
  "sym_prims \<Rightarrow> channel \<Rightarrow> writer \<Rightarrow> bridge_metrics \<Rightarrow> bytes \<Rightarrow> bytes \<Rightarrow>
   loop_status \<times> channel \<times> writer \<times> bridge_metrics" where
  "do_rotate S ch w m nonce gcm_nonce = (case send_key_rotate S ch w gcm_nonce nonce of
      (Err e, ch', w') \<Rightarrow> (Failed (SeRotate e), ch', w', m)
    | (Ok _, ch', w') \<Rightarrow> (case rotate_key S ch' nonce of
        None \<Rightarrow> (Panicked, ch', w', m)
      | Some ch'' \<Rightarrow> (Running, ch'', w', count_rotation m)))"

text \<open>One evaluation of \<open>select!\<close>: the status, whether to rotate, and the new state.\<close>

fun session_select :: "sym_prims \<Rightarrow> valid_config \<Rightarrow> session \<Rightarrow> select_arm \<Rightarrow> loop_status \<times> bool \<times> session" where
  "session_select S cfg st ClientFrame = (case read_frame S (ss_channel st) (ss_client_in st) of
      (Ok (Data d), ch', rest) \<Rightarrow>
        (let st1 = st\<lparr>ss_channel := ch', ss_client_in := rest\<rparr> in
         if d = [] then (Broken, False, st1)
         else (case write_all d (ss_backend_w st) of
            (Err e, w') \<Rightarrow> (Failed (SeBackendWrite e), False, st1\<lparr>ss_backend_w := w'\<rparr>)
          | (Ok _, w') \<Rightarrow> (Running, False, st1\<lparr>ss_backend_w := w'\<rparr>)))
    | (Ok (KeyRotate _), ch', rest) \<Rightarrow> (Broken, False, st\<lparr>ss_channel := ch', ss_client_in := rest\<rparr>)
    | (Err _, ch', rest) \<Rightarrow>
        (Broken, False, st\<lparr>ss_channel := ch', ss_client_in := rest,
           ss_metrics := count_channel_error (ss_metrics st)\<rparr>))"
| "session_select S cfg st (BackendRead res k) =
    (let st1 = st\<lparr>ss_client_in := drop k (ss_client_in st)\<rparr> in
     case res of
       Err _ \<Rightarrow> (Broken, False, st1)
     | Ok bs \<Rightarrow>
        if bs = [] then (Broken, False, st1)
        else (case write_frame S (ss_channel st) (ss_client_w st) bs of
           (Err e, ch', w') \<Rightarrow> (Failed (SeFrameWrite e), False, st1\<lparr>ss_channel := ch', ss_client_w := w'\<rparr>)
         | (Ok _, ch', w') \<Rightarrow>
             (let total = ss_bytes_this_epoch st + word_of_nat (length bs)
              in (Running, vc_key_rotation_enabled cfg \<and> vc_max_bytes_per_key cfg \<le> total,
                  st1\<lparr>ss_channel := ch', ss_client_w := w', ss_bytes_this_epoch := total,
                    ss_metrics := count_bytes (length bs) (ss_metrics st)\<rparr>))))"
| "session_select S cfg st (RotationTick k) = (Running, True, st\<lparr>ss_client_in := drop k (ss_client_in st)\<rparr>)"
| "session_select S cfg st (RotateSignal ok k) = (Running, ok, st\<lparr>ss_client_in := drop k (ss_client_in st)\<rparr>)"

text \<open>One turn of the loop.\<close>

definition session_step :: "sym_prims \<Rightarrow> valid_config \<Rightarrow> session \<Rightarrow> session_event \<Rightarrow> loop_status \<times> session" where
  "session_step S cfg st ev = (case session_select S cfg st (ev_arm ev) of
      (Running, True, st1) \<Rightarrow>
        (case do_rotate S (ss_channel st1) (ss_client_w st1) (ss_metrics st1) (ev_nonce ev) (ev_gcm_nonce ev) of
           (Running, ch', w', m') \<Rightarrow>
             (Running, st1\<lparr>ss_channel := ch', ss_client_w := w', ss_metrics := m', ss_bytes_this_epoch := 0\<rparr>)
         | (status, ch', w', m') \<Rightarrow>
             (status, st1\<lparr>ss_channel := ch', ss_client_w := w', ss_metrics := m'\<rparr>))
    | (status, _, st1) \<Rightarrow> (status, st1))"

text \<open>What the runtime can deliver: a backend read fills at most the buffer, the timer is polled only
  when rotation is on, and the bytes a dropped \<open>read_frame\<close> took do not complete a frame (\<open>incomplete\<close>).\<close>

fun arm_ok :: "sym_prims \<Rightarrow> valid_config \<Rightarrow> session \<Rightarrow> select_arm \<Rightarrow> bool" where
  "arm_ok S cfg st ClientFrame \<longleftrightarrow> True"
| "arm_ok S cfg st (BackendRead res k) \<longleftrightarrow> incomplete S (ss_channel st) (ss_client_in st) k \<and>
     (case res of Ok bs \<Rightarrow> length bs \<le> vc_max_frame_size cfg | Err _ \<Rightarrow> True)"
| "arm_ok S cfg st (RotationTick k) \<longleftrightarrow> vc_key_rotation_enabled cfg \<and> incomplete S (ss_channel st) (ss_client_in st) k"
| "arm_ok S cfg st (RotateSignal ok k) \<longleftrightarrow> incomplete S (ss_channel st) (ss_client_in st) k"

definition event_ok :: "sym_prims \<Rightarrow> valid_config \<Rightarrow> session \<Rightarrow> session_event \<Rightarrow> bool" where
  "event_ok S cfg st ev \<longleftrightarrow> arm_ok S cfg st (ev_arm ev) \<and> length (ev_nonce ev) = 32 \<and> length (ev_gcm_nonce ev) = 12"

text \<open>The states of the loop reachable from a state.\<close>

inductive session_reach :: "sym_prims \<Rightarrow> valid_config \<Rightarrow> session \<Rightarrow> session \<Rightarrow> bool" for S cfg st0 where
  start: "session_reach S cfg st0 st0"
| turn: "session_reach S cfg st0 st \<Longrightarrow> event_ok S cfg st ev \<Longrightarrow> session_step S cfg st ev = (Running, st') \<Longrightarrow>
    session_reach S cfg st0 st'"

text \<open>The loop on a list of events; it stops at the first turn that leaves it.\<close>

fun session_run :: "sym_prims \<Rightarrow> valid_config \<Rightarrow> session \<Rightarrow> session_event list \<Rightarrow> loop_status \<times> session" where
  "session_run S cfg st [] = (Running, st)"
| "session_run S cfg st (ev # evs) = (case session_step S cfg st ev of
      (Running, st') \<Rightarrow> session_run S cfg st' evs
    | (status, st') \<Rightarrow> (status, st'))"

section \<open>The whole connection\<close>

record session_context =
  ctx_identity :: identity
  ctx_client_auth :: "verifying_key option"

text \<open>The handshake phase: send the signed ServerHello, read the response, complete.\<close>

definition handshake_phase ::
  "sym_prims \<Rightarrow> sig_prims \<Rightarrow> ('r, 'x, 'dk, 'ek) kex_prims \<Rightarrow> session_context \<Rightarrow> bytes \<Rightarrow> writer \<Rightarrow> 'r \<Rightarrow>
   (session_error + session_key) \<times> bytes \<times> writer \<times> 'r" where
  "handshake_phase S G K ctx client_in client_w r =
    (let (hs, r1) = server_handshake_new K r
     in case server_hello_signed_bytes G K hs (signing_key (ctx_identity ctx)) r1 of
          (Err e, r2) \<Rightarrow> (Err (SeHello e), client_in, client_w, r2)
        | (Ok hello_bytes, r2) \<Rightarrow> (case write_flush [hello_bytes] client_w of
            (Err e, w') \<Rightarrow> (Err (SeHelloWrite e), client_in, w', r2)
          | (Ok _, w') \<Rightarrow> (case ctx_client_auth ctx of
              Some client_vk \<Rightarrow> (case read_exact CLIENT_RESPONSE_SIGNED_LEN client_in of
                 None \<Rightarrow> (Err (SeReadResponse UnexpectedEof), [], w', r2)
               | Some (buf, rest) \<Rightarrow>
                   (map_err SeClientAuth (complete_from_wire_signed S G K hs buf client_vk), rest, w', r2))
            | None \<Rightarrow> (case read_exact CLIENT_RESPONSE_LEN client_in of
                 None \<Rightarrow> (Err (SeReadResponse UnexpectedEof), [], w', r2)
               | Some (buf, rest) \<Rightarrow>
                   (map_err SeHandshake (complete_from_wire S K hs buf), rest, w', r2)))))"

text \<open>\<open>handle_with_handshake_timeout\<close> (and \<open>handle\<close>, which calls it with the configured timeout).
  \<open>elapsed\<close> says that the timeout fired first; \<open>backend\<close> is the result of connecting to the backend;
  the events drive the relay loop. The guards are released on every way out; a \<open>Running\<close> result means
  that the events ended before the session did.\<close>

definition handle_with_handshake_timeout ::
  "sym_prims \<Rightarrow> sig_prims \<Rightarrow> ('r, 'x, 'dk, 'ek) kex_prims \<Rightarrow> session_context \<Rightarrow> valid_config \<Rightarrow> bool \<Rightarrow>
   io_error + writer \<Rightarrow> session_event list \<Rightarrow> bytes \<Rightarrow> writer \<Rightarrow> bridge_metrics \<Rightarrow> 'r \<Rightarrow> loop_status \<times> bridge_metrics" where
  "handle_with_handshake_timeout S G K ctx cfg elapsed backend evs client_in client_w m r =
    (let m1 = count_connection m
     in if elapsed then (Broken, m1)
        else (case handshake_phase S G K ctx client_in client_w r of
           (Err e, _, _, _) \<Rightarrow> (Failed e, m1)
         | (Ok key, client_in', client_w', _) \<Rightarrow>
             (let m2 = enter_session (count_handshake m1);
                  ch = channel_new (key_as_bytes key) (vc_max_frame_size cfg)
              in case backend of
                   Err e \<Rightarrow> (Failed (SeBackendConnect e), leave_session m2)
                 | Ok backend_w \<Rightarrow>
                     (case session_run S cfg \<lparr>ss_channel = ch, ss_client_in = client_in', ss_client_w = client_w',
                         ss_backend_w = backend_w, ss_bytes_this_epoch = 0, ss_metrics = m2\<rparr> evs of
                        (Running, st) \<Rightarrow> (Running, ss_metrics st)
                      | (status, st) \<Rightarrow> (status, leave_session (ss_metrics st))))))"

end
