(* ===== verification/Session_Props.thy ===== *)
theory Session_Props
  imports Session
begin

text \<open>
  Properties of the bridge's session: invariants of the relay loop by rule induction over its
  reachable states, what reaches the backend, and what a rotation or a dropped \<open>read_frame\<close> does to
  frames in flight.
\<close>

section \<open>Steps\<close>

lemma do_rotate_RunningE:
  assumes "do_rotate S ch w m n g = (Running, ch', w', m')"
  obtains ch1 where "send_key_rotate S ch w g n = (Ok (), ch1, w')" "rotate_key S ch1 n = Some ch'"
    "m' = count_rotation m"
  using assms by (auto simp: do_rotate_def split: prod.splits sum.splits option.splits)

text \<open>A turn that stays in the loop is a turn without rotation, or one that ends with a successful
  rotation.\<close>

lemma session_step_RunningE:
  assumes "session_step S cfg st ev = (Running, st')"
  obtains (plain) "session_select S cfg st (ev_arm ev) = (Running, False, st')"
  | (rotated) st1 ch' w' m' where "session_select S cfg st (ev_arm ev) = (Running, True, st1)"
      "do_rotate S (ss_channel st1) (ss_client_w st1) (ss_metrics st1) (ev_nonce ev) (ev_gcm_nonce ev) = (Running, ch', w', m')"
      "st' = st1\<lparr>ss_channel := ch', ss_client_w := w', ss_metrics := m', ss_bytes_this_epoch := 0\<rparr>"
proof -
  obtain s b st1 where sel: "session_select S cfg st (ev_arm ev) = (s, b, st1)" by (metis prod.exhaust)
  show ?thesis
  proof (cases "s = Running \<and> b")
    case True
    obtain s' ch' w' m' where dr: "do_rotate S (ss_channel st1) (ss_client_w st1) (ss_metrics st1) (ev_nonce ev) (ev_gcm_nonce ev) = (s', ch', w', m')"
      by (metis prod.exhaust)
    with True sel assms rotated show ?thesis by (cases s') (auto simp: session_step_def)
  next
    case False
    with sel assms plain show ?thesis by (cases s; cases b) (auto simp: session_step_def)
  qed
qed

text \<open>A branch of \<open>select!\<close> that stays in the loop: what it does to the state.\<close>

lemma session_select_RunningE:
  assumes "session_select S cfg st arm = (Running, b, st1)"
  obtains (client) d ch' rest w' where "arm = ClientFrame" "\<not> b" "d \<noteq> []"
      "read_frame S (ss_channel st) (ss_client_in st) = (Ok (Data d), ch', rest)"
      "write_all d (ss_backend_w st) = (Ok (), w')"
      "st1 = st\<lparr>ss_channel := ch', ss_client_in := rest, ss_backend_w := w'\<rparr>"
  | (backend) bs k ch' w' total where "arm = BackendRead (Ok bs) k" "bs \<noteq> []"
      "write_frame S (ss_channel st) (ss_client_w st) bs = (Ok (), ch', w')"
      "total = ss_bytes_this_epoch st + word_of_nat (length bs)"
      "b = (vc_key_rotation_enabled cfg \<and> vc_max_bytes_per_key cfg \<le> total)"
      "st1 = st\<lparr>ss_client_in := drop k (ss_client_in st), ss_channel := ch', ss_client_w := w',
         ss_bytes_this_epoch := total, ss_metrics := count_bytes (length bs) (ss_metrics st)\<rparr>"
  | (signal) k where "arm = RotationTick k \<and> b \<or> arm = RotateSignal b k"
      "st1 = st\<lparr>ss_client_in := drop k (ss_client_in st)\<rparr>"
proof (cases arm)
  case ClientFrame
  with assms client show ?thesis
    by (auto simp: Let_def split: prod.splits sum.splits frame_result.splits if_splits)
next
  case (BackendRead res k)
  with assms backend show ?thesis
    by (auto simp: Let_def split: prod.splits sum.splits if_splits)
next
  case (RotationTick k)
  with assms signal show ?thesis by auto
next
  case (RotateSignal ok k)
  with assms signal show ?thesis by auto
qed

section \<open>The bytes sealed under one key\<close>

definition epoch_budget :: "valid_config \<Rightarrow> session \<Rightarrow> bool" where
  "epoch_budget cfg st \<longleftrightarrow> unat (send_seq (ss_channel st)) \<le> unat (ss_bytes_this_epoch st) \<and>
     ss_bytes_this_epoch st < vc_max_bytes_per_key cfg"

lemma rotate_key_SomeD:
  assumes "rotate_key S ch n = Some ch'"
  obtains k where "ch' = ch\<lparr>cipher := k, key_bytes := k, send_seq := 0, recv_seq := 0,
    recv_initialized := False, epoch := epoch ch + 1\<rparr>"
  using assms by (auto simp: rotate_key_def split: option.splits)

lemma epoch_budget_step:
  assumes inv: "epoch_budget cfg st" and on: "vc_key_rotation_enabled cfg"
    and room: "unat (vc_max_bytes_per_key cfg) + vc_max_frame_size cfg < 2 ^ 64"
    and ok: "event_ok S cfg st ev" and step: "session_step S cfg st ev = (Running, st')"
  shows "epoch_budget cfg st'"
  using step
proof (cases rule: session_step_RunningE)
  case plain
  then show ?thesis
  proof (cases rule: session_select_RunningE)
    case (client d ch' rest w')
    from client(4) have "send_seq ch' = send_seq (ss_channel st)"
      using read_frame_clock(1) [of S "ss_channel st" "ss_client_in st"] by simp
    with inv client(6) show ?thesis by (simp add: epoch_budget_def)
  next
    case (backend bs k ch' w' total)
    have len: "length bs \<le> vc_max_frame_size cfg" using ok backend(1) by (simp add: event_ok_def)
    have b: "unat (ss_bytes_this_epoch st) < unat (vc_max_bytes_per_key cfg)"
      using inv by (simp add: epoch_budget_def word_less_nat_alt)
    then have tot: "unat total = unat (ss_bytes_this_epoch st) + length bs"
      using len room backend(4) by (simp add: unat_word_ariths unat_of_nat)
    from backend(3) have ch': "ch' = (ss_channel st)\<lparr>send_seq := send_seq (ss_channel st) + 1\<rparr>"
      by (rule write_frame_OkE)
    have pos: "1 \<le> length bs" using backend(2) by (simp add: Suc_le_eq)
    have nx: "unat (send_seq (ss_channel st) + 1) = unat (send_seq (ss_channel st)) + 1"
      using inv b room by (intro u64_succ_greater [THEN conjunct2]) (simp add: epoch_budget_def)
    have "unat (send_seq ch') = unat (send_seq (ss_channel st)) + 1" using nx ch' by simp
    then have "unat (send_seq ch') \<le> unat total"
      using inv tot pos unfolding epoch_budget_def by linarith
    moreover have "total < vc_max_bytes_per_key cfg" using backend(5) on by (simp add: not_le)
    ultimately show ?thesis using backend(6) by (simp add: epoch_budget_def)
  next
    case (signal k)
    with inv show ?thesis by (simp add: epoch_budget_def)
  qed
next
  case (rotated st1 ch' w' m')
  from rotated(2) obtain ch1 where "rotate_key S ch1 (ev_nonce ev) = Some ch'" by (rule do_rotate_RunningE)
  then obtain k where "ch' = ch1\<lparr>cipher := k, key_bytes := k, send_seq := 0, recv_seq := 0,
      recv_initialized := False, epoch := epoch ch1 + 1\<rparr>" by (rule rotate_key_SomeD)
  moreover have "0 < vc_max_bytes_per_key cfg" using inv by (auto simp: epoch_budget_def word_less_nat_alt)
  ultimately show ?thesis using rotated(3) by (simp add: epoch_budget_def)
qed

lemma session_run_append_Running:
  "session_run S cfg st (xs @ ys) = (Running, st') \<longleftrightarrow>
     (\<exists>st1. session_run S cfg st xs = (Running, st1) \<and> session_run S cfg st1 ys = (Running, st'))"
  by (induction xs arbitrary: st) (auto split: prod.splits loop_status.splits)

text \<open>The bytes of the backend that a run seals (or tries to seal) while the channel is in epoch \<open>e\<close>.\<close>

definition turn_bytes :: "session \<Rightarrow> session_event \<Rightarrow> u32 \<Rightarrow> nat" where
  "turn_bytes st ev e = (case ev_arm ev of
      BackendRead (Ok bs) _ \<Rightarrow> if epoch (ss_channel st) = e then length bs else 0
    | _ \<Rightarrow> 0)"

fun epoch_bytes :: "sym_prims \<Rightarrow> valid_config \<Rightarrow> session \<Rightarrow> session_event list \<Rightarrow> u32 \<Rightarrow> nat" where
  "epoch_bytes S cfg st [] e = 0"
| "epoch_bytes S cfg st (ev # evs) e = turn_bytes st ev e + (case session_step S cfg st ev of
      (Running, st') \<Rightarrow> epoch_bytes S cfg st' evs e | _ \<Rightarrow> 0)"

text \<open>The events of a run are ones the runtime can deliver.\<close>

fun events_ok :: "sym_prims \<Rightarrow> valid_config \<Rightarrow> session \<Rightarrow> session_event list \<Rightarrow> bool" where
  "events_ok S cfg st [] \<longleftrightarrow> True"
| "events_ok S cfg st (ev # evs) \<longleftrightarrow> event_ok S cfg st ev \<and> (case session_step S cfg st ev of
      (Running, st') \<Rightarrow> events_ok S cfg st' evs | _ \<Rightarrow> True)"

text \<open>A turn either leaves the epoch alone and counts what it sealed, or rotates.\<close>

lemma session_step_epoch:
  assumes "session_step S cfg st ev = (Running, st')" "event_ok S cfg st ev"
    and "unat (ss_bytes_this_epoch st) + vc_max_frame_size cfg < 2 ^ 64"
  shows "epoch (ss_channel st') = epoch (ss_channel st) \<and>
       unat (ss_bytes_this_epoch st') = unat (ss_bytes_this_epoch st) + turn_bytes st ev (epoch (ss_channel st)) \<or>
     epoch (ss_channel st') = epoch (ss_channel st) + 1 \<and> ss_bytes_this_epoch st' = 0"
  using assms(1)
proof (cases rule: session_step_RunningE)
  case plain
  then show ?thesis
  proof (cases rule: session_select_RunningE)
    case (client d ch' rest w')
    from client(4) have "epoch ch' = epoch (ss_channel st)" by (rule read_frame_DataD) simp
    with client show ?thesis by (simp add: turn_bytes_def)
  next
    case (backend bs k ch' w' total)
    have "length bs \<le> vc_max_frame_size cfg" using assms(2) backend(1) by (simp add: event_ok_def)
    then have "unat total = unat (ss_bytes_this_epoch st) + length bs"
      using assms(3) backend(4) by (simp add: unat_word_ariths unat_of_nat)
    moreover from backend(3) have "epoch ch' = epoch (ss_channel st)" by (rule write_frame_OkE) simp
    ultimately show ?thesis using backend by (simp add: turn_bytes_def)
  next
    case (signal k)
    then show ?thesis by (auto simp: turn_bytes_def)
  qed
next
  case (rotated st1 ch' w' m')
  from rotated(2) obtain ch1 where sk: "send_key_rotate S (ss_channel st1) (ss_client_w st1) (ev_gcm_nonce ev) (ev_nonce ev) = (Ok (), ch1, w')"
    and rk: "rotate_key S ch1 (ev_nonce ev) = Some ch'" by (rule do_rotate_RunningE)
  from sk have "epoch ch1 = epoch (ss_channel st1)" by (rule send_key_rotate_OkE) simp
  moreover from rk have "epoch ch' = epoch ch1 + 1" by (rule rotate_key_SomeD) simp
  moreover from rotated(1) have "epoch (ss_channel st1) = epoch (ss_channel st)"
    by (cases rule: session_select_RunningE) (auto elim!: read_frame_DataD write_frame_OkE)
  ultimately show ?thesis using rotated(3) by simp
qed

lemma session_step_epochs:
  assumes "session_step S cfg st ev = (Running, st')"
  shows "epoch (ss_channel st') = epoch (ss_channel st) \<or> epoch (ss_channel st') = epoch (ss_channel st) + 1"
  using assms
proof (cases rule: session_step_RunningE)
  case plain
  then show ?thesis by (cases rule: session_select_RunningE) (auto elim!: read_frame_DataD write_frame_OkE)
next
  case (rotated st1 ch' w' m')
  from rotated(1) have "epoch (ss_channel st1) = epoch (ss_channel st)"
    by (cases rule: session_select_RunningE) (auto elim!: read_frame_DataD write_frame_OkE)
  with rotated(2,3) show ?thesis
    by (auto elim!: do_rotate_RunningE send_key_rotate_OkE rotate_key_SomeD)
qed

lemma epoch_bytes_older:
  assumes "events_ok S cfg st evs" "unat e < unat (epoch (ss_channel st))" "unat (epoch (ss_channel st)) + length evs < 2 ^ 32"
  shows "epoch_bytes S cfg st evs e = 0"
  using assms
proof (induction evs arbitrary: st)
  case (Cons ev evs)
  have "turn_bytes st ev e = 0" using Cons.prems(2) by (auto simp: turn_bytes_def split: select_arm.splits sum.splits)
  moreover have "epoch_bytes S cfg st' evs e = 0" if s: "session_step S cfg st ev = (Running, st')" for st'
  proof (rule Cons.IH)
    have "epoch (ss_channel st') = epoch (ss_channel st) \<or> epoch (ss_channel st') = epoch (ss_channel st) + 1"
      using s by (rule session_step_epochs)
    then have u: "unat (epoch (ss_channel st')) = unat (epoch (ss_channel st)) \<or> unat (epoch (ss_channel st')) = unat (epoch (ss_channel st)) + 1"
      using Cons.prems(3) by (auto simp: unat_word_ariths)
    then show "unat e < unat (epoch (ss_channel st'))" "unat (epoch (ss_channel st')) + length evs < 2 ^ 32"
      using Cons.prems(2,3) by auto
    show "events_ok S cfg st' evs" using Cons.prems(1) s by simp
  qed
  ultimately show ?case by (auto split: prod.splits loop_status.splits)
qed simp

lemma epoch_bytes_bound:
  assumes "epoch_budget cfg st" "vc_key_rotation_enabled cfg" "unat (vc_max_bytes_per_key cfg) + vc_max_frame_size cfg < 2 ^ 64"
    and "events_ok S cfg st evs" "unat (epoch (ss_channel st)) + length evs < 2 ^ 32"
  shows "(if epoch (ss_channel st) = e then unat (ss_bytes_this_epoch st) else 0) + epoch_bytes S cfg st evs e <
    unat (vc_max_bytes_per_key cfg) + vc_max_frame_size cfg"
  using assms(1,4,5)
proof (induction evs arbitrary: st)
  case Nil
  then have "unat (ss_bytes_this_epoch st) < unat (vc_max_bytes_per_key cfg)" by (simp add: epoch_budget_def word_less_nat_alt)
  then show ?case by simp
next
  case (Cons ev evs)
  have b: "unat (ss_bytes_this_epoch st) < unat (vc_max_bytes_per_key cfg)"
    using Cons.prems(1) by (simp add: epoch_budget_def word_less_nat_alt)
  have ok: "event_ok S cfg st ev" using Cons.prems(2) by simp
  then have t: "turn_bytes st ev e \<le> (if epoch (ss_channel st) = e then vc_max_frame_size cfg else 0)"
    by (auto simp: turn_bytes_def event_ok_def split: select_arm.splits sum.splits)
  show ?case
  proof (cases "\<exists>st'. session_step S cfg st ev = (Running, st')")
    case False
    then have "epoch_bytes S cfg st (ev # evs) e = turn_bytes st ev e"
      by (auto split: prod.splits loop_status.splits)
    with b t show ?thesis by (auto split: if_splits)
  next
    case True
    then obtain st' where s: "session_step S cfg st ev = (Running, st')" by blast
    have inv: "epoch_budget cfg st'" by (rule epoch_budget_step [OF Cons.prems(1) assms(2,3) ok s])
    have evs: "events_ok S cfg st' evs" using Cons.prems(2) s by simp
    have sum: "epoch_bytes S cfg st (ev # evs) e = turn_bytes st ev e + epoch_bytes S cfg st' evs e" using s by simp
    have room: "unat (ss_bytes_this_epoch st) + vc_max_frame_size cfg < 2 ^ 64" using b assms(3) by simp
    from session_step_epoch [OF s ok room] consider
      (same) "epoch (ss_channel st') = epoch (ss_channel st)"
        "unat (ss_bytes_this_epoch st') = unat (ss_bytes_this_epoch st) + turn_bytes st ev (epoch (ss_channel st))"
      | (next_key) "epoch (ss_channel st') = epoch (ss_channel st) + 1" "ss_bytes_this_epoch st' = 0" by blast
    then show ?thesis
    proof cases
      case same
      with Cons.IH [OF inv evs] Cons.prems(3) sum t show ?thesis by (auto split: if_splits)
    next
      case next_key
      then have u: "unat (epoch (ss_channel st')) = unat (epoch (ss_channel st)) + 1"
        using Cons.prems(3) by (simp add: unat_word_ariths)
      with Cons.prems(3) have r: "unat (epoch (ss_channel st')) + length evs < 2 ^ 32" by simp
      have old: "epoch_bytes S cfg st' evs e = 0" if "epoch (ss_channel st) = e"
        by (rule epoch_bytes_older [OF evs _ r]) (use u that in simp)
      from Cons.IH [OF inv evs r] next_key(2) have "epoch_bytes S cfg st' evs e < unat (vc_max_bytes_per_key cfg) + vc_max_frame_size cfg"
        by (auto split: if_splits)
      with sum t b old show ?thesis by (auto split: if_splits)
    qed
  qed
qed

lemma epoch_bytes_current:
  assumes "epoch_budget cfg st" "vc_key_rotation_enabled cfg" "unat (vc_max_bytes_per_key cfg) + vc_max_frame_size cfg < 2 ^ 64"
    and "events_ok S cfg st evs" "unat (epoch (ss_channel st)) + length evs < 2 ^ 32" "session_run S cfg st evs = (Running, st')"
  shows "epoch_budget cfg st' \<and> unat (ss_bytes_this_epoch st') =
    (if epoch (ss_channel st') = epoch (ss_channel st) then unat (ss_bytes_this_epoch st) else 0) + epoch_bytes S cfg st evs (epoch (ss_channel st')) \<and>
    unat (epoch (ss_channel st)) \<le> unat (epoch (ss_channel st'))"
  using assms(1,4-6)
proof (induction evs arbitrary: st)
  case (Cons ev evs)
  from Cons.prems(4) obtain st1 where s: "session_step S cfg st ev = (Running, st1)" and run: "session_run S cfg st1 evs = (Running, st')"
    by (auto split: prod.splits loop_status.splits)
  have ok: "event_ok S cfg st ev" and evs: "events_ok S cfg st1 evs" using Cons.prems(2) s by simp_all
  have inv: "epoch_budget cfg st1" by (rule epoch_budget_step [OF Cons.prems(1) assms(2,3) ok s])
  have b: "unat (ss_bytes_this_epoch st) < unat (vc_max_bytes_per_key cfg)"
    using Cons.prems(1) by (simp add: epoch_budget_def word_less_nat_alt)
  then have room: "unat (ss_bytes_this_epoch st) + vc_max_frame_size cfg < 2 ^ 64" using assms(3) by simp
  have other: "turn_bytes st ev e = 0" if "e \<noteq> epoch (ss_channel st)" for e
    using that by (auto simp: turn_bytes_def split: select_arm.splits sum.splits)
  from session_step_epoch [OF s ok room] consider
    (same) "epoch (ss_channel st1) = epoch (ss_channel st)"
      "unat (ss_bytes_this_epoch st1) = unat (ss_bytes_this_epoch st) + turn_bytes st ev (epoch (ss_channel st))"
    | (next_key) "epoch (ss_channel st1) = epoch (ss_channel st) + 1" "ss_bytes_this_epoch st1 = 0" by blast
  then show ?case
  proof cases
    case same
    with Cons.IH [OF inv evs _ run] Cons.prems(3) s other show ?thesis by auto
  next
    case next_key
    then have u: "unat (epoch (ss_channel st1)) = unat (epoch (ss_channel st)) + 1"
      using Cons.prems(3) by (simp add: unat_word_ariths)
    with Cons.IH [OF inv evs _ run] Cons.prems(3) have ih: "epoch_budget cfg st'"
      "unat (ss_bytes_this_epoch st') = epoch_bytes S cfg st1 evs (epoch (ss_channel st'))"
      "unat (epoch (ss_channel st1)) \<le> unat (epoch (ss_channel st'))" using next_key(2) by (auto split: if_splits)
    with u have "epoch (ss_channel st') \<noteq> epoch (ss_channel st)" by auto
    with ih u s other show ?thesis by auto
  qed
qed simp

text \<open>C21. The bytes sealed under one key are bounded: with rotation enabled, and whatever events the runtime
  delivers, the bridge seals fewer than \<open>max_bytes_per_key\<close> plus one frame of the backend's bytes in every
  key epoch. The frame that reaches the budget is still sealed under the old key, and the same turn rotates:
  between turns the current key has sealed fewer than \<open>max_bytes_per_key\<close> bytes, the counter is exact, and
  the frame number has not passed it, so it never wraps and no nonce of the bridge repeats under a key. What the
  client seals under the key is not counted by the code and not bounded here.\<close>

theorem sealed_bytes_bounded:
  assumes "events_ok S cfg st0 evs" "vc_key_rotation_enabled cfg"
    and "unat (vc_max_bytes_per_key cfg) + vc_max_frame_size cfg < 2 ^ 64" "0 < vc_max_bytes_per_key cfg"
    and "ss_bytes_this_epoch st0 = 0" "send_seq (ss_channel st0) = 0" "unat (epoch (ss_channel st0)) + length evs < 2 ^ 32"
  shows "epoch_bytes S cfg st0 evs e < unat (vc_max_bytes_per_key cfg) + vc_max_frame_size cfg \<and>
     (\<forall>st. session_run S cfg st0 evs = (Running, st) \<longrightarrow>
        epoch_bytes S cfg st0 evs (epoch (ss_channel st)) = unat (ss_bytes_this_epoch st) \<and>
        unat (send_seq (ss_channel st)) \<le> unat (ss_bytes_this_epoch st) \<and>
        unat (ss_bytes_this_epoch st) < unat (vc_max_bytes_per_key cfg))"
proof -
  have inv: "epoch_budget cfg st0" using assms(4-6) by (simp add: epoch_budget_def)
  note args = inv assms(2,3,1,7)
  have "epoch_bytes S cfg st0 evs e < unat (vc_max_bytes_per_key cfg) + vc_max_frame_size cfg"
    using epoch_bytes_bound [OF args, of e] assms(5) by (simp split: if_splits)
  moreover have "epoch_bytes S cfg st0 evs (epoch (ss_channel st)) = unat (ss_bytes_this_epoch st) \<and>
      unat (send_seq (ss_channel st)) \<le> unat (ss_bytes_this_epoch st) \<and>
      unat (ss_bytes_this_epoch st) < unat (vc_max_bytes_per_key cfg)" if "session_run S cfg st0 evs = (Running, st)" for st
    using epoch_bytes_current [OF args that] assms(5) by (auto simp: epoch_budget_def word_less_nat_alt)
  ultimately show ?thesis by blast
qed

definition demo_session :: "bytes \<Rightarrow> session" where
  "demo_session arriving = \<lparr>ss_channel = channel_new demo_key 65536, ss_client_in = arriving,
     ss_client_w = open_writer, ss_backend_w = open_writer, ss_bytes_this_epoch = 0, ss_metrics = metrics_init\<rparr>"

definition demo_cfg :: valid_config where
  "demo_cfg = demo_valid\<lparr>vc_key_rotation_enabled := True, vc_max_bytes_per_key := 2, vc_max_frame_size := 65536\<rparr>"

definition demo_event :: "select_arm \<Rightarrow> session_event" where
  "demo_event a = \<lparr>ev_arm = a, ev_nonce = replicate 32 7, ev_gcm_nonce = replicate 12 9\<rparr>"

theorem sealed_bytes_bounded_witness:
  "\<exists>st. session_run toy_sym demo_cfg (demo_session []) [demo_event (BackendRead (Ok [5]) 0), demo_event (BackendRead (Ok [5, 6, 7]) 0)] = (Running, st) \<and>
     epoch (ss_channel st) = 1 \<and> ss_bytes_this_epoch st = 0 \<and>
     epoch_bytes toy_sym demo_cfg (demo_session []) [demo_event (BackendRead (Ok [5]) 0), demo_event (BackendRead (Ok [5, 6, 7]) 0)] 0 = 4 \<and>
     (4 :: nat) < 2 + 65536"
proof -
  let ?evs = "[demo_event (BackendRead (Ok [5]) 0), demo_event (BackendRead (Ok [5, 6, 7]) 0)]"
  have lt: "\<not> (2 :: u64) \<le> 1" "(2 :: u64) \<le> 4" by (simp_all add: word_le_nat_alt)
  note ev = session_step_def demo_event_def demo_session_def demo_cfg_def write_frame_def toy_sym_def io_simps Let_def lt
    do_rotate_def send_key_rotate_def rotate_key_def channel_new_def
  obtain st where st: "session_run toy_sym demo_cfg (demo_session []) ?evs = (Running, st)" "epoch (ss_channel st) = 1" "ss_bytes_this_epoch st = 0"
    by (simp add: ev)
  have ok: "events_ok toy_sym demo_cfg (demo_session []) ?evs" by (simp add: ev event_ok_def incomplete_def)
  have eb: "epoch_bytes toy_sym demo_cfg (demo_session []) ?evs 0 = 4" by (simp add: ev turn_bytes_def)
  from sealed_bytes_bounded [OF ok, of 0] eb st show ?thesis
    by (auto simp: demo_cfg_def demo_session_def channel_new_def)
qed

section \<open>Rotations and their counter\<close>

text \<open>Rotations are counted: in every reachable state the session has gone through some number of
  rotations, by which its key epoch, the announcements it sent and the bridge's rotation counters
  have advanced, and the connection counters have not changed.\<close>

theorem rotations_are_counted:
  assumes "session_reach S cfg st0 st"
  shows "\<exists>n. epoch (ss_channel st) = epoch (ss_channel st0) + word_of_nat n \<and>
     key_rotate_send_seq (ss_channel st) = key_rotate_send_seq (ss_channel st0) + word_of_nat n \<and>
     key_rotations_total (bm_state (ss_metrics st)) = key_rotations_total (bm_state (ss_metrics st0)) + word_of_nat n \<and>
     prom_key_rotations (bm_prom (ss_metrics st)) = prom_key_rotations (bm_prom (ss_metrics st0)) + n \<and>
     connections_active (bm_state (ss_metrics st)) = connections_active (bm_state (ss_metrics st0))"
  using assms
proof (induction rule: session_reach.induct)
  case start
  show ?case by (rule exI [of _ 0]) simp
next
  case (turn st ev st')
  then obtain n where n: "epoch (ss_channel st) = epoch (ss_channel st0) + word_of_nat n"
    "key_rotate_send_seq (ss_channel st) = key_rotate_send_seq (ss_channel st0) + word_of_nat n"
    "key_rotations_total (bm_state (ss_metrics st)) = key_rotations_total (bm_state (ss_metrics st0)) + word_of_nat n"
    "prom_key_rotations (bm_prom (ss_metrics st)) = prom_key_rotations (bm_prom (ss_metrics st0)) + n"
    "connections_active (bm_state (ss_metrics st)) = connections_active (bm_state (ss_metrics st0))" by blast
  have sel: "epoch (ss_channel st1) = epoch (ss_channel st) \<and>
      key_rotate_send_seq (ss_channel st1) = key_rotate_send_seq (ss_channel st) \<and>
      key_rotations_total (bm_state (ss_metrics st1)) = key_rotations_total (bm_state (ss_metrics st)) \<and>
      prom_key_rotations (bm_prom (ss_metrics st1)) = prom_key_rotations (bm_prom (ss_metrics st)) \<and>
      connections_active (bm_state (ss_metrics st1)) = connections_active (bm_state (ss_metrics st))"
    if "session_select S cfg st (ev_arm ev) = (Running, b, st1)" for b st1
    using that
  proof (cases rule: session_select_RunningE)
    case (client d ch' rest w')
    from client(4) show ?thesis using client(6) by (auto elim!: read_frame_DataD)
  next
    case (backend bs k ch' w' total)
    from backend(3) show ?thesis using backend(6) by (auto simp: count_bytes_def elim!: write_frame_OkE)
  qed auto
  from turn(3) show ?case
  proof (cases rule: session_step_RunningE)
    case plain
    from sel [OF plain] n show ?thesis by auto
  next
    case (rotated st1 ch' w' m')
    from rotated(2) obtain ch1 where
      sk: "send_key_rotate S (ss_channel st1) (ss_client_w st1) (ev_gcm_nonce ev) (ev_nonce ev) = (Ok (), ch1, w')"
      and rk: "rotate_key S ch1 (ev_nonce ev) = Some ch'" and m': "m' = count_rotation (ss_metrics st1)"
      by (rule do_rotate_RunningE)
    from sk have ch1: "ch1 = (ss_channel st1)\<lparr>key_rotate_send_seq := key_rotate_send_seq (ss_channel st1) + 1\<rparr>"
      by (rule send_key_rotate_OkE)
    from rk obtain k where ch': "ch' = ch1\<lparr>cipher := k, key_bytes := k, send_seq := 0, recv_seq := 0,
      recv_initialized := False, epoch := epoch ch1 + 1\<rparr>" by (rule rotate_key_SomeD)
    show ?thesis
      by (rule exI [of _ "Suc n"])
        (use sel [OF rotated(1)] n rotated(3) ch1 ch' m' in \<open>simp add: count_rotation_def algebra_simps\<close>)
  qed
qed

theorem rotations_are_counted_witness:
  "\<exists>st n. session_reach toy_sym demo_cfg (demo_session []) st \<and> epoch (ss_channel st) = word_of_nat n \<and>
     key_rotations_total (bm_state (ss_metrics st)) = word_of_nat n \<and> n = prom_key_rotations (bm_prom (ss_metrics st))"
proof -
  let ?ev = "demo_event (RotationTick 0)"
  obtain st where st: "session_step toy_sym demo_cfg (demo_session []) ?ev = (Running, st)"
    by (simp add: session_step_def demo_event_def demo_session_def do_rotate_def send_key_rotate_def toy_sym_def
        io_simps Let_def rotate_key_def)
  have r: "session_reach toy_sym demo_cfg (demo_session []) st"
    by (rule session_reach.turn [OF session_reach.start _ st])
      (simp add: event_ok_def demo_event_def incomplete_def demo_cfg_def)
  from rotations_are_counted [OF r] show ?thesis using r
    by (auto simp: demo_session_def channel_new_def metrics_init_def metrics_state_new_def prometheus_new_def)
qed

section \<open>What reaches the backend\<close>

text \<open>The payloads the backend got, with the key epoch and the number under which each was read: in the order of
  epochs and numbers, sealed by one of the ends under the key of that epoch, and all read before the present
  state of the receive counter.\<close>

definition read_before :: "u32 \<times> u64 \<times> bytes \<Rightarrow> u32 \<times> u64 \<times> bytes \<Rightarrow> bool" where
  "read_before x y \<longleftrightarrow> fst x < fst y \<or> fst x = fst y \<and> fst (snd x) < fst (snd y)"

definition sealed_by :: "seals \<Rightarrow> seals \<Rightarrow> u64 \<Rightarrow> bytes \<Rightarrow> bool" where
  "sealed_by c b q p \<longleftrightarrow> data_at c q p \<or> data_at b q p \<or> rotation_at c q p \<or> rotation_at b q p"

definition relayed :: "(u32 \<Rightarrow> seals) \<Rightarrow> (u32 \<Rightarrow> seals) \<Rightarrow> session \<Rightarrow> (u32 \<times> u64 \<times> bytes) list \<Rightarrow> session \<Rightarrow> bool" where
  "relayed client bridge st0 D st \<longleftrightarrow>
     w_sent (ss_backend_w st) = w_sent (ss_backend_w st0) @ concat (map (snd \<circ> snd) D) \<and> sorted_wrt read_before D \<and>
     (\<forall>(e, q, p) \<in> set D. sealed_by (client e) (bridge e) q p \<and> (e < epoch (ss_channel st) \<or>
        e = epoch (ss_channel st) \<and> recv_initialized (ss_channel st) \<and> q \<le> recv_seq (ss_channel st)))"

lemma relayed_cong:
  assumes "relayed client bridge st0 D st" "ss_backend_w st' = ss_backend_w st"
    "epoch (ss_channel st') = epoch (ss_channel st)" "recv_seq (ss_channel st') = recv_seq (ss_channel st)"
    "recv_initialized (ss_channel st') = recv_initialized (ss_channel st)"
  shows "relayed client bridge st0 D st'"
  using assms by (simp add: relayed_def)

lemma relayed_ratchet:
  assumes "relayed client bridge st0 D st" "ss_backend_w st' = ss_backend_w st"
    "epoch (ss_channel st) < epoch (ss_channel st')"
  shows "relayed client bridge st0 D st'"
  using assms unfolding relayed_def by (fastforce dest: order.strict_trans)

lemma relayed_client:
  assumes inv: "relayed client bridge st0 D st"
    and un: "unforged S (cipher (ss_channel st)) (sealed (client (epoch (ss_channel st))) \<union> sealed (bridge (epoch (ss_channel st)))) (ss_client_in st)"
    and ok: "seals_ok (client (epoch (ss_channel st)))" "seals_ok (bridge (epoch (ss_channel st)))"
    and rd: "read_frame S (ss_channel st) (ss_client_in st) = (Ok (Data d), ch', rest)"
    and st': "ss_channel st' = ch'" "w_sent (ss_backend_w st') = w_sent (ss_backend_w st) @ d"
  shows "(\<exists>q. relayed client bridge st0 (D @ [(epoch (ss_channel st), q, d)]) st') \<and> suffix rest (ss_client_in st)"
proof -
  let ?e = "epoch (ss_channel st)"
  from rd obtain q n c t where f: "ss_client_in st = data_wire q n c t @ rest" "length n = 12" "length t = 16" "length c + 16 < 2 ^ 32"
    "gcm_decrypt S (cipher (ss_channel st)) n (u64_to_be q) c t = Some d" "recv_initialized (ss_channel st) \<longrightarrow> recv_seq (ss_channel st) < q"
    "ch' = (ss_channel st)\<lparr>recv_seq := q, recv_initialized := True\<rparr>"
    by (rule read_frame_DataD)
  have "(n, u64_to_be q, d) \<in> sealed (client ?e) \<union> sealed (bridge ?e)"
    by (rule unforgedD [of S "cipher (ss_channel st)" _ "[]"]) (use un f in simp_all)
  then have "sealed_by (client ?e) (bridge ?e) q d" using sealed_cases ok unfolding sealed_by_def by blast
  moreover have "sorted_wrt read_before (D @ [(?e, q, d)])"
    using inv f(6) by (fastforce simp: relayed_def sorted_wrt_append read_before_def)
  moreover have "\<forall>(e, m, p) \<in> set D. e < ?e \<or> e = ?e \<and> m \<le> q"
    using inv f(6) by (fastforce simp: relayed_def)
  ultimately have "relayed client bridge st0 (D @ [(?e, q, d)]) st'"
    using inv st' f(7) by (auto simp: relayed_def)
  moreover have "suffix rest (ss_client_in st)" using f(1) by (simp add: suffix_def)
  ultimately show ?thesis by blast
qed

lemma suffix_dropped: "suffix s t \<Longrightarrow> suffix (drop k s) t"
  by (rule suffix_order.trans [OF suffix_drop])

lemma unforged_of_suffix: "unforged S k L t \<Longrightarrow> suffix s t \<Longrightarrow> unforged S k L s"
  by (auto simp: suffix_def intro: unforged_suffix)

text \<open>One turn.\<close>

lemma relayed_step:
  assumes inv: "relayed client bridge st0 D st" "suffix (ss_client_in st) (ss_client_in st0)"
    and un: "unforged S (cipher (ss_channel st)) (sealed (client (epoch (ss_channel st))) \<union> sealed (bridge (epoch (ss_channel st)))) (ss_client_in st0)"
    and ok: "\<forall>e. seals_ok (client e) \<and> seals_ok (bridge e)" and room: "unat (epoch (ss_channel st)) + 1 < 2 ^ 32"
    and step: "session_step S cfg st ev = (Running, st')"
  shows "\<exists>D'. relayed client bridge st0 D' st' \<and> suffix (ss_client_in st') (ss_client_in st0)"
proof -
  have select: "\<exists>D'. relayed client bridge st0 D' st1 \<and> suffix (ss_client_in st1) (ss_client_in st0) \<and> epoch (ss_channel st1) = epoch (ss_channel st)"
    if "session_select S cfg st (ev_arm ev) = (Running, b, st1)" for b st1
    using that
  proof (cases rule: session_select_RunningE)
    case (client d ch' rest w')
    have "(\<exists>q. relayed client bridge st0 (D @ [(epoch (ss_channel st), q, d)]) st1) \<and> suffix rest (ss_client_in st)"
      by (rule relayed_client [OF inv(1) unforged_of_suffix [OF un inv(2)] _ _ client(4)])
        (use ok client(5,6) in \<open>auto dest: write_all_OkD\<close>)
    moreover from client(4) have "epoch ch' = epoch (ss_channel st)" by (rule read_frame_DataD) simp
    ultimately show ?thesis using client(6) inv(2) suffix_order.trans [of rest] by auto
  next
    case (backend bs k ch' w' total)
    from backend(3) have "ch' = (ss_channel st)\<lparr>send_seq := send_seq (ss_channel st) + 1\<rparr>" by (rule write_frame_OkE)
    with backend(6) have "relayed client bridge st0 D st1 \<and> epoch (ss_channel st1) = epoch (ss_channel st)"
      by (auto intro!: relayed_cong [OF inv(1)])
    with backend(6) inv(2) show ?thesis by (auto intro: suffix_dropped)
  next
    case (signal k)
    then have "relayed client bridge st0 D st1 \<and> epoch (ss_channel st1) = epoch (ss_channel st)"
      by (auto intro!: relayed_cong [OF inv(1)])
    with signal inv(2) show ?thesis by (auto intro: suffix_dropped)
  qed
  from step show ?thesis
  proof (cases rule: session_step_RunningE)
    case plain
    from select [OF plain] show ?thesis by blast
  next
    case (rotated st1 ch' w' m')
    from rotated(2) have "epoch ch' = epoch (ss_channel st1) + 1"
      by (auto elim!: do_rotate_RunningE send_key_rotate_OkE rotate_key_SomeD)
    moreover from select [OF rotated(1)] obtain D' where D': "relayed client bridge st0 D' st1"
      "suffix (ss_client_in st1) (ss_client_in st0)" "epoch (ss_channel st1) = epoch (ss_channel st)" by blast
    ultimately have "epoch (ss_channel st1) < epoch (ss_channel st')"
      using room rotated(3) by (simp add: word_less_nat_alt unat_word_ariths)
    then have "relayed client bridge st0 D' st'" by (rule relayed_ratchet [OF D'(1), rotated]) (simp add: rotated(3))
    with D'(2) rotated(3) show ?thesis by auto
  qed
qed

text \<open>C20. The backend receives only what was sealed for the session: against an attacker who controls every byte on
  the client's connection and may replay, reorder and reflect everything that either end sealed, and for every
  interleaving of relay events, rotations included, with any number of bytes lost by dropped reads: when under
  each key the arriving bytes hold no forgery, the bytes written to the backend are payloads sealed under the key
  of their epoch, by the client, by the bridge itself (reflected), or as the nonce of a KEY_ROTATE frame;
  they come in increasing order of epoch and number, so none twice; and in each epoch those that are neither
  reflected nor rotation nonces are a subsequence of what the client wrote.\<close>

theorem backend_receives_sealed_data:
  assumes "session_run S cfg st0 evs = (Running, st)"
    and "\<forall>es st1. prefix es evs \<longrightarrow> session_run S cfg st0 es = (Running, st1) \<longrightarrow>
      unforged S (cipher (ss_channel st1)) (sealed (client (epoch (ss_channel st1))) \<union> sealed (bridge (epoch (ss_channel st1)))) (ss_client_in st0)"
    and "\<forall>e. seals_ok (client e) \<and> seals_ok (bridge e)" and "unat (epoch (ss_channel st0)) + length evs < 2 ^ 32"
  shows "\<exists>D. w_sent (ss_backend_w st) = w_sent (ss_backend_w st0) @ concat (map (snd \<circ> snd) D) \<and> sorted_wrt read_before D \<and>
    (\<forall>(e, q, p) \<in> set D. sealed_by (client e) (bridge e) q p) \<and>
    (\<forall>e. subseq (map (snd \<circ> snd) (filter (\<lambda>(e', q, p). e' = e \<and> \<not> data_at (bridge e) q p \<and> \<not> rotation_at (client e) q p \<and>
      \<not> rotation_at (bridge e) q p) D)) (sl_data (client e)))"
proof -
  have "\<exists>D. relayed client bridge st0 D st \<and> suffix (ss_client_in st) (ss_client_in st0) \<and>
      unat (epoch (ss_channel st)) \<le> unat (epoch (ss_channel st0)) + length evs"
    using assms(1,2,4)
  proof (induction evs arbitrary: st rule: rev_induct)
    case Nil
    then show ?case by (auto simp: relayed_def intro: exI [of _ "[]"])
  next
    case (snoc ev evs)
    from snoc.prems(1) obtain st1 where run: "session_run S cfg st0 evs = (Running, st1)" and step: "session_step S cfg st1 ev = (Running, st)"
      unfolding session_run_append_Running by (force split: prod.splits loop_status.splits)
    have un: "unforged S (cipher (ss_channel st1)) (sealed (client (epoch (ss_channel st1))) \<union> sealed (bridge (epoch (ss_channel st1)))) (ss_client_in st0)"
      by (rule snoc.prems(2) [rule_format, OF _ run]) simp
    have "\<exists>D. relayed client bridge st0 D st1 \<and> suffix (ss_client_in st1) (ss_client_in st0) \<and>
        unat (epoch (ss_channel st1)) \<le> unat (epoch (ss_channel st0)) + length evs"
      by (rule snoc.IH [OF run]) (use snoc.prems in auto)
    then obtain D where D: "relayed client bridge st0 D st1" "suffix (ss_client_in st1) (ss_client_in st0)"
      "unat (epoch (ss_channel st1)) \<le> unat (epoch (ss_channel st0)) + length evs" by blast
    have room: "unat (epoch (ss_channel st1)) + 1 < 2 ^ 32" using D(3) snoc.prems(3) by simp
    then have "unat (epoch (ss_channel st)) \<le> unat (epoch (ss_channel st1)) + 1"
      using session_step_epochs [OF step] by (auto simp: unat_word_ariths)
    with relayed_step [OF D(1,2) un assms(3) room step] D(3) show ?case by auto
  qed
  then obtain D where D: "relayed client bridge st0 D st" by blast
  have "subseq (map (snd \<circ> snd) E) (sl_data (client e))"
    if "E = filter (\<lambda>(e', q, p). e' = e \<and> \<not> data_at (bridge e) q p \<and> \<not> rotation_at (client e) q p \<and> \<not> rotation_at (bridge e) q p) D" for e E
  proof -
    have "sorted_wrt read_before E" using D that by (auto simp: relayed_def intro: sorted_wrt_filter)
    then have "sorted_wrt (<) (map fst (map snd E))"
      unfolding sorted_wrt_map by (rule sorted_wrt_mono_rel [rotated]) (auto simp: that read_before_def)
    moreover have "\<forall>(q, p) \<in> set (map snd E). data_at (client e) q p"
      using D by (auto simp: that relayed_def sealed_by_def)
    ultimately show ?thesis using data_at_subseq [of "map snd E" "client e"] by simp
  qed
  with D show ?thesis unfolding relayed_def by blast
qed

theorem backend_receives_sealed_data_witness:
  "\<exists>st D. session_run toy_sym demo_cfg (demo_session (demo_data_frame 0 5)) [demo_event (BackendRead (Ok [9]) 0), demo_event ClientFrame] = (Running, st) \<and>
     w_sent (ss_backend_w st) = [5] \<and> [5] = concat (map (snd \<circ> snd) D) \<and> aead_laws toy_sym \<and>
     (\<forall>(e :: u32, q, p) \<in> set D. sealed_by \<lparr>sl_chan = channel_new demo_key 65536, sl_data = [[5]], sl_rotations = []\<rparr>
        \<lparr>sl_chan = channel_new demo_key 65536, sl_data = [[9]], sl_rotations = []\<rparr> q p)"
proof -
  let ?evs = "[demo_event (BackendRead (Ok [9]) 0), demo_event ClientFrame]" and ?st = "demo_session (demo_data_frame 0 5)"
  let ?c = "\<lparr>sl_chan = channel_new demo_key 65536, sl_data = [[5]], sl_rotations = []\<rparr>"
  let ?b = "\<lparr>sl_chan = channel_new demo_key 65536, sl_data = [[9]], sl_rotations = []\<rparr>"
  have rd: "read_frame toy_sym r (demo_data_frame 0 5) = (Ok (Data [5]), r\<lparr>recv_seq := 0, recv_initialized := True\<rparr>, [])"
    if "cipher r = demo_key" "max_frame_size r = 65536" "\<not> recv_initialized r" for r
    using read_data_wire [of "u64_to_be 0 @ u32_to_be 0" "toy_tag demo_key (u64_to_be 0)" "[5]" r toy_sym 0 "[]"] that
    unfolding demo_data_frame_def by (auto simp: toy_sym_def toy_tag_def)
  have lt: "\<not> (2 :: u64) \<le> 1" by (simp add: word_le_nat_alt)
  obtain st1 where s1: "session_step toy_sym demo_cfg ?st (hd ?evs) = (Running, st1)"
    "ss_channel st1 = (channel_new demo_key 65536)\<lparr>send_seq := 1\<rparr>" "ss_client_in st1 = demo_data_frame 0 5" "ss_backend_w st1 = open_writer"
    by (simp add: session_step_def demo_event_def demo_session_def demo_cfg_def write_frame_def toy_sym_def io_simps Let_def lt channel_new_def)
  obtain st where s2: "session_step toy_sym demo_cfg st1 (demo_event ClientFrame) = (Running, st)" "w_sent (ss_backend_w st) = [5]"
    "cipher (ss_channel st) = demo_key"
    using s1(2-4) rd [of "ss_channel st1"] by (simp add: session_step_def demo_event_def channel_new_def write_all.simps)
  have run: "session_run toy_sym demo_cfg ?st ?evs = (Running, st)" using s1(1) s2(1) by simp
  have un: "unforged toy_sym demo_key (sealed ?c \<union> sealed ?b) (demo_data_frame 0 5)"
    unfolding unforged_def
  proof (intro allI impI)
    fix u v q n c t p
    assume "demo_data_frame 0 5 = u @ data_wire q n c t @ v" "length n = 12" "length t = 16" "length c + 16 < 2 ^ 32"
      and d: "gcm_decrypt toy_sym demo_key n (u64_to_be q) c t = Some p"
    from demo_data_frame_only [OF this(1-4)] d show "(n, u64_to_be q, p) \<in> sealed ?c \<union> sealed ?b"
      by (auto simp: toy_sym_def sealed_def data_nonce_def channel_new_def split: if_splits)
  qed
  have keys: "cipher (ss_channel st') = demo_key" if "prefix es ?evs" "session_run toy_sym demo_cfg ?st es = (Running, st')" for es st'
  proof -
    from that(1) have "es \<in> {[], [hd ?evs], ?evs}" by (auto simp: prefix_Cons)
    with that(2) s1 s2 run show ?thesis by (auto simp: demo_session_def channel_new_def)
  qed
  have st: "ss_client_in ?st = demo_data_frame 0 5" "epoch (ss_channel ?st) = 0" "w_sent (ss_backend_w ?st) = []"
    by (simp_all add: demo_session_def channel_new_def)
  have ok: "seals_ok ?c" "seals_ok ?b" by (simp_all add: seals_ok_def channel_new_def)
  have "\<exists>D. w_sent (ss_backend_w st) = w_sent (ss_backend_w ?st) @ concat (map (snd \<circ> snd) D) \<and> sorted_wrt read_before D \<and>
      (\<forall>(e, q, p) \<in> set D. sealed_by ?c ?b q p) \<and> (\<forall>e. subseq (map (snd \<circ> snd) (filter (\<lambda>(e', q, p). e' = e \<and>
        \<not> data_at ?b q p \<and> \<not> rotation_at ?c q p \<and> \<not> rotation_at ?b q p) D)) (sl_data ?c))"
    by (rule backend_receives_sealed_data [OF run, of "\<lambda>_. ?c" "\<lambda>_. ?b"]) (use keys un st ok in auto)
  then obtain D where "w_sent (ss_backend_w st) = concat (map (snd \<circ> snd) D)" "\<forall>(e :: u32, q, p) \<in> set D. sealed_by ?c ?b q p"
    using st(3) by auto
  with run s2(2) toy_sym_laws(1) show ?thesis by (intro exI [of _ st] exI [of _ D]) simp
qed

section \<open>Frames in flight\<close>

text \<open>C23. \<open>read_frame\<close> is not cancel-safe: if the first byte of a client frame has arrived when the
  backend delivers data, the dropped read takes that byte with it, and the next turn that reads from
  the client finds the length field where it expects the type, counts a channel error and ends the
  session, although the client's frame is intact.\<close>

theorem dropped_read_desynchronises:
  assumes "bs \<noteq> []" and "length c + 16 < 2 ^ 24"
    and "ss_client_in st = data_wire seq n c t @ rest"
    and "session_step S cfg st ev = (Running, st1)" and "ev_arm ev = BackendRead (Ok bs) 1"
    and "ev_arm ev' = ClientFrame"
  shows "\<exists>st2. session_step S cfg st1 ev' = (Broken, st2) \<and> ss_backend_w st2 = ss_backend_w st \<and>
     channel_errors_total (bm_state (ss_metrics st2)) = channel_errors_total (bm_state (ss_metrics st1)) + 1"
proof -
  have in1: "ss_client_in st1 = drop 1 (ss_client_in st)" and bw: "ss_backend_w st1 = ss_backend_w st"
    using assms(4) by (cases rule: session_step_RunningE; elim session_select_RunningE; use assms(5) in force)+
  have "be_bytes 4 (length c + 16) = word_of_nat ((length c + 16) div 256 ^ 3 mod 256) # be_bytes 3 (length c + 16)"
    using be_bytes_hd [of 3 "length c + 16"] by simp
  moreover have "(length c + 16) div 256 ^ 3 = 0" using assms(2) by simp
  moreover have "unat (word_of_nat (length c + 16) :: u32) = length c + 16"
    by (rule unat_u32_of_nat) (use assms(2) in simp)
  ultimately have "u32_to_be (word_of_nat (length c + 16)) = 0 # be_bytes 3 (length c + 16)"
    unfolding u32_to_be_def by simp
  then have "ss_client_in st1 = 0 # be_bytes 3 (length c + 16) @ u64_to_be seq @ n @ c @ t @ rest"
    using in1 assms(3) by (simp add: data_wire_def frame_defs)
  then have "fst (read_frame S (ss_channel st1) (ss_client_in st1)) = Err (Invalid (UnknownFrameType 0))"
    by (simp add: read_frame_def io_simps frame_defs)
  then show ?thesis using assms(6) bw
    by (cases "read_frame S (ss_channel st1) (ss_client_in st1)")
      (simp add: session_step_def count_channel_error_def)
qed

theorem dropped_read_desynchronises_witness:
  "\<exists>st1 st2. session_step toy_sym (demo_cfg\<lparr>vc_key_rotation_enabled := False\<rparr>)
       (demo_session (data_wire 0 (replicate 12 0) [8] (replicate 16 0) @ [])) (demo_event (BackendRead (Ok [5]) 1)) = (Running, st1) \<and>
     session_step toy_sym (demo_cfg\<lparr>vc_key_rotation_enabled := False\<rparr>) st1 (demo_event ClientFrame) = (Broken, st2)"
proof -
  let ?cfg = "demo_cfg\<lparr>vc_key_rotation_enabled := False\<rparr>"
  let ?st = "demo_session (data_wire 0 (replicate 12 0) [8] (replicate 16 0) @ [])"
  obtain st1 where st: "session_step toy_sym ?cfg ?st (demo_event (BackendRead (Ok [5]) 1)) = (Running, st1)"
    by (simp add: session_step_def demo_event_def demo_session_def write_frame_def toy_sym_def io_simps Let_def)
  have "ss_client_in ?st = data_wire 0 (replicate 12 0) [8] (replicate 16 0) @ []" by (simp add: demo_session_def)
  from dropped_read_desynchronises [OF _ _ this st, of "[5]" "demo_event ClientFrame"] st show ?thesis
    by (auto simp: demo_event_def)
qed

text \<open>A turn that changes the epoch: it rotated, read nothing from the client and wrote nothing to the backend.\<close>

lemma epoch_change_state:
  assumes "session_step S cfg st ev = (Running, st1)" "epoch (ss_channel st1) \<noteq> epoch (ss_channel st)"
  shows "\<not> recv_initialized (ss_channel st1)" "max_frame_size (ss_channel st1) = max_frame_size (ss_channel st)"
    "ss_backend_w st1 = ss_backend_w st"
proof -
  have sel: "max_frame_size (ss_channel st2) = max_frame_size (ss_channel st) \<and> epoch (ss_channel st2) = epoch (ss_channel st) \<and>
      (b \<longrightarrow> ss_backend_w st2 = ss_backend_w st)" if "session_select S cfg st (ev_arm ev) = (Running, b, st2)" for b st2
    using that by (cases rule: session_select_RunningE) (auto elim!: read_frame_DataD write_frame_OkE)
  from assms(1) have "\<not> recv_initialized (ss_channel st1) \<and> max_frame_size (ss_channel st1) = max_frame_size (ss_channel st) \<and>
      ss_backend_w st1 = ss_backend_w st"
  proof (cases rule: session_step_RunningE)
    case plain
    with sel assms(2) show ?thesis by blast
  next
    case (rotated st2 ch' w' m')
    from rotated(2,3) sel [OF rotated(1)] show ?thesis
      by (auto elim!: do_rotate_RunningE send_key_rotate_OkE rotate_key_SomeD)
  qed
  then show "\<not> recv_initialized (ss_channel st1)" "max_frame_size (ss_channel st1) = max_frame_size (ss_channel st)"
    "ss_backend_w st1 = ss_backend_w st" by blast+
qed

text \<open>C22. A rotation refuses the client's frames in flight. The client, in step with the bridge, has sealed a
  payload and the frame has arrived. Were it read in the next turn, the payload would go to the backend. When
  the next turn rotates instead (by the timer, a command or the byte budget; none of the frame is lost), the bridge has already switched to the new key, the
  frame, like everything that arrived before anyone sealed under the new key, does not open, and the turn that reads it counts a channel
  error and ends the session: the payload never reaches the backend.\<close>

theorem rotation_refuses_frames_in_flight:
  assumes "prim_laws S" and "in_step client (ss_channel st)"
    and "write_frame S client open_writer d = (Ok (), client', w)" and "ss_client_in st = w_sent w @ rest"
    and "d \<noteq> []" "length d \<le> max_frame_size (ss_channel st)" "length d + 16 < 2 ^ 32" and "w_budget (ss_backend_w st) = None"
    and "session_step S cfg st ev = (Running, st1)" and "epoch (ss_channel st1) \<noteq> epoch (ss_channel st)"
    and "ss_client_in st1 = ss_client_in st" and "unforged S (cipher (ss_channel st1)) {} (ss_client_in st)"
    and "ev_arm ev' = ClientFrame"
  shows "(\<exists>st2. session_step S cfg st ev' = (Running, st2) \<and> w_sent (ss_backend_w st2) = w_sent (ss_backend_w st) @ d \<and> ss_client_in st2 = rest) \<and>
    (\<exists>st2. session_step S cfg st1 ev' = (Broken, st2) \<and> ss_backend_w st2 = ss_backend_w st \<and>
     channel_errors_total (bm_state (ss_metrics st2)) = channel_errors_total (bm_state (ss_metrics st1)) + 1)"
proof
  have laws: "aead_laws S" using assms(1) by (simp add: prim_laws_def)
  have link: "cipher (ss_channel st) = cipher client" "recv_initialized (ss_channel st) \<longrightarrow> recv_seq (ss_channel st) < send_seq client"
    using assms(2) by (simp_all add: in_step_def)
  have "read_frame S (ss_channel st) (ss_client_in st) =
      (Ok (Data d), (ss_channel st)\<lparr>recv_seq := send_seq client, recv_initialized := True\<rparr>, rest)"
    using write_frame_reads_back [OF laws assms(3) link assms(6,7), of rest] assms(4) by auto
  then show "\<exists>st2. session_step S cfg st ev' = (Running, st2) \<and> w_sent (ss_backend_w st2) = w_sent (ss_backend_w st) @ d \<and> ss_client_in st2 = rest"
    using assms(5,8,13) by (simp add: session_step_def write_all.simps)
next
  have laws: "aead_laws S" using assms(1) by (simp add: prim_laws_def)
  from assms(3) obtain c t where
    e: "gcm_encrypt S (cipher client) (data_nonce client) (u64_to_be (send_seq client)) d = Some (c, t)"
    and w: "w_sent w = data_wire (send_seq client) (data_nonce client) c t"
    by (rule write_frame_OkE) simp
  note ct = aead_lawsD [OF laws e]
  have "gcm_decrypt S (cipher (ss_channel st1)) (data_nonce client) (u64_to_be (send_seq client)) c t = None"
  proof (rule ccontr)
    assume "\<not> ?thesis"
    then obtain p where "gcm_decrypt S (cipher (ss_channel st1)) (data_nonce client) (u64_to_be (send_seq client)) c t = Some p" by auto
    from unforgedD [OF _ _ _ _ this, of "{}" "[]" rest] assms(4,7,12) w ct show False by simp
  qed
  then have "fst (read_frame S (ss_channel st1) (ss_client_in st1)) = Err AeadFailure"
    using ct assms(4,6,7,11) w epoch_change_state [OF assms(9,10)] by (simp add: read_data_wire)
  then show "\<exists>st2. session_step S cfg st1 ev' = (Broken, st2) \<and> ss_backend_w st2 = ss_backend_w st \<and>
     channel_errors_total (bm_state (ss_metrics st2)) = channel_errors_total (bm_state (ss_metrics st1)) + 1"
    using assms(13) epoch_change_state(3) [OF assms(9,10)]
    by (cases "read_frame S (ss_channel st1) (ss_client_in st1)") (simp add: session_step_def count_channel_error_def)
qed

theorem rotation_refuses_frames_in_flight_witness:
  "\<exists>st1 st2 st3. session_step toy_sym demo_cfg (demo_session (demo_data_frame 0 5)) (demo_event (RotationTick 0)) = (Running, st1) \<and>
     session_step toy_sym demo_cfg (demo_session (demo_data_frame 0 5)) (demo_event ClientFrame) = (Running, st2) \<and> w_sent (ss_backend_w st2) = [5] \<and>
     session_step toy_sym demo_cfg st1 (demo_event ClientFrame) = (Broken, st3) \<and> w_sent (ss_backend_w st3) = []"
proof -
  let ?c = "channel_new demo_key 65536" and ?st = "demo_session (demo_data_frame 0 5)"
  obtain client' w where wf: "write_frame toy_sym ?c open_writer [5] = (Ok (), client', w)" "w_sent w = demo_data_frame 0 5"
    by (simp add: write_frame_def toy_sym_def Let_def io_simps demo_data_frame_def data_wire_def channel_new_def frame_defs)
  obtain st1 where st: "session_step toy_sym demo_cfg ?st (demo_event (RotationTick 0)) = (Running, st1)"
    "epoch (ss_channel st1) = 1" "ss_client_in st1 = demo_data_frame 0 5" "cipher (ss_channel st1) = replicate 32 7"
    by (simp add: session_step_def demo_event_def demo_session_def do_rotate_def send_key_rotate_def toy_sym_def
        io_simps Let_def rotate_key_def pad_to_id channel_new_def)
  have "toy_tag demo_key (u64_to_be 0) \<noteq> toy_tag (replicate 32 7) (u64_to_be 0)"
    by (simp add: toy_tag_def pad_to_def demo_key_def min_def)
  then have "gcm_decrypt toy_sym (replicate 32 7) n (u64_to_be q) c t = None"
    if "demo_data_frame 0 5 = u @ data_wire q n c t @ v" "length n = 12" "length t = 16" "length c + 16 < 2 ^ 32" for u q n c t v
    using demo_data_frame_only [OF that] by (simp add: toy_sym_def)
  then have un: "unforged toy_sym (cipher (ss_channel st1)) {} (ss_client_in ?st)"
    unfolding unforged_def st(4) by (simp add: demo_session_def)
  have "in_step ?c (ss_channel ?st)" using new_channels_in_step [of demo_key 65536 65536] by (simp add: demo_session_def demo_key_def)
  from rotation_refuses_frames_in_flight [OF demo_laws this wf(1) _ _ _ _ _ st(1) _ _ un, of "[]" "demo_event ClientFrame"] st wf
  show ?thesis by (auto simp: demo_session_def demo_event_def channel_new_def)
qed

section \<open>The life of a connection\<close>

lemma session_run_active:
  "session_run S cfg st evs = (status, st') \<Longrightarrow>
     connections_active (bm_state (ss_metrics st')) = connections_active (bm_state (ss_metrics st)) \<and>
     connections_total (bm_state (ss_metrics st')) = connections_total (bm_state (ss_metrics st)) \<and>
     prom_connections_active (bm_prom (ss_metrics st')) = prom_connections_active (bm_prom (ss_metrics st)) \<and>
     prom_connections_total (bm_prom (ss_metrics st')) = prom_connections_total (bm_prom (ss_metrics st)) \<and>
     prom_connections_success (bm_prom (ss_metrics st')) = prom_connections_success (bm_prom (ss_metrics st))"
proof (induction evs arbitrary: st)
  case Nil
  then show ?case by simp
next
  case (Cons ev evs)
  obtain s1 st1 where step: "session_step S cfg st ev = (s1, st1)" by fastforce
  have "connections_active (bm_state (ss_metrics st1)) = connections_active (bm_state (ss_metrics st)) \<and>
     connections_total (bm_state (ss_metrics st1)) = connections_total (bm_state (ss_metrics st)) \<and>
     prom_connections_active (bm_prom (ss_metrics st1)) = prom_connections_active (bm_prom (ss_metrics st)) \<and>
     prom_connections_total (bm_prom (ss_metrics st1)) = prom_connections_total (bm_prom (ss_metrics st)) \<and>
     prom_connections_success (bm_prom (ss_metrics st1)) = prom_connections_success (bm_prom (ss_metrics st))"
    using step by (cases "ev_arm ev") (auto simp: session_step_def do_rotate_def metric_defs Let_def
        split: prod.splits sum.splits frame_result.splits if_splits loop_status.splits option.splits bool.splits)
  with Cons step show ?case by (auto split: loop_status.splits)
qed

text \<open>The gauges come back: a connection that has ended, in whatever way (handshake timeout, failed
  handshake, unreachable backend, end of the relay, error), has counted itself once in the total and has
  left the number of active connections as it found it, in both sets of counters; and the unlabelled and
  the \<open>success\<close> series of \<open>CONNECTIONS_TOTAL\<close> together have grown by two exactly when the handshake had
  completed, also when the backend could not be reached.\<close>

theorem connection_metrics_balance:
  assumes "handle_with_handshake_timeout S G K ctx cfg elapsed backend evs client_in client_w m r = (status, m')"
    and "status \<noteq> Running"
  shows "connections_active (bm_state m') = connections_active (bm_state m) \<and>
    connections_total (bm_state m') = connections_total (bm_state m) + 1 \<and>
    prom_connections_active (bm_prom m') = prom_connections_active (bm_prom m) \<and>
    prom_connections_total (bm_prom m') = prom_connections_total (bm_prom m) + 1 \<and>
    prom_connections_success (bm_prom m') = prom_connections_success (bm_prom m) +
      (if \<not> elapsed \<and> is_ok (fst (handshake_phase S G K ctx client_in client_w r)) then 1 else 0)"
proof (cases "\<not> elapsed \<and> is_ok (fst (handshake_phase S G K ctx client_in client_w r))")
  case False
  obtain h i w r' where "handshake_phase S G K ctx client_in client_w r = (h, i, w, r')" by (metis prod.exhaust)
  with False assms show ?thesis
    by (auto simp: handle_with_handshake_timeout_def metric_defs Let_def split: sum.splits if_splits)
next
  case True
  then obtain key i w r' where hp: "handshake_phase S G K ctx client_in client_w r = (Ok key, i, w, r')"
    by (metis prod.collapse fst_conv)
  show ?thesis
  proof (cases backend)
    case (Inl e)
    with True hp assms show ?thesis
      by (auto simp: handle_with_handshake_timeout_def metric_defs Let_def)
  next
    case (Inr bw)
    let ?st = "\<lparr>ss_channel = channel_new (key_as_bytes key) (vc_max_frame_size cfg), ss_client_in = i,
      ss_client_w = w, ss_backend_w = bw, ss_bytes_this_epoch = 0,
      ss_metrics = enter_session (count_handshake (count_connection m))\<rparr>"
    obtain s st where run: "session_run S cfg ?st evs = (s, st)" by fastforce
    with True hp Inr assms have "m' = leave_session (ss_metrics st)" "s = status"
      by (auto simp: handle_with_handshake_timeout_def Let_def split: loop_status.splits)
    with session_run_active [OF run] True show ?thesis by (auto simp: metric_defs)
  qed
qed

theorem connection_metrics_balance_witness:
  "connections_active (bm_state (snd (handle_with_handshake_timeout toy_sym toy_sig toy_kex
      \<lparr>ctx_identity = \<lparr>signing_key = SigningKey [], verifying_key = VerifyingKey []\<rparr>, ctx_client_auth = None\<rparr>
      demo_cfg True (Err ConnectionRefused) [] [] open_writer metrics_init 0))) = 0"
proof -
  let ?h = "handle_with_handshake_timeout toy_sym toy_sig toy_kex
      \<lparr>ctx_identity = \<lparr>signing_key = SigningKey [], verifying_key = VerifyingKey []\<rparr>, ctx_client_auth = None\<rparr>
      demo_cfg True (Err ConnectionRefused) [] [] open_writer metrics_init 0"
  obtain m' where h: "?h = (Broken, m')" by (simp add: handle_with_handshake_timeout_def Let_def)
  from connection_metrics_balance [OF h] h show ?thesis by (simp add: metrics_init_def metrics_state_new_def)
qed

end
