(* ===== verification/Client_Config.thy ===== *)
theory Client_Config
  imports Identity Net
begin

text \<open>
  The client proxy's configuration, \<open>latticeshield-client/src/config.rs\<close>: the sections with their
  defaults, \<open>ClientConfig::validate\<close> and \<open>ClientConfig::load\<close>. The TOML decoder is a parameter
  (see \<open>Client_File\<close>).
\<close>

section \<open>Sections and defaults\<close>

record reconnect_config =
  rc_max_retries :: u32
  rc_base_delay_ms :: u64
  rc_max_delay_ms :: u64

definition default_reconnect_config :: reconnect_config where
  "default_reconnect_config = \<lparr>rc_max_retries = 0, rc_base_delay_ms = 100, rc_max_delay_ms = 30000\<rparr>"

record client_section =
  cl_listen_addr :: string
  cl_bridge_addr :: string
  cl_server_vk_path :: string
  cl_max_frame_size :: nat
  cl_client_sk_path :: "string option"

definition default_client_section :: client_section where
  "default_client_section = \<lparr>cl_listen_addr = ''127.0.0.1:9090'', cl_bridge_addr = ''127.0.0.1:8443'',
     cl_server_vk_path = ''./keys/server.vk'', cl_max_frame_size = 65536, cl_client_sk_path = None\<rparr>"

record pool_config =
  pool_max_size :: nat
  pool_idle_timeout_secs :: u64
  pool_warm_size :: nat
  pool_warm_interval_secs :: u64

definition default_pool_config :: pool_config where
  "default_pool_config = \<lparr>pool_max_size = 4, pool_idle_timeout_secs = 30, pool_warm_size = 2,
     pool_warm_interval_secs = 5\<rparr>"

text \<open>\<open>LoggingSection\<close> has one field.\<close>

record client_config =
  cc_client :: client_section
  cc_logging_level :: string
  cc_pool :: pool_config
  cc_reconnect :: reconnect_config

definition default_client_config :: client_config where
  "default_client_config = \<lparr>cc_client = default_client_section, cc_logging_level = ''info'',
     cc_pool = default_pool_config, cc_reconnect = default_reconnect_config\<rparr>"

record valid_client_config =
  vcc_listen_addr :: socket_addr
  vcc_bridge_addr :: socket_addr
  vcc_server_vk_path :: string
  vcc_client_sk_path :: "string option"
  vcc_max_frame_size :: nat
  vcc_log_level :: string
  vcc_pool :: pool_config
  vcc_reconnect :: reconnect_config

section \<open>Validation\<close>

datatype client_config_error =
    CcCannotRead io_error | CcInvalidToml | CcInvalidListenAddr | CcInvalidBridgeAddr
  | CcBadFrameSize nat | CcEmptyVkPath | CcPoolMaxSize | CcPoolWarmSize | CcPoolIdleTimeout
  | CcPoolWarmInterval | CcReconnectDelays u64 u64

definition client_validate :: "client_config \<Rightarrow> client_config_error + valid_client_config" where
  "client_validate c = (let cl = cc_client c; pl = cc_pool c; rc = cc_reconnect c in
    and_then (case parse_socket_addr (cl_listen_addr cl) of None \<Rightarrow> Err CcInvalidListenAddr | Some a \<Rightarrow> Ok a) (\<lambda>la.
    and_then (case parse_socket_addr (cl_bridge_addr cl) of None \<Rightarrow> Err CcInvalidBridgeAddr | Some a \<Rightarrow> Ok a) (\<lambda>ba.
    and_then (bail_checks [
       (cl_max_frame_size cl < 1024 \<or> 16 * 1024 * 1024 < cl_max_frame_size cl, CcBadFrameSize (cl_max_frame_size cl)),
       (cl_server_vk_path cl = [], CcEmptyVkPath),
       (pool_max_size pl < 1, CcPoolMaxSize),
       (pool_max_size pl < pool_warm_size pl, CcPoolWarmSize),
       (pool_idle_timeout_secs pl < 1, CcPoolIdleTimeout),
       (pool_warm_interval_secs pl < 1, CcPoolWarmInterval),
       (rc_max_delay_ms rc < rc_base_delay_ms rc, CcReconnectDelays (rc_base_delay_ms rc) (rc_max_delay_ms rc))]) (\<lambda>_.
    Ok \<lparr>vcc_listen_addr = la, vcc_bridge_addr = ba, vcc_server_vk_path = cl_server_vk_path cl,
        vcc_client_sk_path = cl_client_sk_path cl, vcc_max_frame_size = cl_max_frame_size cl,
        vcc_log_level = cc_logging_level c, vcc_pool = pl, vcc_reconnect = rc\<rparr>))))"

text \<open>\<open>ClientConfig::load\<close>.\<close>

definition client_config_load ::
  "(string \<Rightarrow> client_config option) \<Rightarrow> filesys \<Rightarrow> string \<Rightarrow> client_config_error + valid_client_config" where
  "client_config_load toml_from_str fs path = (case read_to_string (fs_read fs path) of
      Err e \<Rightarrow> Err (CcCannotRead e)
    | Ok contents \<Rightarrow> (case toml_from_str contents of
        None \<Rightarrow> Err CcInvalidToml
      | Some c \<Rightarrow> client_validate c))"

section \<open>What validation establishes\<close>

definition pool_config_ok :: "pool_config \<Rightarrow> bool" where
  "pool_config_ok p \<longleftrightarrow> 1 \<le> pool_max_size p \<and> pool_warm_size p \<le> pool_max_size p \<and>
     1 \<le> pool_idle_timeout_secs p \<and> 1 \<le> pool_warm_interval_secs p"

lemma word_less_one_iff: "(x :: u64) < 1 \<longleftrightarrow> x = 0"
  by (metis word_less_1)

lemma word_one_le_iff: "1 \<le> (x :: u64) \<longleftrightarrow> x \<noteq> 0"
  by (metis not_le word_less_one_iff)

lemma client_validate_OkD:
  assumes "client_validate c = Ok v"
  shows "pool_config_ok (vcc_pool v)"
    and "rc_base_delay_ms (vcc_reconnect v) \<le> rc_max_delay_ms (vcc_reconnect v)"
    and "1024 \<le> vcc_max_frame_size v" "vcc_max_frame_size v \<le> 16 * 1024 * 1024"
    and "parse_socket_addr (cl_listen_addr (cc_client c)) = Some (vcc_listen_addr v)"
    and "parse_socket_addr (cl_bridge_addr (cc_client c)) = Some (vcc_bridge_addr v)"
  using assms
  by (auto simp: client_validate_def Let_def pool_config_ok_def not_less word_one_le_iff split: option.splits)

lemma default_client_config_valid:
  "client_validate default_client_config = Ok \<lparr>vcc_listen_addr = \<lparr>addr_ip = IpV4 0x7F000001, addr_port = 9090, addr_scope = 0\<rparr>,
     vcc_bridge_addr = \<lparr>addr_ip = IpV4 0x7F000001, addr_port = 8443, addr_scope = 0\<rparr>, vcc_server_vk_path = ''./keys/server.vk'',
     vcc_client_sk_path = None, vcc_max_frame_size = 65536, vcc_log_level = ''info'',
     vcc_pool = default_pool_config, vcc_reconnect = default_reconnect_config\<rparr>"
  by code_simp

end
