(* ===== verification/Pool.thy ===== *)
theory Pool
  imports Client_Config
begin

text \<open>
  The client's pool of pre-warmed bridge connections, \<open>latticeshield-client/src/pool.rs\<close>. Each
  section that holds the mutex is one operation: \<open>acquire\<close>, the count and the fill of a
  \<open>warm_loop\<close> turn (between them the mutex is free while the new connections are made), and
  \<open>shutdown\<close>. Time is in nanoseconds.

  \<open>'c\<close> stands for the TCP streams. A clock is a function from the number of the reading to its
  value, because \<open>acquire\<close> reads it once per connection it looks at.
\<close>

section \<open>State and operations\<close>

record 'c idle_conn =
  ic_stream :: 'c
  ic_created_at :: nat

record 'c pool =
  idle :: "'c idle_conn list"
  warming :: nat \<comment> \<open>connect tasks of the current \<open>warm_loop\<close> turn\<close>
  shutdown_flag :: bool

definition pool_new :: "'c pool" where
  "pool_new = \<lparr>idle = [], warming = 0, shutdown_flag = False\<rparr>"

definition idle_timeout :: "pool_config \<Rightarrow> nat" where
  "idle_timeout cfg = unat (pool_idle_timeout_secs cfg) * 10 ^ 9"

text \<open>The eviction loop of \<open>acquire\<close>: pop the front while it is too old; \<open>elapsed\<close> saturates at 0.\<close>

fun evict :: "nat \<Rightarrow> (nat \<Rightarrow> nat) \<Rightarrow> nat \<Rightarrow> 'c idle_conn list \<Rightarrow> 'c idle_conn list" where
  "evict timeout clk i [] = []"
| "evict timeout clk i (c # cs) =
    (if timeout \<le> clk i - ic_created_at c then evict timeout clk (Suc i) cs else c # cs)"

definition acquire ::
  "pool_config \<Rightarrow> (nat \<Rightarrow> nat) \<Rightarrow> io_error + 'c \<Rightarrow> 'c pool \<Rightarrow> (io_error + 'c) \<times> 'c pool" where
  "acquire cfg clk connect p = (case evict (idle_timeout cfg) clk 0 (idle p) of
      c # cs \<Rightarrow> (Ok (ic_stream c), p\<lparr>idle := cs\<rparr>)
    | [] \<Rightarrow> (connect, p\<lparr>idle := []\<rparr>))"

text \<open>The first half of a \<open>warm_loop\<close> turn: how many connections to open.\<close>

definition warm_target :: "pool_config \<Rightarrow> nat \<Rightarrow> nat" where
  "warm_target cfg current_count =
    (if pool_warm_size cfg = 0 then 0
     else min (pool_warm_size cfg - current_count) (pool_max_size cfg - current_count))"

definition warm_count :: "pool_config \<Rightarrow> 'c pool \<Rightarrow> 'c pool" where
  "warm_count cfg p = p\<lparr>warming := warm_target cfg (length (idle p))\<rparr>"

text \<open>The second half: push what connected, stop at the first that does not fit.\<close>

fun push_conns :: "nat \<Rightarrow> 'c idle_conn list \<Rightarrow> 'c idle_conn list \<Rightarrow> 'c idle_conn list" where
  "push_conns limit q [] = q"
| "push_conns limit q (c # cs) = (if limit \<le> length q then q else push_conns limit (q @ [c]) cs)"

definition warm_fill :: "pool_config \<Rightarrow> 'c idle_conn list \<Rightarrow> 'c pool \<Rightarrow> 'c pool" where
  "warm_fill cfg new_conns p = p\<lparr>idle := push_conns (pool_max_size cfg) (idle p) new_conns, warming := 0\<rparr>"

definition pool_shutdown :: "'c pool \<Rightarrow> 'c pool" where
  "pool_shutdown p = p\<lparr>idle := [], shutdown_flag := True\<rparr>"

text \<open>The pools reachable by some time. A connection of a turn is created after the turn began; the
  clock does not run backwards. A turn may also begin when the shutdown flag is up, because \<open>select!\<close>
  can take the branch of the timer.\<close>

inductive pool_reach :: "pool_config \<Rightarrow> nat \<Rightarrow> 'c pool \<Rightarrow> bool" for cfg where
  new: "pool_reach cfg t pool_new"
| acquired: "pool_reach cfg t p \<Longrightarrow> mono clk \<Longrightarrow> t \<le> clk 0 \<Longrightarrow> clk (length (idle p)) \<le> t' \<Longrightarrow>
    acquire cfg clk connect p = (res, p') \<Longrightarrow> pool_reach cfg t' p'"
| counted: "pool_reach cfg t p \<Longrightarrow> pool_reach cfg t (warm_count cfg p)"
| filled: "pool_reach cfg t p \<Longrightarrow> length new_conns \<le> warming p \<Longrightarrow> t \<le> t' \<Longrightarrow>
    sorted (map ic_created_at new_conns) \<Longrightarrow> (\<forall>c \<in> set new_conns. t \<le> ic_created_at c \<and> ic_created_at c \<le> t') \<Longrightarrow>
    pool_reach cfg t' (warm_fill cfg new_conns p)"
| stopped: "pool_reach cfg t p \<Longrightarrow> pool_reach cfg t (pool_shutdown p)"

section \<open>Lemmas\<close>

lemma evict_drop: "\<exists>k \<le> length q. evict to clk i q = drop k q \<and>
    (\<forall>j < k. to \<le> clk (i + j) - ic_created_at (q ! j)) \<and>
    (k < length q \<longrightarrow> clk (i + k) - ic_created_at (q ! k) < to)"
proof (induction to clk i q rule: evict.induct)
  case (1 to clk i)
  then show ?case by simp
next
  case (2 to clk i c cs)
  show ?case
  proof (cases "to \<le> clk i - ic_created_at c")
    case False
    then show ?thesis by (intro exI [of _ 0]) simp
  next
    case True
    from "2.IH" [OF True] obtain k where k: "k \<le> length cs" "evict to clk (Suc i) cs = drop k cs"
      "\<forall>j < k. to \<le> clk (Suc i + j) - ic_created_at (cs ! j)"
      "k < length cs \<longrightarrow> clk (Suc i + k) - ic_created_at (cs ! k) < to" by blast
    have "\<forall>j < Suc k. to \<le> clk (i + j) - ic_created_at ((c # cs) ! j)"
      using True k(3) by (auto simp: less_Suc_eq_0_disj)
    with True k show ?thesis by (intro exI [of _ "Suc k"]) simp
  qed
qed

lemma push_conns_take: "push_conns limit q cs = q @ take (limit - length q) cs"
proof (induction limit q cs rule: push_conns.induct)
  case (1 limit q)
  then show ?case by simp
next
  case (2 limit q c cs)
  then show ?case by (cases "limit \<le> length q") (simp_all add: take_Cons')
qed

definition pool_inv :: "pool_config \<Rightarrow> nat \<Rightarrow> 'c pool \<Rightarrow> bool" where
  "pool_inv cfg t p \<longleftrightarrow> length (idle p) \<le> pool_max_size cfg \<and> sorted (map ic_created_at (idle p)) \<and>
     (\<forall>c \<in> set (idle p). ic_created_at c \<le> t)"

text \<open>What \<open>acquire\<close> returns, in terms of a split of the queue.\<close>

lemma acquire_cases:
  assumes "acquire cfg clk connect p = (res, p')"
  obtains (fresh) k where "k < length (idle p)" "res = Ok (ic_stream (idle p ! k))" "idle p' = drop (Suc k) (idle p)"
      "clk k - ic_created_at (idle p ! k) < idle_timeout cfg"
      "\<forall>j < k. idle_timeout cfg \<le> clk j - ic_created_at (idle p ! j)"
  | (connected) "res = connect" "idle p' = []"
      "\<forall>j < length (idle p). idle_timeout cfg \<le> clk j - ic_created_at (idle p ! j)"
proof -
  obtain k where k: "k \<le> length (idle p)" "evict (idle_timeout cfg) clk 0 (idle p) = drop k (idle p)"
    "\<forall>j < k. idle_timeout cfg \<le> clk j - ic_created_at (idle p ! j)"
    "k < length (idle p) \<longrightarrow> clk k - ic_created_at (idle p ! k) < idle_timeout cfg"
    using evict_drop [of "idle p" "idle_timeout cfg" clk 0] by auto
  show ?thesis
  proof (cases "k < length (idle p)")
    case True
    then have "drop k (idle p) = idle p ! k # drop (Suc k) (idle p)" by (simp add: Cons_nth_drop_Suc)
    with assms k True fresh [of k] show ?thesis by (auto simp: acquire_def)
  next
    case False
    with assms k connected show ?thesis by (auto simp: acquire_def)
  qed
qed

lemma pool_inv_suffix:
  assumes "pool_inv cfg t p" "idle p' = drop k (idle p)" "t \<le> t'"
  shows "pool_inv cfg t' p'"
  using assms by (auto simp: pool_inv_def drop_map [symmetric] sorted_wrt_drop dest!: in_set_dropD)

lemma pool_reach_inv: "pool_reach cfg t p \<Longrightarrow> pool_inv cfg t p"
proof (induction rule: pool_reach.induct)
  case (new t)
  then show ?case by (simp add: pool_inv_def pool_new_def)
next
  case (acquired t p clk t' connect res p')
  from acquired have "clk 0 \<le> clk (length (idle p))" by (auto dest: monoD)
  with acquired have t: "t \<le> t'" by linarith
  from acquired.hyps(5) show ?case
  proof (cases rule: acquire_cases)
    case (fresh k)
    from pool_inv_suffix [OF acquired.IH fresh(3) t] show ?thesis .
  next
    case connected
    then show ?thesis by (simp add: pool_inv_def)
  qed
next
  case (counted t p)
  then show ?case by (simp add: pool_inv_def warm_count_def)
next
  case (filled t p new_conns t')
  let ?n = "take (pool_max_size cfg - length (idle p)) new_conns"
  have n: "set ?n \<subseteq> set new_conns" by (rule set_take_subset)
  have "sorted (map ic_created_at ?n)" using filled.hyps(4) by (simp add: take_map [symmetric] sorted_wrt_take)
  with filled n show ?case
    by (auto simp: pool_inv_def warm_fill_def push_conns_take sorted_append) (meson order_trans subsetD)+
next
  case (stopped t p)
  then show ?case by (simp add: pool_inv_def pool_shutdown_def)
qed

section \<open>Properties\<close>

text \<open>The pool never keeps more than \<open>max_size\<close> idle connections, whatever the interleaving of
  \<open>acquire\<close>, \<open>warm_loop\<close> turns and \<open>shutdown\<close>, although the warmer decides how many to add
  before it holds the lock again.\<close>

theorem pool_within_max_size:
  assumes "pool_reach cfg t p"
  shows "length (idle p) \<le> pool_max_size cfg"
  using pool_reach_inv [OF assms] by (simp add: pool_inv_def)

definition demo_pool :: "nat pool" where
  "demo_pool = warm_fill default_pool_config
     [\<lparr>ic_stream = 7, ic_created_at = 5\<rparr>, \<lparr>ic_stream = 8, ic_created_at = 6\<rparr>] (warm_count default_pool_config pool_new)"

lemma demo_pool_reach: "pool_reach default_pool_config 10 demo_pool"
  unfolding demo_pool_def
  by (rule pool_reach.filled [where t = 5], rule pool_reach.counted, rule pool_reach.new)
    (simp_all add: pool_new_def warm_count_def warm_target_def default_pool_config_def)

theorem pool_within_max_size_witness:
  "length (idle demo_pool) \<le> 4 \<and> length (idle demo_pool) = 2"
  using pool_within_max_size [OF demo_pool_reach]
  by (simp add: default_pool_config_def demo_pool_def warm_fill_def push_conns_take warm_count_def pool_new_def)

text \<open>\<open>acquire\<close> hands out live connections only: in every reachable pool, and with a clock that
  does not run backwards, either it returns a pooled connection younger than the idle timeout and every
  connection left in the pool is younger too, or every pooled connection had expired, all of them are
  gone and the result is that of a new \<open>connect\<close>. The queue is ordered by age, which is what makes
  looking at its front enough.\<close>

theorem acquire_evicts_exactly_the_stale:
  assumes "pool_reach cfg t p" "mono clk" "acquire cfg clk connect p = (res, p')"
  shows "(\<exists>k c. k < length (idle p) \<and> c = idle p ! k \<and> res = Ok (ic_stream c) \<and> idle p' = drop (Suc k) (idle p) \<and>
            (\<forall>d \<in> set (c # idle p'). clk k - ic_created_at d < idle_timeout cfg) \<and>
            (\<forall>d \<in> set (take k (idle p)). idle_timeout cfg \<le> clk k - ic_created_at d)) \<or>
         (res = connect \<and> idle p' = [] \<and>
            (\<forall>d \<in> set (idle p). idle_timeout cfg \<le> clk (length (idle p)) - ic_created_at d))"
  using assms(3)
proof (cases rule: acquire_cases)
  case (fresh k)
  have srt: "sorted (map ic_created_at (idle p))" using pool_reach_inv [OF assms(1)] by (simp add: pool_inv_def)
  have q: "idle p ! k # idle p' = drop k (idle p)" using fresh(1,3) by (simp add: Cons_nth_drop_Suc)
  have old: "ic_created_at (idle p ! k) \<le> ic_created_at d" if "d \<in> set (idle p ! k # idle p')" for d
  proof -
    from that obtain j where "k + j < length (idle p)" "d = idle p ! (k + j)"
      unfolding q by (auto simp: in_set_conv_nth add.commute less_diff_conv) blast
    with srt show ?thesis by (auto simp: sorted_iff_nth_mono)
  qed
  have "idle_timeout cfg \<le> clk k - ic_created_at d" if "d \<in> set (take k (idle p))" for d
  proof -
    from that obtain j where "j < k" "d = idle p ! j" using fresh(1) by (auto simp: in_set_conv_nth)
    with fresh(5) monoD [OF assms(2), of j k] show ?thesis by (auto intro: order_trans diff_le_mono)
  qed
  moreover have "\<forall>d \<in> set (idle p ! k # idle p'). clk k - ic_created_at d < idle_timeout cfg"
    using old fresh(4) by (meson diff_le_mono2 order_le_less_trans)
  ultimately show ?thesis using fresh(1-3) by blast
next
  case connected
  have "idle_timeout cfg \<le> clk (length (idle p)) - ic_created_at d" if "d \<in> set (idle p)" for d
  proof -
    from that obtain j where "j < length (idle p)" "d = idle p ! j" by (auto simp: in_set_conv_nth)
    with connected(3) monoD [OF assms(2), of j "length (idle p)"] show ?thesis
      by (auto intro: order_trans diff_le_mono)
  qed
  with connected show ?thesis by blast
qed

theorem acquire_evicts_exactly_the_stale_witness:
  "\<exists>k. k < length (idle demo_pool) \<and> Ok 7 = Ok (ic_stream (idle demo_pool ! k)) \<and>
     idle (demo_pool\<lparr>idle := tl (idle demo_pool)\<rparr>) = drop (Suc k) (idle demo_pool)"
proof -
  have i: "idle demo_pool = [\<lparr>ic_stream = 7, ic_created_at = 5\<rparr>, \<lparr>ic_stream = 8, ic_created_at = 6\<rparr>]"
    by (simp add: demo_pool_def warm_fill_def push_conns_take warm_count_def pool_new_def default_pool_config_def)
  have a: "acquire default_pool_config (\<lambda>_. 100) (Err ConnectionRefused) demo_pool =
      (Ok 7, demo_pool\<lparr>idle := tl (idle demo_pool)\<rparr>)"
    by (simp add: acquire_def i idle_timeout_def default_pool_config_def)
  from acquire_evicts_exactly_the_stale [OF demo_pool_reach _ a] show ?thesis
    by (auto simp: mono_def)
qed

end
