(* ===== verification/Client_Session.thy ===== *)
theory Client_Session
  imports Pool Channel_Props Handshake
begin

text \<open>
  One user connection of the client proxy, \<open>latticeshield-client/src/client_session.rs\<close>:
  \<open>do_handshake\<close>, the relay loop \<open>run_relay\<close>, the reconnect delay \<open>backoff\<close> and the reconnect
  loop \<open>handle\<close>.

  Each attempt of \<open>handle\<close> runs in an environment: what \<open>pool.acquire\<close> returned (the bytes the
  bridge will deliver and the writer to it), the events of the relay loop, and the random word of
  the delay. The peer address in the events is the same throughout and left out. As in the bridge's
  session, a read from the user that wins the \<open>select!\<close> drops a pending \<open>read_frame\<close> with the bytes
  it has taken.
\<close>

section \<open>Handshake\<close>

datatype reconnect_event = Reconnected u32 | Exhausted u32

datatype transport_error =
  HelloRead io_error | Respond handshake_error | ResponseSigning handshake_error | ResponseWrite io_error

datatype client_handshake_error = HsAuth handshake_error | HsTransport transport_error

datatype relay_outcome = UserEof | UserError io_error | BridgeError frame_error

text \<open>The bytes of the response: signed when there is a client identity.\<close>

definition response_bytes ::
  "sig_prims \<Rightarrow> ('r, 'x, 'dk, 'ek) kex_prims \<Rightarrow> identity option \<Rightarrow> client_response \<Rightarrow> bytes \<Rightarrow> 'r \<Rightarrow>
   (transport_error + bytes) \<times> 'r" where
  "response_bytes G K ident response hello_raw r = (case ident of
      Some i \<Rightarrow> (case serialize_client_response_signed G K response (signing_key i) hello_raw r of
          (Err e, r') \<Rightarrow> (Err (ResponseSigning e), r')
        | (Ok b, r') \<Rightarrow> (Ok b, r'))
    | None \<Rightarrow> (Ok (serialize_client_response response), r))"

definition do_handshake ::
  "sym_prims \<Rightarrow> sig_prims \<Rightarrow> ('r, 'x, 'dk, 'ek) kex_prims \<Rightarrow> verifying_key \<Rightarrow> identity option \<Rightarrow>
   valid_client_config \<Rightarrow> bytes \<Rightarrow> writer \<Rightarrow> 'r \<Rightarrow>
   (client_handshake_error + channel) \<times> bytes \<times> writer \<times> 'r" where
  "do_handshake S G K vk ident cfg bridge_in bridge_w r =
    (case read_exact SERVER_HELLO_SIGNED_LEN bridge_in of
       None \<Rightarrow> (Err (HsTransport (HelloRead UnexpectedEof)), [], bridge_w, r)
     | Some (hello_buf, rest) \<Rightarrow>
        (let hello_raw = take SERVER_HELLO_LEN hello_buf
         in case parse_server_hello_signed G K hello_buf vk of
              Err e \<Rightarrow> (Err (HsAuth e), rest, bridge_w, r)
            | Ok hello \<Rightarrow> (case client_respond S K hello r of
                (Err e, r1) \<Rightarrow> (Err (HsTransport (Respond e)), rest, bridge_w, r1)
              | (Ok (response, key), r1) \<Rightarrow> (case response_bytes G K ident response hello_raw r1 of
                  (Err e, r2) \<Rightarrow> (Err (HsTransport e), rest, bridge_w, r2)
                | (Ok wire, r2) \<Rightarrow> (case write_all wire bridge_w of
                    (Err e, w') \<Rightarrow> (Err (HsTransport (ResponseWrite e)), rest, w', r2)
                  | (Ok _, w') \<Rightarrow>
                      (Ok (channel_new (key_as_bytes key) (vcc_max_frame_size cfg)), rest, w', r2))))))"

section \<open>Relay\<close>

record relay =
  rl_channel :: channel
  rl_bridge_in :: bytes
  rl_bridge_w :: writer
  rl_bridge_closed :: bool
  rl_user_w :: writer
  rl_user_eof :: bool

datatype relay_event = UserRead "io_error + bytes" nat | BridgeFrame

datatype relay_status = Relaying | Ended relay_outcome | RelayPanicked

text \<open>One turn of the loop in \<open>run_relay\<close>.\<close>

fun relay_step :: "sym_prims \<Rightarrow> relay \<Rightarrow> relay_event \<Rightarrow> relay_status \<times> relay" where
  "relay_step S st (UserRead res k) =
    (let st1 = st\<lparr>rl_bridge_in := drop k (rl_bridge_in st)\<rparr>
     in case res of
          Err e \<Rightarrow> (Ended (UserError e), st1)
        | Ok bs \<Rightarrow>
            if bs = [] then (Relaying, st1\<lparr>rl_user_eof := True, rl_bridge_closed := True\<rparr>)
            else (case write_frame S (rl_channel st) (rl_bridge_w st) bs of
                (Err e, ch', w') \<Rightarrow> (Ended (BridgeError e), st1\<lparr>rl_channel := ch', rl_bridge_w := w'\<rparr>)
              | (Ok _, ch', w') \<Rightarrow> (Relaying, st1\<lparr>rl_channel := ch', rl_bridge_w := w'\<rparr>)))"
| "relay_step S st BridgeFrame = (case read_frame S (rl_channel st) (rl_bridge_in st) of
      (Ok (Data d), ch', rest) \<Rightarrow>
        (let st1 = st\<lparr>rl_channel := ch', rl_bridge_in := rest\<rparr>
         in case write_all d (rl_user_w st) of
              (Err e, w') \<Rightarrow> (Ended (UserError e), st1\<lparr>rl_user_w := w'\<rparr>)
            | (Ok _, w') \<Rightarrow> (Relaying, st1\<lparr>rl_user_w := w'\<rparr>))
    | (Ok (KeyRotate n), ch', rest) \<Rightarrow> (case rotate_key S ch' n of
          None \<Rightarrow> (RelayPanicked, st\<lparr>rl_channel := ch', rl_bridge_in := rest\<rparr>)
        | Some ch'' \<Rightarrow> (Relaying, st\<lparr>rl_channel := ch'', rl_bridge_in := rest\<rparr>))
    | (Err e, ch', rest) \<Rightarrow>
        (Ended (if rl_user_eof st then UserEof else BridgeError e), st\<lparr>rl_channel := ch', rl_bridge_in := rest\<rparr>))"

text \<open>What the runtime can deliver: the user is read only before its end of file, into a buffer of
  \<open>max_frame_size\<close> bytes.\<close>

fun relay_event_ok :: "sym_prims \<Rightarrow> relay \<Rightarrow> relay_event \<Rightarrow> bool" where
  "relay_event_ok S st (UserRead res k) \<longleftrightarrow> \<not> rl_user_eof st \<and>
     incomplete S (rl_channel st) (rl_bridge_in st) k \<and>
     (case res of Ok bs \<Rightarrow> length bs \<le> max_frame_size (rl_channel st) | Err _ \<Rightarrow> True)"
| "relay_event_ok S st BridgeFrame \<longleftrightarrow> True"

text \<open>The loop on a list of events; \<open>Relaying\<close> means that the events ended before the loop did. An
  event the runtime cannot deliver in the current state does not happen.\<close>

fun run_relay :: "sym_prims \<Rightarrow> relay \<Rightarrow> relay_event list \<Rightarrow> relay_status \<times> relay" where
  "run_relay S st [] = (Relaying, st)"
| "run_relay S st (ev # evs) =
    (if relay_event_ok S st ev
     then (case relay_step S st ev of
             (Relaying, st') \<Rightarrow> run_relay S st' evs
           | (status, st') \<Rightarrow> (status, st'))
     else run_relay S st evs)"

section \<open>Delay between attempts\<close>

definition saturating_mul :: "u64 \<Rightarrow> u64 \<Rightarrow> u64" where
  "saturating_mul a b = (if unat a * unat b < 2 ^ 64 then a * b else - 1)"

text \<open>\<open>backoff\<close>; the casts to \<open>i64\<close> keep the bits, and the sum is compared as a signed number.\<close>

definition backoff :: "u32 \<Rightarrow> reconnect_config \<Rightarrow> u32 \<Rightarrow> u64" where
  "backoff attempt cfg random =
    (let raw = saturating_mul (rc_base_delay_ms cfg) (push_bit (min (unat attempt) 20) 1);
         capped = min raw (rc_max_delay_ms cfg);
         jitter_span = max (capped div 5) 1;
         jitter = ucast random mod (jitter_span * 2 + 1);
         ms = capped + jitter - jitter_span
     in if sint ms < 1 then 1 else ms)"

section \<open>The reconnect loop\<close>

record attempt_env =
  at_acquired :: "io_error + bytes \<times> writer"
  at_events :: "relay_event list"
  at_random :: u32

record client_session =
  hs_attempt :: u32
  hs_user_eof :: bool
  hs_user_w :: writer
  hs_user_closed :: bool
  hs_events :: "reconnect_event list"
  hs_delays :: "u64 list"
  hs_bridges :: "bytes list" \<comment> \<open>what was written to each bridge connection so far\<close>

datatype handle_status = HandleOk | InRelay | HandlePanicked | BetweenAttempts

definition emit :: "bool \<Rightarrow> reconnect_event \<Rightarrow> client_session \<Rightarrow> client_session" where
  "emit tx e st = (if tx then st\<lparr>hs_events := hs_events st @ [e]\<rparr> else st)"

definition give_up :: "u32 \<Rightarrow> bool \<Rightarrow> client_session \<Rightarrow> client_session" where
  "give_up mx tx st = (if 0 < mx then emit tx (Exhausted (hs_attempt st)) st else st)\<lparr>hs_user_closed := True\<rparr>"

definition next_attempt :: "reconnect_config \<Rightarrow> u32 \<Rightarrow> client_session \<Rightarrow> client_session" where
  "next_attempt rc random st = st\<lparr>hs_delays := hs_delays st @ [backoff (hs_attempt st) rc random],
     hs_attempt := hs_attempt st + 1\<rparr>"

definition retry :: "reconnect_config \<Rightarrow> bool \<Rightarrow> u32 \<Rightarrow> client_session \<Rightarrow> handle_status \<times> client_session" where
  "retry rc tx random st =
    (if hs_attempt st < rc_max_retries rc then (BetweenAttempts, next_attempt rc random st)
     else (HandleOk, give_up (rc_max_retries rc) tx st))"

text \<open>What follows the relay of an attempt.\<close>

fun after_relay ::
  "reconnect_config \<Rightarrow> bool \<Rightarrow> u32 \<Rightarrow> relay_status \<Rightarrow> client_session \<Rightarrow> handle_status \<times> client_session" where
  "after_relay rc tx random Relaying st = (InRelay, st)"
| "after_relay rc tx random RelayPanicked st = (HandlePanicked, st)"
| "after_relay rc tx random (Ended UserEof) st = (HandleOk, st)"
| "after_relay rc tx random (Ended (UserError e)) st = (HandleOk, st)"
| "after_relay rc tx random (Ended (BridgeError e)) st =
    (if hs_user_eof st \<or> rc_max_retries rc \<le> hs_attempt st
     then (HandleOk, (if rc_max_retries rc \<le> hs_attempt st then give_up (rc_max_retries rc) tx st
                      else st\<lparr>hs_user_closed := True\<rparr>))
     else (BetweenAttempts, next_attempt rc random st))"

text \<open>One pass of the loop in \<open>handle\<close>; \<open>BetweenAttempts\<close> is its \<open>continue\<close>.\<close>

definition handle_attempt ::
  "sym_prims \<Rightarrow> sig_prims \<Rightarrow> ('r, 'x, 'dk, 'ek) kex_prims \<Rightarrow> valid_client_config \<Rightarrow> verifying_key \<Rightarrow> identity option \<Rightarrow> bool \<Rightarrow>
   attempt_env \<Rightarrow> client_session \<Rightarrow> 'r \<Rightarrow> (handle_status \<times> client_session) \<times> 'r" where
  "handle_attempt S G K cfg vk ident tx env st r = (case at_acquired env of
      Err _ \<Rightarrow> (retry (vcc_reconnect cfg) tx (at_random env) st, r)
    | Ok (bridge_in, bridge_w) \<Rightarrow> (case do_handshake S G K vk ident cfg bridge_in bridge_w r of
        (Err (HsAuth e), _, w', r') \<Rightarrow>
          ((HandleOk, st\<lparr>hs_bridges := hs_bridges st @ [w_sent w'], hs_user_closed := True\<rparr>), r')
      | (Err (HsTransport e), _, w', r') \<Rightarrow>
          (retry (vcc_reconnect cfg) tx (at_random env) (st\<lparr>hs_bridges := hs_bridges st @ [w_sent w']\<rparr>), r')
      | (Ok ch, bridge_in', w', r') \<Rightarrow>
          (let st1 = (if 0 < hs_attempt st then emit tx (Reconnected (hs_attempt st)) st else st);
               (status, rl) = run_relay S \<lparr>rl_channel = ch, rl_bridge_in = bridge_in', rl_bridge_w = w',
                  rl_bridge_closed = False, rl_user_w = hs_user_w st1, rl_user_eof = hs_user_eof st1\<rparr> (at_events env);
               st2 = st1\<lparr>hs_user_eof := rl_user_eof rl, hs_user_w := rl_user_w rl,
                  hs_bridges := hs_bridges st1 @ [w_sent (rl_bridge_w rl)]\<rparr>
           in (after_relay (vcc_reconnect cfg) tx (at_random env) status st2, r'))))"

fun handle_loop ::
  "sym_prims \<Rightarrow> sig_prims \<Rightarrow> ('r, 'x, 'dk, 'ek) kex_prims \<Rightarrow> valid_client_config \<Rightarrow> verifying_key \<Rightarrow> identity option \<Rightarrow> bool \<Rightarrow>
   attempt_env list \<Rightarrow> client_session \<Rightarrow> 'r \<Rightarrow> (handle_status \<times> client_session) \<times> 'r" where
  "handle_loop S G K cfg vk ident tx [] st r = ((BetweenAttempts, st), r)"
| "handle_loop S G K cfg vk ident tx (env # envs) st r =
    (case handle_attempt S G K cfg vk ident tx env st r of
       ((BetweenAttempts, st'), r') \<Rightarrow> handle_loop S G K cfg vk ident tx envs st' r'
     | res \<Rightarrow> res)"

text \<open>\<open>handle\<close>.\<close>

definition client_handle ::
  "sym_prims \<Rightarrow> sig_prims \<Rightarrow> ('r, 'x, 'dk, 'ek) kex_prims \<Rightarrow> valid_client_config \<Rightarrow> verifying_key \<Rightarrow> identity option \<Rightarrow> bool \<Rightarrow>
   attempt_env list \<Rightarrow> writer \<Rightarrow> 'r \<Rightarrow> (handle_status \<times> client_session) \<times> 'r" where
  "client_handle S G K cfg vk ident tx envs user_w r = handle_loop S G K cfg vk ident tx envs
     \<lparr>hs_attempt = 0, hs_user_eof = False, hs_user_w = user_w, hs_user_closed = False, hs_events = [], hs_delays = [],
      hs_bridges = []\<rparr> r"

end
