(* ===== verification/Client_Session_Props.thy ===== *)
theory Client_Session_Props
  imports Client_Session
begin

text \<open>
  Properties of the client's session: the range of the reconnect delay, the bound on the number of
  attempts, and that a failed authentication ends the session at once.
\<close>

section \<open>Delay\<close>

lemma unat_push_bit_one: "n \<le> 20 \<Longrightarrow> unat (push_bit n 1 :: u64) = 2 ^ n"
proof -
  assume n: "n \<le> 20"
  have "(2 :: nat) ^ n < 2 ^ 64" by (rule power_strict_increasing) (use n in simp_all)
  then have "unat (word_of_nat (2 ^ n) :: u64) = 2 ^ n" by (rule unat_u64_of_nat)
  then show ?thesis by simp
qed

lemma unat_saturating_mul: "unat (saturating_mul a b) = min (unat a * unat b) (2 ^ 64 - 1)"
proof (cases "unat a * unat b < 2 ^ 64")
  case True
  then show ?thesis by (simp add: saturating_mul_def unat_word_ariths)
next
  case False
  moreover have "unat (- 1 :: u64) = 2 ^ 64 - 1"
    by (simp add: unsigned_minus_1_eq_mask mask_eq_exp_minus_1)
  ultimately show ?thesis by (simp add: saturating_mul_def min_def)
qed

lemma unat_min_word: "unat (min a b) = min (unat a) (unat b)"
  by (simp add: min_def word_le_nat_alt)

lemma unat_max_word: "unat (max a b) = max (unat a) (unat b)"
  by (simp add: max_def word_le_nat_alt)

lemma unat_ucast_u64: "unat (ucast (x :: u32) :: u64) = unat x"
proof -
  have "unat x < 2 ^ 64" using unat_u32_less [of x] by simp
  then show ?thesis by (simp add: unsigned_ucast_eq take_bit_nat_eq_self)
qed

text \<open>The capped exponential delay, as a number.\<close>

definition capped_delay :: "u32 \<Rightarrow> reconnect_config \<Rightarrow> nat" where
  "capped_delay attempt cfg =
     min (unat (rc_base_delay_ms cfg) * 2 ^ min (unat attempt) 20) (unat (rc_max_delay_ms cfg))"

definition delay_span :: "u32 \<Rightarrow> reconnect_config \<Rightarrow> nat" where
  "delay_span attempt cfg = max (capped_delay attempt cfg div 5) 1"

lemma sint_small: "unat (x :: u64) < 2 ^ 63 \<Longrightarrow> sint x = int (unat x)"
proof -
  assume l: "unat x < 2 ^ 63"
  have "int (unat x) < int (2 ^ 63)" using l by (simp only: of_nat_less_iff)
  then have "uint x < 2 ^ 63" by simp
  moreover have "- (2 ^ 63) \<le> uint x" by (rule order_trans [OF _ uint_ge_0 [of x]]) simp
  ultimately have "signed_take_bit 63 (uint x) = uint x" by (intro signed_take_bit_int_eq_self)
  then show ?thesis unfolding sint_uint by simp
qed

lemma sint_diff_small:
  assumes "unat (a :: u64) < 2 ^ 63" "unat b < 2 ^ 63"
  shows "sint (a - b) = int (unat a) - int (unat b)"
proof -
  have "int (unat a) < int (2 ^ 63)" "int (unat b) < int (2 ^ 63)" using assms by (simp_all only: of_nat_less_iff)
  then have "int (unat a) < 2 ^ 63" "int (unat b) < 2 ^ 63" by (simp_all only: of_nat_power of_nat_numeral)
  then have r: "- (2 ^ 63) \<le> int (unat a) - int (unat b)" "int (unat a) - int (unat b) < 2 ^ 63" by linarith+
  have "sint (a - b) = signed_take_bit 63 (int (unat a) - int (unat b))"
    unfolding sint_word_diff sint_small [OF assms(1)] sint_small [OF assms(2)] by simp
  also have "\<dots> = int (unat a) - int (unat b)" by (rule signed_take_bit_int_eq_self) (fact r)+
  finally show ?thesis .
qed

text \<open>The word computation is the computation on numbers, as long as the cap is below \<open>2 ^ 62\<close>.\<close>

lemma unat_backoff:
  assumes "unat (rc_max_delay_ms cfg) < 2 ^ 62"
  shows "unat (backoff attempt cfg random) =
    max 1 (capped_delay attempt cfg + unat random mod (delay_span attempt cfg * 2 + 1) - delay_span attempt cfg)"
proof -
  define raw where "raw = saturating_mul (rc_base_delay_ms cfg) (push_bit (min (unat attempt) 20) 1)"
  define capped where "capped = min raw (rc_max_delay_ms cfg)"
  define span where "span = max (capped div 5) 1"
  define jitter where "jitter = (ucast random :: u64) mod (span * 2 + 1)"
  have c: "unat capped = capped_delay attempt cfg"
    using assms unat_push_bit_one [of "min (unat attempt) 20"] by (simp add: capped_def raw_def unat_min_word unat_saturating_mul unat_push_bit_one capped_delay_def)
  have c62: "unat capped < 2 ^ 62" using assms by (simp add: capped_def unat_min_word)
  have s: "unat span = delay_span attempt cfg"
    by (simp add: span_def unat_max_word unat_div c delay_span_def)
  have s62: "unat span < 2 ^ 60 \<or> unat span = 1" "0 < unat span"
    using c62 by (auto simp: s delay_span_def c [symmetric])
  have d: "unat (span * 2 + 1) = unat span * 2 + 1"
    using s62 by (auto simp: unat_word_ariths)
  have j: "unat jitter = unat random mod (unat span * 2 + 1)"
    by (simp add: jitter_def unat_mod d unat_ucast_u64)
  have "unat jitter < unat span * 2 + 1" unfolding j by simp
  then have cj: "unat (capped + jitter) = unat capped + unat jitter" and lt: "unat (capped + jitter) < 2 ^ 63"
    using c62 s62 by (auto simp: unat_word_ariths)
  have sp: "unat span < 2 ^ 63" using s62 by auto
  have si: "sint (capped + jitter - span) = int (unat (capped + jitter)) - int (unat span)"
    by (rule sint_diff_small [OF lt sp])
  have b: "backoff attempt cfg random = (if sint (capped + jitter - span) < 1 then 1 else capped + jitter - span)"
    by (simp add: backoff_def raw_def capped_def span_def jitter_def Let_def)
  show ?thesis
  proof (cases "unat (capped + jitter) \<le> unat span")
    case True
    then have "sint (capped + jitter - span) < 1" unfolding si by linarith
    with True show ?thesis unfolding b c [symmetric] s [symmetric] j [symmetric] cj [symmetric] by simp
  next
    case False
    then have "\<not> sint (capped + jitter - span) < 1" unfolding si by linarith
    moreover have "unat (capped + jitter - span) = unat (capped + jitter) - unat span"
      using False by (simp add: unat_sub word_le_nat_alt)
    ultimately show ?thesis using False
      unfolding b c [symmetric] s [symmetric] j [symmetric] cj [symmetric] by simp
  qed
qed

text \<open>The delay before a reconnect: with a cap below \<open>2 ^ 62\<close> ms it is at least 1 ms and within
  one fifth (at least 1 ms) of the exponential delay \<open>base * 2 ^ min attempt 20\<close> cut off at
  \<open>max_delay_ms\<close>, and nothing overflows. The upper end is reached: for a delay of at least 5 ms some
  random word gives exactly one fifth more, so the wait can exceed \<open>max_delay_ms\<close> by 20 percent.\<close>

theorem backoff_range:
  assumes "unat (rc_max_delay_ms cfg) < 2 ^ 62"
  shows "1 \<le> unat (backoff attempt cfg random) \<and>
     capped_delay attempt cfg - delay_span attempt cfg \<le> unat (backoff attempt cfg random) \<and>
     unat (backoff attempt cfg random) \<le> capped_delay attempt cfg + delay_span attempt cfg \<and>
     (5 \<le> capped_delay attempt cfg \<and> delay_span attempt cfg < 2 ^ 31 \<longrightarrow>
        (\<exists>w. unat (backoff attempt cfg w) = capped_delay attempt cfg + capped_delay attempt cfg div 5))"
proof -
  let ?c = "capped_delay attempt cfg" and ?s = "delay_span attempt cfg"
  note b = unat_backoff [OF assms, of attempt]
  have s: "1 \<le> ?s" by (simp add: delay_span_def)
  have j: "unat random mod (?s * 2 + 1) \<le> ?s * 2" by (simp add: less_Suc_eq_le [symmetric])
  have "\<exists>w. unat (backoff attempt cfg w) = ?c + ?c div 5" if "5 \<le> ?c" "?s < 2 ^ 31"
  proof -
    have "1 \<le> ?c div 5" using div_le_mono [OF that(1), of 5] by simp
    then have sp: "?s = ?c div 5" by (simp add: delay_span_def)
    have "unat (word_of_nat (?s * 2) :: u32) = ?s * 2" by (rule unat_u32_of_nat) (use that(2) in simp)
    then have "unat (backoff attempt cfg (word_of_nat (?s * 2))) = max 1 (?c + ?s * 2 - ?s)" unfolding b by simp
    with sp that(1) show ?thesis by (intro exI [of _ "word_of_nat (?s * 2)"]) simp
  qed
  moreover have "?c - ?s \<le> unat (backoff attempt cfg random)" "unat (backoff attempt cfg random) \<le> ?c + ?s"
    "1 \<le> unat (backoff attempt cfg random)" unfolding b using j s by linarith+
  ultimately show ?thesis by blast
qed

theorem backoff_range_witness:
  "1 \<le> unat (backoff 20 default_reconnect_config 5) \<and> unat (backoff 20 default_reconnect_config 5) \<le> 36000 \<and>
   (\<exists>w. unat (backoff 20 default_reconnect_config w) = 36000 \<and> rc_max_delay_ms default_reconnect_config = 30000)"
proof -
  have m: "unat (rc_max_delay_ms default_reconnect_config) < 2 ^ 62" by (simp add: default_reconnect_config_def)
  have c: "capped_delay 20 default_reconnect_config = 30000"
    by (simp add: capped_delay_def default_reconnect_config_def)
  then have "delay_span 20 default_reconnect_config = 6000" by (simp add: delay_span_def)
  with c backoff_range [OF m, of 20 5] show ?thesis by (simp add: default_reconnect_config_def)
qed

section \<open>The reconnect loop\<close>

lemma hs_simps [simp]:
  "hs_attempt (emit tx e st) = hs_attempt st" "hs_delays (emit tx e st) = hs_delays st"
  "hs_attempt (give_up mx tx st) = hs_attempt st" "hs_delays (give_up mx tx st) = hs_delays st"
  by (simp_all add: emit_def give_up_def)

text \<open>One pass: the attempt counter and the list of delays move together, and only below the limit.\<close>

lemma handle_attempt_counts:
  assumes "handle_attempt S G K cfg vk ident tx env st r = ((status, st'), r')"
  obtains (stop) "status \<noteq> BetweenAttempts" "hs_attempt st' = hs_attempt st" "hs_delays st' = hs_delays st"
  | (again) "status = BetweenAttempts" "hs_attempt st < rc_max_retries (vcc_reconnect cfg)"
      "hs_attempt st' = hs_attempt st + 1"
      "hs_delays st' = hs_delays st @ [backoff (hs_attempt st) (vcc_reconnect cfg) (at_random env)]"
proof -
  define P where "P = (\<lambda>(res :: handle_status \<times> client_session).
     (fst res \<noteq> BetweenAttempts \<and> hs_attempt (snd res) = hs_attempt st \<and> hs_delays (snd res) = hs_delays st) \<or>
     (fst res = BetweenAttempts \<and> hs_attempt st < rc_max_retries (vcc_reconnect cfg) \<and>
      hs_attempt (snd res) = hs_attempt st + 1 \<and>
      hs_delays (snd res) = hs_delays st @ [backoff (hs_attempt st) (vcc_reconnect cfg) (at_random env)]))"
  have retry: "P (retry (vcc_reconnect cfg) tx (at_random env) st0)"
    if "hs_attempt st0 = hs_attempt st" "hs_delays st0 = hs_delays st" for st0
    using that by (simp add: P_def retry_def next_attempt_def)
  have after: "P (after_relay (vcc_reconnect cfg) tx (at_random env) status0 st0)"
    if "hs_attempt st0 = hs_attempt st" "hs_delays st0 = hs_delays st" for status0 st0
    using that by (cases "(vcc_reconnect cfg, tx, at_random env, status0, st0)" rule: after_relay.cases)
      (auto simp: P_def next_attempt_def not_le)
  have auth: "P (HandleOk, st0)" if "hs_attempt st0 = hs_attempt st" "hs_delays st0 = hs_delays st" for st0
    using that by (simp add: P_def)
  have "P (fst (handle_attempt S G K cfg vk ident tx env st r))"
    by (auto simp: handle_attempt_def Let_def split: sum.splits prod.splits client_handshake_error.splits
        intro!: retry after auth)
  with assms stop again show ?thesis by (auto simp: P_def)
qed

lemma unat_u32_succ: "(a :: u32) < b \<Longrightarrow> unat (a + 1) = unat a + 1"
  using unat_u32_less [of b] by (simp add: word_less_nat_alt unat_word_ariths)

definition delays_ok :: "reconnect_config \<Rightarrow> client_session \<Rightarrow> bool" where
  "delays_ok rc st \<longleftrightarrow> length (hs_delays st) = unat (hs_attempt st) \<and>
     (\<forall>i < length (hs_delays st). \<exists>w. hs_delays st ! i = backoff (word_of_nat i) rc w)"

lemma delays_ok_step:
  assumes "delays_ok rc st" "hs_attempt st < rc_max_retries rc" "hs_attempt st' = hs_attempt st + 1"
    "hs_delays st' = hs_delays st @ [backoff (hs_attempt st) rc w]"
  shows "delays_ok rc st'"
proof -
  from assms(1) have l: "length (hs_delays st) = unat (hs_attempt st)" by (simp add: delays_ok_def)
  have n: "word_of_nat (length (hs_delays st)) = hs_attempt st" unfolding l by simp
  have "\<exists>v. hs_delays st' ! i = backoff (word_of_nat i) rc v" if "i < length (hs_delays st')" for i
  proof (cases "i < length (hs_delays st)")
    case True
    with assms(1) show ?thesis unfolding assms(4) delays_ok_def by (simp add: nth_append)
  next
    case False
    with that assms(4) have i: "i = length (hs_delays st)" by simp
    show ?thesis unfolding assms(4) i n by auto
  qed
  moreover have "length (hs_delays st') = unat (hs_attempt st')"
    unfolding assms(3,4) unat_u32_succ [OF assms(2)] by (simp add: l)
  ultimately show ?thesis by (simp add: delays_ok_def)
qed

lemma handle_loop_bounded:
  assumes "handle_loop S G K cfg vk ident tx envs st r = ((status, st'), r')"
    and "delays_ok (vcc_reconnect cfg) st"
    and "unat (hs_attempt st) \<le> unat (rc_max_retries (vcc_reconnect cfg))"
  shows "delays_ok (vcc_reconnect cfg) st' \<and> unat (hs_attempt st') \<le> unat (rc_max_retries (vcc_reconnect cfg)) \<and>
    (unat (rc_max_retries (vcc_reconnect cfg)) - unat (hs_attempt st) < length envs \<longrightarrow> status \<noteq> BetweenAttempts)"
  using assms
proof (induction envs arbitrary: st r)
  case Nil
  then show ?case by simp
next
  case (Cons env envs)
  obtain s1 st1 r1 where h: "handle_attempt S G K cfg vk ident tx env st r = ((s1, st1), r1)" by (metis prod.exhaust)
  from h show ?case
  proof (cases rule: handle_attempt_counts)
    case stop
    with h Cons.prems have "status = s1" "st' = st1" by (cases s1; simp)+
    with stop Cons.prems show ?thesis by (simp add: delays_ok_def)
  next
    case again
    with h Cons.prems(1) have rest: "handle_loop S G K cfg vk ident tx envs st1 r1 = ((status, st'), r')" by simp
    have u: "unat (hs_attempt st1) = unat (hs_attempt st) + 1" using again unat_u32_succ by simp
    with again have le: "unat (hs_attempt st1) \<le> unat (rc_max_retries (vcc_reconnect cfg))"
      by (simp add: word_less_nat_alt)
    from Cons.IH [OF rest delays_ok_step [OF Cons.prems(2) again(2-4)] le] u again(2) show ?thesis
      by (auto simp: word_less_nat_alt)
  qed
qed

text \<open>C32. Reconnecting ends: \<open>handle\<close> makes at most \<open>max_retries\<close> further attempts, each after the
  delay \<open>backoff\<close> gives for its number, and when more than \<open>max_retries\<close> attempts can be made it does
  not ask for another: it returned, is relaying, or stopped in the relay. This holds for every bridge,
  every schedule of relay events and all randomness.\<close>

theorem reconnect_attempts_bounded:
  assumes "client_handle S G K cfg vk ident tx envs user_w r = ((status, st), r')"
  shows "unat (hs_attempt st) \<le> unat (rc_max_retries (vcc_reconnect cfg)) \<and>
     length (hs_delays st) = unat (hs_attempt st) \<and>
     (\<forall>i < length (hs_delays st). \<exists>w. hs_delays st ! i = backoff (word_of_nat i) (vcc_reconnect cfg) w) \<and>
     (unat (rc_max_retries (vcc_reconnect cfg)) < length envs \<longrightarrow> status \<noteq> BetweenAttempts)"
  using handle_loop_bounded [OF assms [unfolded client_handle_def]] by (simp add: delays_ok_def)

definition demo_client_config :: valid_client_config where
  "demo_client_config = \<lparr>vcc_listen_addr = \<lparr>addr_ip = IpV4 0x7F000001, addr_port = 9090, addr_scope = 0\<rparr>,
     vcc_bridge_addr = \<lparr>addr_ip = IpV4 0x7F000001, addr_port = 8443, addr_scope = 0\<rparr>,
     vcc_server_vk_path = ''./keys/server.vk'', vcc_client_sk_path = None, vcc_max_frame_size = 65536,
     vcc_log_level = ''info'', vcc_pool = default_pool_config,
     vcc_reconnect = default_reconnect_config\<lparr>rc_max_retries := 2\<rparr>\<rparr>"

definition refused_env :: attempt_env where
  "refused_env = \<lparr>at_acquired = Err ConnectionRefused, at_events = [], at_random = 0\<rparr>"

theorem reconnect_attempts_bounded_witness:
  "\<exists>st r'. client_handle toy_sym toy_sig toy_kex demo_client_config (VerifyingKey []) None True
       [refused_env, refused_env, refused_env, refused_env] open_writer 0 = ((HandleOk, st), r') \<and>
     length (hs_delays st) = 2 \<and> hs_events st = [Exhausted 2] \<and> unat (hs_attempt st) \<le> 2"
proof -
  let ?h = "client_handle toy_sym toy_sig toy_kex demo_client_config (VerifyingKey []) None True
       [refused_env, refused_env, refused_env, refused_env] open_writer 0"
  obtain st r' where h: "?h = ((HandleOk, st), r')" and e: "hs_events st = [Exhausted 2]" "hs_attempt st = 2"
    by (simp add: client_handle_def handle_attempt_def refused_env_def retry_def next_attempt_def give_up_def emit_def
        demo_client_config_def)
  from reconnect_attempts_bounded [OF h] e h show ?thesis by (simp add: demo_client_config_def)
qed

section \<open>Authentication\<close>

text \<open>C33. An authentication failure is final: when the 4557 bytes a bridge sends do not carry a valid
  signature of the expected server over their first 1248 bytes, the session ends at this attempt
  whatever attempts would follow. No byte is sent to that bridge, no ephemeral key is drawn, no delay
  is waited, no event is emitted, and the user's connection is closed.\<close>

theorem auth_failure_never_retries:
  assumes "at_acquired env = Ok (bridge_in, bridge_w)" and "SERVER_HELLO_SIGNED_LEN \<le> length bridge_in"
    and "verify G vk (take SERVER_HELLO_LEN bridge_in)
       (Signature (take SIGNATURE_LEN (drop SERVER_HELLO_LEN bridge_in))) \<noteq> Ok ()"
  shows "handle_loop S G K cfg vk ident tx (env # envs) st r =
     ((HandleOk, st\<lparr>hs_bridges := hs_bridges st @ [w_sent bridge_w], hs_user_closed := True\<rparr>), r)"
proof -
  let ?b = "take SERVER_HELLO_SIGNED_LEN bridge_in"
  have l: "length ?b = SERVER_HELLO_SIGNED_LEN" using assms(2) by simp
  have "take SERVER_HELLO_LEN ?b = take SERVER_HELLO_LEN bridge_in"
    "drop SERVER_HELLO_LEN ?b = take SIGNATURE_LEN (drop SERVER_HELLO_LEN bridge_in)"
    by (simp_all add: layout_defs drop_take)
  with assms(3) have "parse_server_hello_signed G K ?b vk = Err AuthenticationFailed"
    unfolding parse_server_hello_signed_iff [OF l] by simp
  with assms(1,2) show ?thesis
    by (simp add: handle_attempt_def do_handshake_def read_exact_def Let_def)
qed

theorem auth_failure_never_retries_witness:
  "\<exists>st. client_handle toy_sym toy_sig toy_kex demo_client_config (VerifyingKey []) None True
      [\<lparr>at_acquired = Ok (replicate 4557 0, open_writer), at_events = [], at_random = 0\<rparr>, refused_env] open_writer 3 =
        ((HandleOk, st), 3) \<and> hs_bridges st = [[]] \<and> hs_events st = [] \<and> hs_user_closed st"
proof -
  have v: "verify toy_sig (VerifyingKey []) (take SERVER_HELLO_LEN (replicate 4557 0))
     (Signature (take SIGNATURE_LEN (drop SERVER_HELLO_LEN (replicate 4557 0)))) \<noteq> Ok ()"
  proof -
    have e: "be_bytes 2 (length SIGNING_CONTEXT) = [0, 16]" by code_simp
    have "toy_signature [] m SIGNING_CONTEXT \<noteq> replicate 3309 0" for m
    proof
      assume "toy_signature [] m SIGNING_CONTEXT = replicate 3309 0"
      then have "toy_signature [] m SIGNING_CONTEXT ! 9 = 0" by simp
      then show False by (simp add: toy_signature_def toy_block_def pad_to_def nth_append e)
    qed
    then show ?thesis by (simp add: verify_def toy_sig_def layout_defs) metis
  qed
  let ?env = "\<lparr>at_acquired = Ok (replicate 4557 0, open_writer), at_events = [], at_random = 0\<rparr>"
  have "at_acquired ?env = Ok (replicate 4557 0, open_writer)" "SERVER_HELLO_SIGNED_LEN \<le> length (replicate 4557 (0 :: byte))"
    by (simp_all add: layout_defs)
  note h = auth_failure_never_retries [OF this v, where S = toy_sym and K = toy_kex and r = 3]
  show ?thesis unfolding client_handle_def
    by (intro exI conjI, rule h) (simp_all add: open_writer_def)
qed

end
