(* ===== verification/End_To_End.thy ===== *)
theory End_To_End
  imports Session_Props Client_Session_Props
begin

text \<open>
  The bridge and the client proxy together: the two halves of the handshake run against each
  other, and the two relay loops connected by the encrypted channel. The lemmas here turn the turns of
  each loop into operations of the channel; the properties that rest on them are in the root theory.
\<close>

section \<open>Handshake\<close>

text \<open>The client knows the bridge's verifying key, and the bridge knows the client's when it asks for it.\<close>

definition paired ::
  "sig_prims \<Rightarrow> ('r, 'x, 'dk, 'ek) kex_prims \<Rightarrow> session_context \<Rightarrow> verifying_key \<Rightarrow> identity option \<Rightarrow> bool" where
  "paired G K ctx vk ident \<longleftrightarrow>
     (\<exists>a a'. generate_keypair G K a = ((signing_key (ctx_identity ctx), vk), a')) \<and>
     (case (ctx_client_auth ctx, ident) of
        (None, None) \<Rightarrow> True
      | (Some client_vk, Some i) \<Rightarrow> \<exists>b b'. generate_keypair G K b = ((signing_key i, client_vk), b')
      | _ \<Rightarrow> False)"

text \<open>What the bridge sends, and what it does with the answer.\<close>

lemma handshake_phase_hello:
  assumes "handshake_phase S G K ctx cin open_writer r = (res, rest, w, r')" "\<nexists>e. res = Err (SeHello e)"
  obtains hs r1 wire where "server_handshake_new K r = (hs, r1)"
    "server_hello_signed_bytes G K hs (signing_key (ctx_identity ctx)) r1 = (Ok wire, r')" "w_sent w = wire"
    "\<And>b more. length b = CLIENT_RESPONSE_SIGNED_LEN \<Longrightarrow> ctx_client_auth ctx = Some cvk \<Longrightarrow>
       handshake_phase S G K ctx (b @ more) open_writer r =
         (map_err SeClientAuth (complete_from_wire_signed S G K hs b cvk), more, w, r')"
    "\<And>b more. length b = CLIENT_RESPONSE_LEN \<Longrightarrow> ctx_client_auth ctx = None \<Longrightarrow>
       handshake_phase S G K ctx (b @ more) open_writer r =
         (map_err SeHandshake (complete_from_wire S K hs b), more, w, r')"
proof -
  obtain hs r1 where hs: "server_handshake_new K r = (hs, r1)" by fastforce
  obtain hello r2 where h: "server_hello_signed_bytes G K hs (signing_key (ctx_identity ctx)) r1 = (hello, r2)" by fastforce
  from assms hs h obtain wire where wire: "hello = Ok wire"
    by (cases hello) (auto simp: handshake_phase_def)
  let ?w = "open_writer\<lparr>w_sent := w_sent open_writer @ concat [wire]\<rparr>"
  have f: "write_flush [wire] open_writer = (Ok (), ?w)" by (rule write_flush_open) simp_all
  from assms(1) hs h wire f have "w = ?w" "r' = r2"
    by (auto simp: handshake_phase_def split: option.splits)
  then show ?thesis using that [OF hs] h wire f
    by (simp add: handshake_phase_def hs io_simps)
qed

lemma client_hello_answer:
  assumes "sig_laws G" "kex_laws K" "kem_total K" "hkdf_laws S" "paired G K ctx vk ident"
    and "server_handshake_new K r = (hs, r1)"
    and "server_hello_signed_bytes G K hs (signing_key (ctx_identity ctx)) r1 = (Ok wire, r2)"
    and "do_handshake S G K vk ident cfg wire open_writer q = (cres, bin, bw, q')"
    and "\<nexists>e. cres = Err (HsTransport (ResponseSigning e))"
  obtains resp key q1 where "client_respond S K (server_client_hello K hs) q = (Ok (resp, key), q1)"
    "response_bytes G K ident resp (server_hello_raw hs) q1 = (Ok (w_sent bw), q')"
    "length (key_as_bytes key) = 32"
    "cres = Ok (channel_new (key_as_bytes key) (vcc_max_frame_size cfg))" "bin = []"
proof -
  note wf = server_handshake_new_wf [OF assms(2,6)]
  from assms(5) obtain a a' where kp: "generate_keypair G K a = ((signing_key (ctx_identity ctx), vk), a')"
    by (auto simp: paired_def)
  note own = parse_own_server_hello [OF assms(1,2) kp wf assms(7)]
  obtain resp key q1 where c: "client_respond S K (server_client_hello K hs) q = (Ok (resp, key), q1)"
    "length (key_as_bytes key) = 32"
    using assms(3,4) by (rule client_respond_total)
  have rd: "read_exact SERVER_HELLO_SIGNED_LEN wire = Some (wire, [])" using own(3) by (simp add: read_exact_def)
  obtain rb q2 where rb: "response_bytes G K ident resp (server_hello_raw hs) q1 = (rb, q2)" by fastforce
  show ?thesis
  proof (cases rb)
    case (Inl e)
    then have "\<exists>x. e = ResponseSigning x" using rb
      by (auto simp: response_bytes_def split: option.splits prod.splits sum.splits)
    with Inl assms(8,9) rd own c rb show ?thesis by (auto simp: do_handshake_def)
  next
    case (Inr wire')
    with assms(8) rd own c rb have "bw = open_writer\<lparr>w_sent := wire'\<rparr>" "q' = q2"
      "cres = Ok (channel_new (key_as_bytes key) (vcc_max_frame_size cfg))" "bin = []"
      by (auto simp: do_handshake_def write_all_unbounded)
    with that c rb Inr show ?thesis by simp
  qed
qed

section \<open>Relay\<close>

text \<open>The operations of the channel on any writer that does not break.\<close>

lemma chan_send_write_frame:
  assumes "chan_send S ch (SendData d) = Some (x, ch')" "w_budget w = None" "w_flush_ok w"
  shows "write_frame S ch w d = (Ok (), ch', w\<lparr>w_sent := w_sent w @ x\<rparr>)"
proof -
  from assms(1) obtain w1 where w1: "write_frame S ch open_writer d = (Ok (), ch', w1)" "x = w_sent w1"
    by (auto split: prod.splits sum.splits)
  from w1(1) obtain c t where "gcm_encrypt S (cipher ch) (data_nonce ch) (u64_to_be (send_seq ch)) d = Some (c, t)"
    "ch' = ch\<lparr>send_seq := send_seq ch + 1\<rparr>" "w_sent w1 = w_sent open_writer @ data_wire (send_seq ch) (data_nonce ch) c t"
    by (rule write_frame_OkE)
  with w1(2) assms(2,3) show ?thesis by (simp add: write_frame_open)
qed

lemma chan_send_do_rotate:
  assumes "chan_send S ch (Rotate n g) = Some (x, ch')" "w_budget w = None" "w_flush_ok w"
  shows "do_rotate S ch w m n g = (Running, ch', w\<lparr>w_sent := w_sent w @ x\<rparr>, count_rotation m)"
proof -
  from assms(1) obtain w1 ch1 where w1: "send_key_rotate S ch open_writer g n = (Ok (), ch1, w1)" "x = w_sent w1"
    "rotate_key S ch1 n = Some ch'" by (auto split: prod.splits sum.splits)
  from w1(1) obtain c t where "gcm_encrypt S (cipher ch) g (u64_to_be (key_rotate_send_seq ch)) n = Some (c, t)"
    "ch1 = ch\<lparr>key_rotate_send_seq := key_rotate_send_seq ch + 1\<rparr>" "w_sent w1 = w_sent open_writer @ rotate_wire g c t"
    by (rule send_key_rotate_OkE)
  with w1 assms(2,3) show ?thesis by (simp add: do_rotate_def send_key_rotate_open)
qed

fun op_payload :: "chan_op \<Rightarrow> bytes" where
  "op_payload (SendData d) = d"
| "op_payload (Rotate n g) = []"

fun frame_payload :: "frame_result \<Rightarrow> bytes" where
  "frame_payload (Data d) = d"
| "frame_payload (KeyRotate n) = []"

lemma frame_payload_image [simp]: "frame_payload (op_image x) = op_payload x"
  by (cases x) simp_all

text \<open>Events that send to the client: data of the backend that fits a frame, and rotations.\<close>

fun ev_payload :: "select_arm \<Rightarrow> bytes" where
  "ev_payload (BackendRead (Ok bs) k) = bs"
| "ev_payload _ = []"

fun arm_down :: "(chan_op \<Rightarrow> bool) \<Rightarrow> select_arm \<Rightarrow> bool" where
  "arm_down V (BackendRead (Ok bs) k) \<longleftrightarrow> bs \<noteq> [] \<and> V (SendData bs)"
| "arm_down V (RotationTick k) \<longleftrightarrow> True"
| "arm_down V (RotateSignal ok k) \<longleftrightarrow> True"
| "arm_down V _ \<longleftrightarrow> False"

definition event_down :: "(chan_op \<Rightarrow> bool) \<Rightarrow> session_event \<Rightarrow> bool" where
  "event_down V ev \<longleftrightarrow> arm_down V (ev_arm ev) \<and> V (Rotate (ev_nonce ev) (ev_gcm_nonce ev))"

definition client_open :: "session \<Rightarrow> bool" where
  "client_open st \<longleftrightarrow> w_budget (ss_client_w st) = None \<and> w_flush_ok (ss_client_w st)"

text \<open>\<open>sends S st ops st'\<close>: between the two states the session has put the operations on the wire.\<close>

definition sends :: "sym_prims \<Rightarrow> session \<Rightarrow> chan_op list \<Rightarrow> bytes \<Rightarrow> session \<Rightarrow> bool" where
  "sends S st ops x st' \<longleftrightarrow> send_ops S (ss_channel st) ops = Some (x, ss_channel st') \<and>
     ss_client_w st' = (ss_client_w st)\<lparr>w_sent := w_sent (ss_client_w st) @ x\<rparr>"

lemma sends_open: "sends S st ops x st' \<Longrightarrow> client_open st' = client_open st"
  by (simp add: sends_def client_open_def)

lemma send_ops_append:
  "send_ops S ch (xs @ ys) = (case send_ops S ch xs of None \<Rightarrow> None
    | Some (w, ch') \<Rightarrow> (case send_ops S ch' ys of None \<Rightarrow> None | Some (w', ch'') \<Rightarrow> Some (w @ w', ch'')))"
  by (induction xs arbitrary: ch) (auto split: option.splits prod.splits)

lemma sends_append:
  "sends S st xs x st1 \<Longrightarrow> sends S st1 ys y st2 \<Longrightarrow> sends S st (xs @ ys) (x @ y) st2"
  by (simp add: sends_def send_ops_append)

lemma sends_cong:
  "sends S st ops x st' \<Longrightarrow> ss_channel st2 = ss_channel st \<Longrightarrow> ss_client_w st2 = ss_client_w st \<Longrightarrow>
   ss_channel st3 = ss_channel st' \<Longrightarrow> ss_client_w st3 = ss_client_w st' \<Longrightarrow> sends S st2 ops x st3"
  by (simp add: sends_def)

lemma link_sends:
  assumes "chan_link S (Suc n) s r" "op_valid r x"
  obtains w s' r' where "chan_send S s x = Some (w, s')" "chan_link S n s' r'" "op_valid r' = op_valid r"
  using lk.send_recv [OF assms] by blast

text \<open>One turn of the bridge's loop on such an event.\<close>

lemma select_down:
  assumes "chan_link S (Suc n) (ss_channel st) r" "arm_down (op_valid r) arm" "client_open st"
  obtains b st1 ops x r1 where "session_select S cfg st arm = (Running, b, st1)" "sends S st ops x st1"
    "length ops \<le> 1" "concat (map op_payload ops) = ev_payload arm" "\<forall>y \<in> set ops. op_valid r y"
    "chan_link S n (ss_channel st1) r1" "op_valid r1 = op_valid r"
proof -
  have down: "chan_link S n (ss_channel st) r" using assms(1) by (simp add: chan_link_def)
  show ?thesis
  proof (cases "\<exists>bs k. arm = BackendRead (Ok bs) k")
    case True
    then obtain bs k where arm: "arm = BackendRead (Ok bs) k" by blast
    with assms(2) have v: "op_valid r (SendData bs)" "bs \<noteq> []" by auto
    obtain x ch r1 where x: "chan_send S (ss_channel st) (SendData bs) = Some (x, ch)" "chan_link S n ch r1"
      "op_valid r1 = op_valid r" using assms(1) v(1) by (rule link_sends)
    from chan_send_write_frame [OF x(1), of "ss_client_w st"] assms(3)
    have w: "write_frame S (ss_channel st) (ss_client_w st) bs =
        (Ok (), ch, (ss_client_w st)\<lparr>w_sent := w_sent (ss_client_w st) @ x\<rparr>)" by (simp add: client_open_def)
    obtain b st1 where s: "session_select S cfg st arm = (Running, b, st1)" "ss_channel st1 = ch"
      "ss_client_w st1 = (ss_client_w st)\<lparr>w_sent := w_sent (ss_client_w st) @ x\<rparr>"
      using w v(2) arm by (simp add: Let_def)
    show ?thesis
      by (rule that [OF s(1), of "[SendData bs]" x r1]) (use s x v arm in \<open>simp_all add: sends_def\<close>)
  next
    case False
    with assms(2) obtain b k where s: "session_select S cfg st arm = (Running, b, st\<lparr>ss_client_in := drop k (ss_client_in st)\<rparr>)"
      and p: "ev_payload arm = []" by (cases "(op_valid r, arm)" rule: arm_down.cases) auto
    show ?thesis
      by (rule that [OF s, of "[]" "[]" r]) (use down p in \<open>simp_all add: sends_def\<close>)
  qed
qed

lemma step_down:
  assumes "chan_link S (Suc (Suc n)) (ss_channel st) r" "event_down (op_valid r) ev" "client_open st"
  obtains st1 ops x r1 where "session_step S cfg st ev = (Running, st1)" "sends S st ops x st1"
    "length ops \<le> 2" "concat (map op_payload ops) = ev_payload (ev_arm ev)" "\<forall>y \<in> set ops. op_valid r y"
    "chan_link S n (ss_channel st1) r1" "op_valid r1 = op_valid r"
proof -
  have arm: "arm_down (op_valid r) (ev_arm ev)" and v: "op_valid r (Rotate (ev_nonce ev) (ev_gcm_nonce ev))"
    using assms(2) by (simp_all add: event_down_def)
  obtain b st1 ops x r1 where s: "session_select S cfg st (ev_arm ev) = (Running, b, st1)" "sends S st ops x st1"
    "length ops \<le> 1" "concat (map op_payload ops) = ev_payload (ev_arm ev)" "\<forall>y \<in> set ops. op_valid r y"
    "chan_link S (Suc n) (ss_channel st1) r1" "op_valid r1 = op_valid r"
    using assms(1) arm assms(3) by (rule select_down)
  show ?thesis
  proof (cases b)
    case False
    have "chan_link S n (ss_channel st1) r1" using s(6) by (simp add: chan_link_def)
    with False s that [of st1 ops x r1] show ?thesis by (simp add: session_step_def)
  next
    case True
    have v1: "op_valid r1 (Rotate (ev_nonce ev) (ev_gcm_nonce ev))" using v s(7) by simp
    obtain y ch r2 where y: "chan_send S (ss_channel st1) (Rotate (ev_nonce ev) (ev_gcm_nonce ev)) = Some (y, ch)"
      "chan_link S n ch r2" "op_valid r2 = op_valid r1" using s(6) v1 by (rule link_sends)
    have "client_open st1" using sends_open [OF s(2)] assms(3) by simp
    with chan_send_do_rotate [OF y(1), of "ss_client_w st1" "ss_metrics st1"]
    have d: "do_rotate S (ss_channel st1) (ss_client_w st1) (ss_metrics st1) (ev_nonce ev) (ev_gcm_nonce ev) =
        (Running, ch, (ss_client_w st1)\<lparr>w_sent := w_sent (ss_client_w st1) @ y\<rparr>, count_rotation (ss_metrics st1))"
      by (simp add: client_open_def)
    let ?st2 = "st1\<lparr>ss_channel := ch, ss_client_w := (ss_client_w st1)\<lparr>w_sent := w_sent (ss_client_w st1) @ y\<rparr>,
      ss_metrics := count_rotation (ss_metrics st1), ss_bytes_this_epoch := 0\<rparr>"
    have step: "session_step S cfg st ev = (Running, ?st2)" using True s(1) d by (simp add: session_step_def)
    have "sends S st1 [Rotate (ev_nonce ev) (ev_gcm_nonce ev)] y ?st2" using y(1) by (simp add: sends_def del: chan_send.simps)
    from sends_append [OF s(2) this] have o: "sends S st (ops @ [Rotate (ev_nonce ev) (ev_gcm_nonce ev)]) (x @ y) ?st2" .
    show ?thesis
      by (rule that [OF step o, of r2]) (use s y v in simp_all)
  qed
qed

lemma run_down:
  assumes "chan_link S (n + 2 * length evs) (ss_channel st) r" "\<forall>ev \<in> set evs. event_down (op_valid r) ev"
    and "client_open st"
  shows "\<exists>st' ops x. session_run S cfg st evs = (Running, st') \<and> sends S st ops x st' \<and> length ops \<le> 2 * length evs \<and>
     concat (map op_payload ops) = concat (map (\<lambda>ev. ev_payload (ev_arm ev)) evs) \<and> (\<forall>y \<in> set ops. op_valid r y)"
  using assms
proof (induction evs arbitrary: st r)
  case Nil
  then show ?case by (intro exI [of _ st] exI [of _ "[]"]) (simp add: sends_def)
next
  case (Cons ev evs)
  have "chan_link S (Suc (Suc (n + 2 * length evs))) (ss_channel st) r" "event_down (op_valid r) ev"
    using Cons.prems by simp_all
  then obtain st1 ops x r1 where s: "session_step S cfg st ev = (Running, st1)" "sends S st ops x st1"
    "length ops \<le> 2" "concat (map op_payload ops) = ev_payload (ev_arm ev)" "\<forall>y \<in> set ops. op_valid r y"
    "chan_link S (n + 2 * length evs) (ss_channel st1) r1" "op_valid r1 = op_valid r"
    using Cons.prems(3) by (rule step_down)
  from Cons.IH [OF s(6)] s(7) sends_open [OF s(2)] Cons.prems(2,3) obtain st2 ops' x' where
    t: "session_run S cfg st1 evs = (Running, st2)" "sends S st1 ops' x' st2" "length ops' \<le> 2 * length evs"
    "concat (map op_payload ops') = concat (map (\<lambda>ev. ev_payload (ev_arm ev)) evs)" "\<forall>y \<in> set ops'. op_valid r1 y"
    by auto
  show ?case
    by (rule exI [of _ st2], rule exI [of _ "ops @ ops'"], rule exI [of _ "x @ x'"])
      (use s t sends_append [OF s(2) t(2)] in auto)
qed

text \<open>The client's loop on the frames of those operations.\<close>

lemma relay_recv_ops:
  assumes "recv_ops S k (rl_channel st) (rl_bridge_in st) = Some (fs, ch', rest)"
    and "w_budget (rl_user_w st) = None"
  shows "run_relay S st (replicate k BridgeFrame) = (Relaying, st\<lparr>rl_channel := ch', rl_bridge_in := rest,
     rl_user_w := (rl_user_w st)\<lparr>w_sent := w_sent (rl_user_w st) @ concat (map frame_payload fs)\<rparr>\<rparr>)"
  using assms
proof (induction k arbitrary: st fs)
  case 0
  then show ?case by simp
next
  case (Suc k)
  from Suc.prems(1) obtain f ch1 b1 gs where c: "chan_recv S (rl_channel st) (rl_bridge_in st) = Some (f, ch1, b1)"
    and g: "recv_ops S k ch1 b1 = Some (gs, ch', rest)" and fs: "fs = f # gs"
    by (auto split: option.splits)
  let ?st1 = "st\<lparr>rl_channel := ch1, rl_bridge_in := b1,
     rl_user_w := (rl_user_w st)\<lparr>w_sent := w_sent (rl_user_w st) @ frame_payload f\<rparr>\<rparr>"
  have "relay_step S st BridgeFrame = (Relaying, ?st1)"
    using c Suc.prems(2) by (auto simp: chan_recv_def io_simps split: prod.splits sum.splits frame_result.splits)
  moreover have "run_relay S ?st1 (replicate k BridgeFrame) = (Relaying, ?st1\<lparr>rl_channel := ch', rl_bridge_in := rest,
     rl_user_w := (rl_user_w ?st1)\<lparr>w_sent := w_sent (rl_user_w ?st1) @ concat (map frame_payload gs)\<rparr>\<rparr>)"
    by (rule Suc.IH) (use g Suc.prems(2) in simp_all)
  ultimately show ?case by (simp add: fs)
qed

text \<open>The other direction: user data in, frames out.\<close>

lemma relay_user_reads:
  assumes "chan_link S (n + length ds) (rl_channel st) r" "\<forall>d \<in> set ds. d \<noteq> [] \<and> op_valid r (SendData d)"
    and "w_budget (rl_bridge_w st) = None" "w_flush_ok (rl_bridge_w st)" "\<not> rl_user_eof st"
    and "\<forall>d \<in> set ds. length d \<le> max_frame_size (rl_channel st)"
  shows "\<exists>x ch'. send_ops S (rl_channel st) (map SendData ds) = Some (x, ch') \<and>
     run_relay S st (map (\<lambda>d. UserRead (Ok d) 0) ds) = (Relaying, st\<lparr>rl_channel := ch',
       rl_bridge_w := (rl_bridge_w st)\<lparr>w_sent := w_sent (rl_bridge_w st) @ x\<rparr>\<rparr>)"
  using assms
proof (induction ds arbitrary: st r)
  case Nil
  then show ?case by simp
next
  case (Cons d ds)
  have "chan_link S (Suc (n + length ds)) (rl_channel st) r" "op_valid r (SendData d)" using Cons.prems by simp_all
  then obtain x ch r1 where x: "chan_send S (rl_channel st) (SendData d) = Some (x, ch)"
    "chan_link S (n + length ds) ch r1" "op_valid r1 = op_valid r" by (rule link_sends)
  let ?st1 = "st\<lparr>rl_channel := ch, rl_bridge_w := (rl_bridge_w st)\<lparr>w_sent := w_sent (rl_bridge_w st) @ x\<rparr>\<rparr>"
  have wf: "write_frame S (rl_channel st) (rl_bridge_w st) d = (Ok (), ch, rl_bridge_w ?st1)"
    using chan_send_write_frame [OF x(1) Cons.prems(3,4)] by simp
  then have mf: "max_frame_size ch = max_frame_size (rl_channel st)" by (auto elim!: write_frame_OkE)
  have ok: "relay_event_ok S st (UserRead (Ok d) 0)" using Cons.prems(5,6) by (simp add: incomplete_def)
  have step: "relay_step S st (UserRead (Ok d) 0) = (Relaying, ?st1)" using wf Cons.prems(2) by simp
  have "\<exists>y ch'. send_ops S (rl_channel ?st1) (map SendData ds) = Some (y, ch') \<and>
     run_relay S ?st1 (map (\<lambda>d. UserRead (Ok d) 0) ds) = (Relaying, ?st1\<lparr>rl_channel := ch',
       rl_bridge_w := (rl_bridge_w ?st1)\<lparr>w_sent := w_sent (rl_bridge_w ?st1) @ y\<rparr>\<rparr>)"
    by (rule Cons.IH [of ?st1 r1]) (use Cons.prems x mf in simp_all)
  then obtain y ch' where y: "send_ops S ch (map SendData ds) = Some (y, ch')"
    "run_relay S ?st1 (map (\<lambda>d. UserRead (Ok d) 0) ds) = (Relaying, ?st1\<lparr>rl_channel := ch',
       rl_bridge_w := (rl_bridge_w ?st1)\<lparr>w_sent := w_sent (rl_bridge_w ?st1) @ y\<rparr>\<rparr>)" by auto
  show ?case
    by (rule exI [of _ "x @ y"], rule exI [of _ ch'])
      (use x(1) y ok step in \<open>simp del: chan_send.simps relay_step.simps relay_event_ok.simps\<close>)
qed

lemma session_recv_ops:
  assumes "recv_ops S (length ds) (ss_channel st) (ss_client_in st) = Some (map Data ds, ch', rest)"
    and "w_budget (ss_backend_w st) = None" "\<forall>d \<in> set ds. d \<noteq> []" "length evs = length ds"
    and "\<forall>ev \<in> set evs. ev_arm ev = ClientFrame"
  shows "session_run S cfg st evs = (Running, st\<lparr>ss_channel := ch', ss_client_in := rest,
     ss_backend_w := (ss_backend_w st)\<lparr>w_sent := w_sent (ss_backend_w st) @ concat ds\<rparr>\<rparr>)"
  using assms
proof (induction ds arbitrary: st evs)
  case Nil
  then show ?case by simp
next
  case (Cons d ds)
  from Cons.prems(4,5) obtain ev es where evs: "evs = ev # es" "ev_arm ev = ClientFrame" "length es = length ds"
    "\<forall>ev \<in> set es. ev_arm ev = ClientFrame" by (cases evs) auto
  from Cons.prems(1) obtain ch1 b1 where c: "chan_recv S (ss_channel st) (ss_client_in st) = Some (Data d, ch1, b1)"
    and g: "recv_ops S (length ds) ch1 b1 = Some (map Data ds, ch', rest)" by (auto split: option.splits)
  let ?st1 = "st\<lparr>ss_channel := ch1, ss_client_in := b1,
     ss_backend_w := (ss_backend_w st)\<lparr>w_sent := w_sent (ss_backend_w st) @ d\<rparr>\<rparr>"
  have "session_select S cfg st ClientFrame = (Running, False, ?st1)"
    using c Cons.prems(2,3) by (auto simp: chan_recv_def io_simps Let_def split: prod.splits sum.splits frame_result.splits option.splits)
  then have "session_step S cfg st ev = (Running, ?st1)" by (simp add: session_step_def evs(2) del: session_select.simps)
  moreover have "session_run S cfg ?st1 es = (Running, ?st1\<lparr>ss_channel := ch', ss_client_in := rest,
     ss_backend_w := (ss_backend_w ?st1)\<lparr>w_sent := w_sent (ss_backend_w ?st1) @ concat ds\<rparr>\<rparr>)"
    by (rule Cons.IH) (use g Cons.prems evs in simp_all)
  ultimately show ?case by (simp add: evs(1))
qed

end
