(* ===== verification/Conversation.thy ===== *)
theory Conversation
  imports End_To_End
begin

text \<open>
  A whole connection between the client proxy and the bridge: the handshake, the states in which both
  sides enter their relay loops, and the turns of a conversation in which user and backend speak one
  after the other, with key rotations wherever the bridge makes them. The channel of either side sends and
  receives; \<open>duplex\<close> says that the two are in step both ways, and it is the link relation of a second
  interpretation of \<open>ordered_link\<close>.
\<close>

section \<open>Channels in step both ways\<close>

definition duplex :: "sym_prims \<Rightarrow> nat \<Rightarrow> channel \<Rightarrow> channel \<Rightarrow> bool" where
  "duplex S n a b \<longleftrightarrow> chan_link S n a b \<and> chan_link S n b a"

lemma duplex_sym: "duplex S n a b \<Longrightarrow> duplex S n b a"
  by (simp add: duplex_def)

lemma duplex_mono: "duplex S n a b \<Longrightarrow> k \<le> n \<Longrightarrow> duplex S k a b"
  by (simp add: duplex_def chan_link_def)

lemma duplex_new: "prim_laws S \<Longrightarrow> length k = 32 \<Longrightarrow> n < 2 ^ 64 \<Longrightarrow> duplex S n (channel_new k m) (channel_new k m')"
  using new_channels_in_step [of k m m'] new_channels_in_step [of k m' m] by (simp add: duplex_def chan_link_def channel_new_def)

lemma chan_send_state:
  "chan_send S s (SendData d) = Some (w, s') \<Longrightarrow> s' = s\<lparr>send_seq := send_seq s + 1\<rparr>"
  "chan_send S s (Rotate n g) = Some (w, s') \<Longrightarrow> \<exists>k. s' = s\<lparr>key_rotate_send_seq := key_rotate_send_seq s + 1, cipher := k,
     key_bytes := k, send_seq := 0, recv_seq := 0, recv_initialized := False, epoch := epoch s + 1\<rparr>"
  by (auto split: prod.splits sum.splits option.splits simp: rotate_key_def elim!: write_frame_OkE send_key_rotate_OkE)

lemma chan_recv_state:
  "chan_recv S r b = Some (Data d, r', rest) \<Longrightarrow> \<exists>q. r' = r\<lparr>recv_seq := q, recv_initialized := True\<rparr>"
  "chan_recv S r b = Some (KeyRotate n, r', rest) \<Longrightarrow> \<exists>k. r' = r\<lparr>key_rotate_recv_seq := key_rotate_recv_seq r + 1, cipher := k,
     key_bytes := k, send_seq := 0, recv_seq := 0, recv_initialized := False, epoch := epoch r + 1\<rparr>"
  by (auto simp: chan_recv_def read_frame_def read_data_frame_def read_key_rotate_frame_def rotate_key_def Let_def
      split: prod.splits sum.splits option.splits frame_result.splits if_splits)

text \<open>What one side sends leaves the other direction in step.\<close>

lemma duplex_send_recv:
  assumes "duplex S (Suc n) s r" "op_valid r m"
  shows "\<exists>w s' r'. chan_send S s m = Some (w, s') \<and> duplex S n s' r' \<and> op_valid r' = op_valid r \<and>
     (\<forall>rest. chan_recv S r (w @ rest) = Some (op_image m, r', rest))"
proof -
  from assms(1) have fwd: "chan_link S (Suc n) s r" and bwd: "chan_link S (Suc n) r s" by (simp_all add: duplex_def)
  from lk.send_recv [OF fwd assms(2)] obtain w s' r' where l: "chan_send S s m = Some (w, s')" "chan_link S n s' r'"
    "op_valid r' = op_valid r" "\<And>rest. chan_recv S r (w @ rest) = Some (op_image m, r', rest)" by blast
  have "chan_link S n r' s'"
  proof (cases m)
    case (SendData d)
    with l(1) l(4) [of "[]"] chan_send_state(1) [of S s d w s'] chan_recv_state(1) [of S r "w @ []" d r' "[]"]
    obtain q where "s' = s\<lparr>send_seq := send_seq s + 1\<rparr>" "r' = r\<lparr>recv_seq := q, recv_initialized := True\<rparr>" by auto
    with bwd show ?thesis by (auto simp: chan_link_def in_step_def channel_wf_def)
  next
    case (Rotate x g)
    with l(1) l(4) [of "[]"] chan_send_state(2) [of S s x g w s'] chan_recv_state(2) [of S r "w @ []" x r' "[]"]
    obtain k k' where "s' = s\<lparr>key_rotate_send_seq := key_rotate_send_seq s + 1, cipher := k,
       key_bytes := k, send_seq := 0, recv_seq := 0, recv_initialized := False, epoch := epoch s + 1\<rparr>"
      "r' = r\<lparr>key_rotate_recv_seq := key_rotate_recv_seq r + 1, cipher := k',
       key_bytes := k', send_seq := 0, recv_seq := 0, recv_initialized := False, epoch := epoch r + 1\<rparr>" by auto
    with bwd l(2) show ?thesis by (auto simp: chan_link_def in_step_def channel_wf_def)
  qed
  with l show ?thesis by (auto simp: duplex_def)
qed

interpretation dx: ordered_link "chan_send S" "chan_recv S" "duplex S" op_valid op_image for S
  by unfold_locales (rule duplex_send_recv)

lemma send_ops_duplex:
  assumes "duplex S (n + length ops) s r" "\<forall>x \<in> set ops. op_valid r x" "send_ops S s ops = Some (w, s')"
  obtains r' where "duplex S n s' r'" "op_valid r' = op_valid r" "recv_ops S (length ops) r w = Some (map op_image ops, r', [])"
proof -
  have "send_ops S s ops = dx.send_all S s ops" "recv_ops S (length ops) r w = dx.recv_all S (length ops) r w"
    by (simp_all add: send_ops_lk recv_ops_lk)
  with dx.delivery [OF assms(1,2)] assms(3) that show ?thesis by (metis append_Nil2 option.inject prod.inject)
qed

lemma send_ops_max_frame_size: "send_ops S s ops = Some (w, s') \<Longrightarrow> max_frame_size s' = max_frame_size s"
proof (induction ops arbitrary: s w)
  case (Cons m ops)
  then obtain w1 s1 w2 where m: "chan_send S s m = Some (w1, s1)" "send_ops S s1 ops = Some (w2, s')"
    by (auto split: option.splits)
  from m(1) have "max_frame_size s1 = max_frame_size s"
    using chan_send_state(1) [of S s _ w1 s1] chan_send_state(2) [of S s _ _ w1 s1] by (cases m) fastforce+
  with Cons.IH [OF m(2)] show ?case by simp
qed simp

lemma recv_ops_max_frame_size: "recv_ops S k r b = Some (fs, r', rest) \<Longrightarrow> max_frame_size r' = max_frame_size r"
proof (induction k arbitrary: r b fs)
  case (Suc k)
  then obtain f r1 b1 fs1 where m: "chan_recv S r b = Some (f, r1, b1)" "recv_ops S k r1 b1 = Some (fs1, r', rest)"
    by (auto split: option.splits)
  from m(1) have "max_frame_size r1 = max_frame_size r"
    using chan_recv_state(1) [of S r b _ r1 b1] chan_recv_state(2) [of S r b _ r1 b1] by (cases f) fastforce+
  with Suc.IH [OF m(2)] show ?case by simp
qed simp

lemma op_valid_eq: "max_frame_size a = max_frame_size b \<Longrightarrow> op_valid a = op_valid b"
  by (intro ext, case_tac x) simp_all

section \<open>Turns\<close>

text \<open>A turn of the user: what its reads return, and the events of the session that takes the frames. A turn
  of the backend: the events of the session. The network moves the bytes between the two loops.\<close>

datatype turn = UserTurn "bytes list" "session_event list" | BackendTurn "session_event list"

inductive conversation ::
  "sym_prims \<Rightarrow> valid_config \<Rightarrow> session \<Rightarrow> relay \<Rightarrow> turn list \<Rightarrow> session \<Rightarrow> relay \<Rightarrow> bool" for S cfg where
  over: "conversation S cfg st rl [] st rl"
| user: "run_relay S rl (map (\<lambda>d. UserRead (Ok d) 0) ds) = (Relaying, rl1) \<Longrightarrow>
    w_sent (rl_bridge_w rl1) = w_sent (rl_bridge_w rl) @ wire \<Longrightarrow>
    session_run S cfg (st\<lparr>ss_client_in := ss_client_in st @ wire\<rparr>) evs = (Running, st1) \<Longrightarrow>
    conversation S cfg st1 rl1 ts st2 rl2 \<Longrightarrow> conversation S cfg st rl (UserTurn ds evs # ts) st2 rl2"
| backend: "session_run S cfg st evs = (Running, st1) \<Longrightarrow> w_sent (ss_client_w st1) = w_sent (ss_client_w st) @ wire \<Longrightarrow>
    run_relay S (rl\<lparr>rl_bridge_in := rl_bridge_in rl @ wire\<rparr>) (replicate n BridgeFrame) = (Relaying, rl1) \<Longrightarrow>
    conversation S cfg st1 rl1 ts st2 rl2 \<Longrightarrow> conversation S cfg st rl (BackendTurn evs # ts) st2 rl2"

fun turn_up :: "turn \<Rightarrow> bytes" where
  "turn_up (UserTurn ds evs) = concat ds"
| "turn_up (BackendTurn evs) = []"

fun turn_down :: "turn \<Rightarrow> bytes" where
  "turn_down (UserTurn ds evs) = []"
| "turn_down (BackendTurn evs) = concat (map (\<lambda>ev. ev_payload (ev_arm ev)) evs)"

fun turn_frames :: "turn \<Rightarrow> nat" where
  "turn_frames (UserTurn ds evs) = length ds"
| "turn_frames (BackendTurn evs) = 2 * length evs"

text \<open>Chunks fit the frames of both sides, and rotation nonces have their length. While frames of the client are in flight,
  in a turn of the user, the bridge only reads them: rotations belong to the backend's turns. A rotation that overtakes
  a frame of the client is the subject of \<open>Session_Props\<close>: it ends the session.\<close>

fun turn_ok :: "nat \<Rightarrow> nat \<Rightarrow> turn \<Rightarrow> bool" where
  "turn_ok mb mc (UserTurn ds evs) \<longleftrightarrow> (\<forall>d \<in> set ds. d \<noteq> [] \<and> length d \<le> mb \<and> length d \<le> mc \<and> length d + 16 < 2 ^ 32) \<and>
     length evs = length ds \<and> (\<forall>ev \<in> set evs. ev_arm ev = ClientFrame)"
| "turn_ok mb mc (BackendTurn evs) \<longleftrightarrow> (\<forall>ev \<in> set evs. event_down (op_valid (channel_new [] mc)) ev)"

text \<open>The states between turns: in step both ways, nothing in flight, connections that do not break.\<close>

definition between_turns :: "sym_prims \<Rightarrow> nat \<Rightarrow> session \<Rightarrow> relay \<Rightarrow> bool" where
  "between_turns S n st rl \<longleftrightarrow> duplex S n (ss_channel st) (rl_channel rl) \<and> ss_client_in st = [] \<and> rl_bridge_in rl = [] \<and>
     client_open st \<and> w_budget (ss_backend_w st) = None \<and> w_budget (rl_bridge_w rl) = None \<and> w_flush_ok (rl_bridge_w rl) \<and>
     w_budget (rl_user_w rl) = None \<and> \<not> rl_user_eof rl"

text \<open>Sending to the client leaves the other connections of the session alone.\<close>

lemma session_step_down_keeps:
  assumes "session_step S cfg st ev = (Running, st')" "event_down V ev"
  shows "ss_backend_w st' = ss_backend_w st \<and> (ss_client_in st = [] \<longrightarrow> ss_client_in st' = [])"
  using assms by (cases "(V, ev_arm ev)" rule: arm_down.cases)
    (auto simp: session_step_def event_down_def Let_def split: prod.splits sum.splits if_splits bool.splits loop_status.splits)

lemma session_run_down_keeps:
  assumes "session_run S cfg st evs = (Running, st')" "\<forall>ev \<in> set evs. event_down V ev"
  shows "ss_backend_w st' = ss_backend_w st \<and> (ss_client_in st = [] \<longrightarrow> ss_client_in st' = [])"
  using assms
proof (induction evs arbitrary: st)
  case (Cons ev evs)
  then obtain st1 where s: "session_step S cfg st ev = (Running, st1)" "session_run S cfg st1 evs = (Running, st')"
    by (auto split: prod.splits loop_status.splits)
  with Cons session_step_down_keeps [OF s(1)] show ?case by auto
qed simp

lemma user_turn:
  assumes "between_turns S (n + length ds) st rl" "turn_ok (max_frame_size (ss_channel st)) (max_frame_size (rl_channel rl)) (UserTurn ds evs)"
  obtains rl' wire st' where "run_relay S rl (map (\<lambda>d. UserRead (Ok d) 0) ds) = (Relaying, rl')"
    "w_sent (rl_bridge_w rl') = w_sent (rl_bridge_w rl) @ wire"
    "session_run S cfg (st\<lparr>ss_client_in := ss_client_in st @ wire\<rparr>) evs = (Running, st')" "between_turns S n st' rl'"
    "w_sent (ss_backend_w st') = w_sent (ss_backend_w st) @ concat ds" "rl_user_w rl' = rl_user_w rl"
    "max_frame_size (ss_channel st') = max_frame_size (ss_channel st)" "max_frame_size (rl_channel rl') = max_frame_size (rl_channel rl)"
proof -
  from assms(1) have dx: "duplex S (n + length (map SendData ds)) (rl_channel rl) (ss_channel st)"
    by (simp add: between_turns_def duplex_sym)
  then have lk: "chan_link S (n + length ds) (rl_channel rl) (ss_channel st)" by (simp add: duplex_def)
  have v: "\<forall>y \<in> set (map SendData ds). op_valid (ss_channel st) y" using assms(2) by auto
  from relay_user_reads [OF lk] assms obtain x ch' where
    x: "send_ops S (rl_channel rl) (map SendData ds) = Some (x, ch')"
    and run: "run_relay S rl (map (\<lambda>d. UserRead (Ok d) 0) ds) = (Relaying, rl\<lparr>rl_channel := ch',
       rl_bridge_w := (rl_bridge_w rl)\<lparr>w_sent := w_sent (rl_bridge_w rl) @ x\<rparr>\<rparr>)" by (auto simp: between_turns_def)
  obtain r' where r': "duplex S n ch' r'" "op_valid r' = op_valid (ss_channel st)"
    "recv_ops S (length (map SendData ds)) (ss_channel st) x = Some (map op_image (map SendData ds), r', [])"
    using dx v x by (rule send_ops_duplex)
  from session_recv_ops [of S ds "st\<lparr>ss_client_in := x\<rparr>" r' "[]" evs cfg] r'(3) assms
  have s: "session_run S cfg (st\<lparr>ss_client_in := ss_client_in st @ x\<rparr>) evs = (Running, st\<lparr>ss_channel := r', ss_client_in := [],
     ss_backend_w := (ss_backend_w st)\<lparr>w_sent := w_sent (ss_backend_w st) @ concat ds\<rparr>\<rparr>)"
    by (simp add: between_turns_def comp_def)
  from r'(3) have "max_frame_size r' = max_frame_size (ss_channel st)" by (rule recv_ops_max_frame_size)
  with that [OF run _ s] r' assms(1) send_ops_max_frame_size [OF x] show ?thesis
    by (simp add: between_turns_def client_open_def duplex_sym)
qed

lemma backend_turn:
  assumes "between_turns S (n + 2 * length evs) st rl" "turn_ok (max_frame_size (ss_channel st)) (max_frame_size (rl_channel rl)) (BackendTurn evs)"
  obtains st' wire k rl' where "session_run S cfg st evs = (Running, st')" "w_sent (ss_client_w st') = w_sent (ss_client_w st) @ wire"
    "run_relay S (rl\<lparr>rl_bridge_in := rl_bridge_in rl @ wire\<rparr>) (replicate k BridgeFrame) = (Relaying, rl')" "between_turns S n st' rl'"
    "w_sent (rl_user_w rl') = w_sent (rl_user_w rl) @ concat (map (\<lambda>ev. ev_payload (ev_arm ev)) evs)"
    "ss_backend_w st' = ss_backend_w st"
    "max_frame_size (ss_channel st') = max_frame_size (ss_channel st)" "max_frame_size (rl_channel rl') = max_frame_size (rl_channel rl)"
proof -
  from assms(1) have dx: "duplex S (n + 2 * length evs) (ss_channel st) (rl_channel rl)" by (simp add: between_turns_def)
  then have lk: "chan_link S (n + 2 * length evs) (ss_channel st) (rl_channel rl)" by (simp add: duplex_def)
  have "op_valid (channel_new [] (max_frame_size (rl_channel rl))) = op_valid (rl_channel rl)"
    by (rule op_valid_eq) (simp add: channel_new_def)
  with assms(2) have v: "\<forall>ev \<in> set evs. event_down (op_valid (rl_channel rl)) ev" by simp
  from assms(1) have o: "client_open st" by (simp add: between_turns_def)
  from run_down [OF lk v o] obtain st' ops x where
    st': "session_run S cfg st evs = (Running, st')" and x: "sends S st ops x st'" and l: "length ops \<le> 2 * length evs"
    and p: "concat (map op_payload ops) = concat (map (\<lambda>ev. ev_payload (ev_arm ev)) evs)"
    and ov: "\<forall>y \<in> set ops. op_valid (rl_channel rl) y" by blast
  from duplex_mono [OF dx, of "n + length ops"] l
  have dx': "duplex S (n + length ops) (ss_channel st) (rl_channel rl)" by simp
  from x have so: "send_ops S (ss_channel st) ops = Some (x, ss_channel st')" by (simp add: sends_def)
  obtain r' where r': "duplex S n (ss_channel st') r'" "recv_ops S (length ops) (rl_channel rl) x = Some (map op_image ops, r', [])"
    using dx' ov so by (rule send_ops_duplex)
  from relay_recv_ops [of S "length ops" "rl\<lparr>rl_bridge_in := x\<rparr>"] r'(2) assms(1)
  have run: "run_relay S (rl\<lparr>rl_bridge_in := rl_bridge_in rl @ x\<rparr>) (replicate (length ops) BridgeFrame) =
     (Relaying, rl\<lparr>rl_channel := r', rl_bridge_in := [],
        rl_user_w := (rl_user_w rl)\<lparr>w_sent := w_sent (rl_user_w rl) @ concat (map op_payload ops)\<rparr>\<rparr>)"
    by (simp add: between_turns_def comp_def)
  from session_run_down_keeps [OF st' v] assms(1) have keep: "ss_client_in st' = []" "ss_backend_w st' = ss_backend_w st"
    by (simp_all add: between_turns_def)
  from that [OF st' _ run] x r' p keep assms(1) sends_open [OF x] send_ops_max_frame_size [OF so] recv_ops_max_frame_size [OF r'(2)]
  show ?thesis by (simp add: between_turns_def sends_def)
qed

lemma turns_delivered:
  assumes "between_turns S (sum_list (map turn_frames ts)) st rl" "\<forall>t \<in> set ts. turn_ok (max_frame_size (ss_channel st)) (max_frame_size (rl_channel rl)) t"
  shows "\<exists>st' rl'. conversation S cfg st rl ts st' rl' \<and>
     w_sent (ss_backend_w st') = w_sent (ss_backend_w st) @ concat (map turn_up ts) \<and>
     w_sent (rl_user_w rl') = w_sent (rl_user_w rl) @ concat (map turn_down ts) \<and> between_turns S 0 st' rl'"
  using assms
proof (induction ts arbitrary: st rl)
  case Nil
  then show ?case by (auto intro: conversation.over)
next
  case (Cons t ts)
  let ?n = "sum_list (map turn_frames ts)"
  from Cons.prems(2) have ok: "turn_ok (max_frame_size (ss_channel st)) (max_frame_size (rl_channel rl)) t" by simp
  show ?case
  proof (cases t)
    case (UserTurn ds evs)
    with Cons.prems(1) ok have b: "between_turns S (?n + length ds) st rl"
      "turn_ok (max_frame_size (ss_channel st)) (max_frame_size (rl_channel rl)) (UserTurn ds evs)" by (simp_all add: add.commute)
    obtain rl1 wire st1 where u: "run_relay S rl (map (\<lambda>d. UserRead (Ok d) 0) ds) = (Relaying, rl1)"
      "w_sent (rl_bridge_w rl1) = w_sent (rl_bridge_w rl) @ wire"
      "session_run S cfg (st\<lparr>ss_client_in := ss_client_in st @ wire\<rparr>) evs = (Running, st1)" "between_turns S ?n st1 rl1"
      "w_sent (ss_backend_w st1) = w_sent (ss_backend_w st) @ concat ds" "rl_user_w rl1 = rl_user_w rl"
      "max_frame_size (ss_channel st1) = max_frame_size (ss_channel st)" "max_frame_size (rl_channel rl1) = max_frame_size (rl_channel rl)"
      using b by (rule user_turn)
    from Cons.IH [OF u(4)] Cons.prems(2) u(7,8) obtain st2 rl2 where "conversation S cfg st1 rl1 ts st2 rl2"
      "w_sent (ss_backend_w st2) = w_sent (ss_backend_w st1) @ concat (map turn_up ts)"
      "w_sent (rl_user_w rl2) = w_sent (rl_user_w rl1) @ concat (map turn_down ts)" "between_turns S 0 st2 rl2" by auto
    with conversation.user [OF u(1-3)] u UserTurn show ?thesis by (intro exI [of _ st2] exI [of _ rl2]) simp
  next
    case (BackendTurn evs)
    with Cons.prems(1) ok have b: "between_turns S (?n + 2 * length evs) st rl"
      "turn_ok (max_frame_size (ss_channel st)) (max_frame_size (rl_channel rl)) (BackendTurn evs)" by (simp_all add: add.commute)
    obtain st1 wire k rl1 where u: "session_run S cfg st evs = (Running, st1)"
      "w_sent (ss_client_w st1) = w_sent (ss_client_w st) @ wire"
      "run_relay S (rl\<lparr>rl_bridge_in := rl_bridge_in rl @ wire\<rparr>) (replicate k BridgeFrame) = (Relaying, rl1)" "between_turns S ?n st1 rl1"
      "w_sent (rl_user_w rl1) = w_sent (rl_user_w rl) @ concat (map (\<lambda>ev. ev_payload (ev_arm ev)) evs)" "ss_backend_w st1 = ss_backend_w st"
      "max_frame_size (ss_channel st1) = max_frame_size (ss_channel st)" "max_frame_size (rl_channel rl1) = max_frame_size (rl_channel rl)"
      using b by (rule backend_turn)
    from Cons.IH [OF u(4)] Cons.prems(2) u(7,8) obtain st2 rl2 where "conversation S cfg st1 rl1 ts st2 rl2"
      "w_sent (ss_backend_w st2) = w_sent (ss_backend_w st1) @ concat (map turn_up ts)"
      "w_sent (rl_user_w rl2) = w_sent (rl_user_w rl1) @ concat (map turn_down ts)" "between_turns S 0 st2 rl2" by auto
    with conversation.backend [OF u(1-3)] u BackendTurn show ?thesis by (intro exI [of _ st2] exI [of _ rl2]) simp
  qed
qed

section \<open>From the handshake to the relay\<close>

text \<open>The states in which \<open>handle_with_handshake_timeout\<close> of the bridge and \<open>handle\<close> of the client enter their
  loops.\<close>

definition opened_session :: "valid_config \<Rightarrow> session_key \<Rightarrow> bytes \<Rightarrow> writer \<Rightarrow> writer \<Rightarrow> bridge_metrics \<Rightarrow> session" where
  "opened_session cfg key client_in client_w backend_w m = \<lparr>ss_channel = channel_new (key_as_bytes key) (vc_max_frame_size cfg),
     ss_client_in = client_in, ss_client_w = client_w, ss_backend_w = backend_w, ss_bytes_this_epoch = 0, ss_metrics = m\<rparr>"

definition opened_relay :: "channel \<Rightarrow> bytes \<Rightarrow> writer \<Rightarrow> writer \<Rightarrow> relay" where
  "opened_relay ch bridge_in bridge_w user_w = \<lparr>rl_channel = ch, rl_bridge_in = bridge_in, rl_bridge_w = bridge_w,
     rl_bridge_closed = False, rl_user_w = user_w, rl_user_eof = False\<rparr>"

lemma handle_opens_session:
  assumes "handshake_phase S G K ctx client_in client_w r = (Ok key, rest, w, r')"
    and "session_run S cfg (opened_session cfg key rest w backend_w (enter_session (count_handshake (count_connection m)))) evs = (Running, st)"
  shows "handle_with_handshake_timeout S G K ctx cfg False (Ok backend_w) evs client_in client_w m r = (Running, ss_metrics st)"
  using assms by (simp add: handle_with_handshake_timeout_def opened_session_def)

lemma handle_opens_relay:
  assumes "do_handshake S G K vk ident cfg bridge_in bridge_w r = (Ok ch, rest, w, r')"
    and "run_relay S (opened_relay ch rest w user_w) evs = (Relaying, rl)"
  shows "fst (fst (client_handle S G K cfg vk ident tx [\<lparr>at_acquired = Ok (bridge_in, bridge_w), at_events = evs, at_random = x\<rparr>] user_w r)) = InRelay"
  using assms by (simp add: client_handle_def handle_attempt_def opened_relay_def)

lemma handshake_writers:
  "handshake_phase S G K ctx cin open_writer r = (res, rest, w, r') \<Longrightarrow> w_budget w = None \<and> w_flush_ok w"
  "do_handshake S G K vk ident cfg bin open_writer q = (cres, brest, bw, q') \<Longrightarrow> w_budget bw = None \<and> w_flush_ok bw"
  by (auto simp: handshake_phase_def do_handshake_def write_flush_open write_all_unbounded Let_def
      split: prod.splits sum.splits option.splits)

text \<open>The two halves of the handshake agree on the key.\<close>

lemma handshakes_agree:
  assumes "sig_laws G" "kex_laws K" "kem_total K" "hkdf_laws S" "paired G K ctx vk ident"
    and "handshake_phase S G K ctx cin open_writer r = (res, rest, w, r')" "\<nexists>e. res = Err (SeHello e)"
    and "do_handshake S G K vk ident cfg (w_sent w) open_writer q = (cres, bin, bw, q')"
    and "\<nexists>e. cres = Err (HsTransport (ResponseSigning e))"
  obtains key where "cres = Ok (channel_new (key_as_bytes key) (vcc_max_frame_size cfg))" "bin = []"
    "\<forall>extra. handshake_phase S G K ctx (w_sent bw @ extra) open_writer r = (Ok key, extra, w, r')" "length (key_as_bytes key) = 32"
proof -
  let ?cvk = "the (ctx_client_auth ctx)"
  from assms(6,7) obtain hs r1 where hs: "server_handshake_new K r = (hs, r1)"
    "server_hello_signed_bytes G K hs (signing_key (ctx_identity ctx)) r1 = (Ok (w_sent w), r')"
    and auth: "\<And>b extra. length b = CLIENT_RESPONSE_SIGNED_LEN \<Longrightarrow> ctx_client_auth ctx = Some ?cvk \<Longrightarrow>
       handshake_phase S G K ctx (b @ extra) open_writer r =
         (map_err SeClientAuth (complete_from_wire_signed S G K hs b ?cvk), extra, w, r')"
    and plain: "\<And>b extra. length b = CLIENT_RESPONSE_LEN \<Longrightarrow> ctx_client_auth ctx = None \<Longrightarrow>
       handshake_phase S G K ctx (b @ extra) open_writer r =
         (map_err SeHandshake (complete_from_wire S K hs b), extra, w, r')"
    by (rule handshake_phase_hello [where cvk = ?cvk]) blast
  note wf = server_handshake_new_wf [OF assms(2) hs(1)]
  from client_hello_answer [OF assms(1-5) hs assms(8,9)] obtain resp key q1 where
    c: "client_respond S K (server_client_hello K hs) q = (Ok (resp, key), q1)"
    and rb: "response_bytes G K ident resp (server_hello_raw hs) q1 = (Ok (w_sent bw), q')"
    and key: "length (key_as_bytes key) = 32" "cres = Ok (channel_new (key_as_bytes key) (vcc_max_frame_size cfg))" "bin = []" .
  have "handshake_phase S G K ctx (w_sent bw @ extra) open_writer r = (Ok key, extra, w, r')" for extra
  proof (cases ident)
    case None
    with assms(5) have "ctx_client_auth ctx = None" by (auto simp: paired_def split: option.splits)
    moreover from None rb have "w_sent bw = serialize_client_response resp" by (simp add: response_bytes_def)
    ultimately show ?thesis using plain complete_agrees [OF assms(2) wf c] by simp
  next
    case (Some i)
    with assms(5) obtain b b' where a: "ctx_client_auth ctx = Some ?cvk"
      and kp: "generate_keypair G K b = ((signing_key i, ?cvk), b')" by (auto simp: paired_def split: option.splits)
    from Some rb have "serialize_client_response_signed G K resp (signing_key i) (server_hello_raw hs) q1 = (Ok (w_sent bw), q')"
      by (auto simp: response_bytes_def split: prod.splits sum.splits)
    from signed_response_accepted [OF assms(1,2) kp wf c this] auth a show ?thesis by simp
  qed
  with that key show ?thesis by blast
qed

end
