(* ===== verification/Client_Run.thy ===== *)
theory Client_Run
  imports Client_Session_Props
begin

text \<open>
  The running client proxy: the accept loop of \<open>run\<close> in \<open>latticeshield-client/src/server.rs\<close>, its user
  sessions (\<open>handle\<close> in \<open>client_session.rs\<close>) and the warming task of the pool (\<open>warm_loop\<close> in \<open>pool.rs\<close>)
  in every interleaving, over the one pool they share.

  Every connection to the bridge has a number, in the order in which the connections were opened. A user
  session waits for a connection or uses one; an attempt of its reconnect loop is \<open>handle_attempt\<close>, taken
  when it is over, because it touches nothing that is shared. \<open>run\<close> gives no event channel to its
  sessions.
\<close>

section \<open>State\<close>

datatype client_task =
    Waiting client_session \<comment> \<open>at the head of the reconnect loop\<close>
  | Attempting nat client_session \<comment> \<open>with a connection to the bridge\<close>

record running_client =
  rc_pool :: "nat pool"
  rc_warmer_exited :: bool
  rc_tasks :: "nat \<Rightarrow> client_task option"
  rc_spawned :: nat
  rc_opened :: nat \<comment> \<open>number of connections opened so far\<close>
  rc_accepting :: bool
  rc_now :: nat

definition running_client_start :: running_client where
  "running_client_start = \<lparr>rc_pool = pool_new, rc_warmer_exited = False, rc_tasks = \<lambda>_. None, rc_spawned = 0, rc_opened = 0,
     rc_accepting = True, rc_now = 0\<rparr>"

definition session_start :: "writer \<Rightarrow> client_session" where
  "session_start user_w = \<lparr>hs_attempt = 0, hs_user_eof = False, hs_user_w = user_w, hs_user_closed = False, hs_events = [],
     hs_delays = [], hs_bridges = []\<rparr>"

datatype 'r client_event =
    UserIncoming "io_error + writer"
  | WarmTick \<comment> \<open>the timer branch of \<open>warm_loop\<close>\<close>
  | WarmOpened "nat option list" nat \<comment> \<open>when each connect task succeeded, and the time of the fill\<close>
  | WarmerStops \<comment> \<open>the shutdown branch of \<open>warm_loop\<close>\<close>
  | AcquireConn nat "nat list" "io_error + unit" u32 'r \<comment> \<open>session, clock readings, outcome of \<open>connect\<close>\<close>
  | AttemptOver nat bytes writer "relay_event list" u32 'r
  | StopSignal

section \<open>Steps\<close>

text \<open>The accept branch; an error of \<open>accept\<close> leaves \<open>run\<close>.\<close>

definition accept_user :: "io_error + writer \<Rightarrow> running_client \<Rightarrow> running_client option" where
  "accept_user res s = (if rc_accepting s
     then Some (case res of
         Err _ \<Rightarrow> s\<lparr>rc_accepting := False\<rparr>
       | Ok user_w \<Rightarrow> s\<lparr>rc_tasks := (rc_tasks s)(rc_spawned s \<mapsto> Waiting (session_start user_w)),
           rc_spawned := Suc (rc_spawned s)\<rparr>)
     else None)"

text \<open>The two halves of a turn of \<open>warm_loop\<close>; the connect tasks run in between.\<close>

definition warm_tick :: "valid_client_config \<Rightarrow> running_client \<Rightarrow> running_client option" where
  "warm_tick cfg s = (if \<not> rc_warmer_exited s \<and> warming (rc_pool s) = 0
     then Some (s\<lparr>rc_pool := warm_count (vcc_pool cfg) (rc_pool s)\<rparr>) else None)"

fun opened :: "nat \<Rightarrow> nat option list \<Rightarrow> nat idle_conn list" where
  "opened n [] = []"
| "opened n (None # outs) = opened n outs"
| "opened n (Some t # outs) = \<lparr>ic_stream = n, ic_created_at = t\<rparr> # opened (Suc n) outs"

definition warm_opened :: "valid_client_config \<Rightarrow> nat option list \<Rightarrow> nat \<Rightarrow> running_client \<Rightarrow> running_client option" where
  "warm_opened cfg outs t s =
    (let new_conns = opened (rc_opened s) outs
     in if 0 < warming (rc_pool s) \<and> length outs = warming (rc_pool s) \<and>
          sorted (rc_now s # map ic_created_at new_conns @ [t])
        then Some (s\<lparr>rc_pool := warm_fill (vcc_pool cfg) new_conns (rc_pool s),
          rc_opened := rc_opened s + length new_conns, rc_now := t\<rparr>)
        else None)"

definition warmer_stops :: "running_client \<Rightarrow> running_client option" where
  "warmer_stops s = (if shutdown_flag (rc_pool s) \<and> warming (rc_pool s) = 0
     then Some (s\<lparr>rc_warmer_exited := True\<rparr>) else None)"

text \<open>After an attempt the session goes round its loop or its task ends.\<close>

definition resume :: "nat \<Rightarrow> handle_status \<times> client_session \<Rightarrow> running_client \<Rightarrow> running_client" where
  "resume i res s = (case res of
      (BetweenAttempts, st) \<Rightarrow> s\<lparr>rc_tasks := (rc_tasks s)(i \<mapsto> Waiting st)\<rparr>
    | _ \<Rightarrow> s\<lparr>rc_tasks := (rc_tasks s)(i := None)\<rparr>)"

text \<open>\<open>pool.acquire\<close> at the head of the loop. The readings of the clock are a list that does not decrease;
  the last one stands for all later ones. The second component is what was handed out: session and
  connection.\<close>

definition clock_of :: "nat list \<Rightarrow> nat \<Rightarrow> nat" where
  "clock_of ts k = ts ! min k (length ts - 1)"

definition acquire_conn ::
  "sym_prims \<Rightarrow> sig_prims \<Rightarrow> ('r, 'x, 'dk, 'ek) kex_prims \<Rightarrow> valid_client_config \<Rightarrow> verifying_key \<Rightarrow> identity option \<Rightarrow>
   nat \<Rightarrow> nat list \<Rightarrow> io_error + unit \<Rightarrow> u32 \<Rightarrow> 'r \<Rightarrow> running_client \<Rightarrow> (running_client \<times> (nat \<times> nat) list) option" where
  "acquire_conn S G K cfg vk ident i ts connect random r s = (case rc_tasks s i of
      Some (Waiting st) \<Rightarrow>
        if ts \<noteq> [] \<and> sorted (rc_now s # ts)
        then Some (case acquire (vcc_pool cfg) (clock_of ts) (case connect of Err e \<Rightarrow> Err e | Ok _ \<Rightarrow> Ok (rc_opened s)) (rc_pool s) of
            (Ok c, p) \<Rightarrow> (s\<lparr>rc_pool := p, rc_now := last ts, rc_tasks := (rc_tasks s)(i \<mapsto> Attempting c st),
               rc_opened := (if c = rc_opened s then Suc c else rc_opened s)\<rparr>, [(i, c)])
          | (Err e, p) \<Rightarrow> (resume i (fst (handle_attempt S G K cfg vk ident False
               \<lparr>at_acquired = Err e, at_events = [], at_random = random\<rparr> st r)) (s\<lparr>rc_pool := p, rc_now := last ts\<rparr>), []))
        else None
    | _ \<Rightarrow> None)"

text \<open>The rest of the attempt, over the bytes the bridge delivers on the connection and the writer to it.\<close>

definition attempt_over ::
  "sym_prims \<Rightarrow> sig_prims \<Rightarrow> ('r, 'x, 'dk, 'ek) kex_prims \<Rightarrow> valid_client_config \<Rightarrow> verifying_key \<Rightarrow> identity option \<Rightarrow>
   nat \<Rightarrow> bytes \<Rightarrow> writer \<Rightarrow> relay_event list \<Rightarrow> u32 \<Rightarrow> 'r \<Rightarrow> running_client \<Rightarrow> running_client option" where
  "attempt_over S G K cfg vk ident i bridge_in bridge_w evs random r s = (case rc_tasks s i of
      Some (Attempting c st) \<Rightarrow> (case fst (handle_attempt S G K cfg vk ident False
          \<lparr>at_acquired = Ok (bridge_in, bridge_w), at_events = evs, at_random = random\<rparr> st r) of
          (InRelay, _) \<Rightarrow> None
        | res \<Rightarrow> Some (resume i res s))
    | _ \<Rightarrow> None)"

definition stop_signal :: "running_client \<Rightarrow> running_client option" where
  "stop_signal s = (if rc_accepting s then Some (s\<lparr>rc_accepting := False, rc_pool := pool_shutdown (rc_pool s)\<rparr>) else None)"

fun client_step ::
  "sym_prims \<Rightarrow> sig_prims \<Rightarrow> ('r, 'x, 'dk, 'ek) kex_prims \<Rightarrow> valid_client_config \<Rightarrow> verifying_key \<Rightarrow> identity option \<Rightarrow>
   running_client \<Rightarrow> 'r client_event \<Rightarrow> (running_client \<times> (nat \<times> nat) list) option" where
  "client_step S G K cfg vk ident s (UserIncoming res) = map_option (\<lambda>s'. (s', [])) (accept_user res s)"
| "client_step S G K cfg vk ident s WarmTick = map_option (\<lambda>s'. (s', [])) (warm_tick cfg s)"
| "client_step S G K cfg vk ident s (WarmOpened outs t) = map_option (\<lambda>s'. (s', [])) (warm_opened cfg outs t s)"
| "client_step S G K cfg vk ident s WarmerStops = map_option (\<lambda>s'. (s', [])) (warmer_stops s)"
| "client_step S G K cfg vk ident s (AcquireConn i ts connect random r) = acquire_conn S G K cfg vk ident i ts connect random r s"
| "client_step S G K cfg vk ident s (AttemptOver i bridge_in bridge_w evs random r) =
     map_option (\<lambda>s'. (s', [])) (attempt_over S G K cfg vk ident i bridge_in bridge_w evs random r s)"
| "client_step S G K cfg vk ident s StopSignal = map_option (\<lambda>s'. (s', [])) (stop_signal s)"

text \<open>The reachable states, each with the log of what the pool handed out.\<close>

inductive client_run ::
  "sym_prims \<Rightarrow> sig_prims \<Rightarrow> ('r, 'x, 'dk, 'ek) kex_prims \<Rightarrow> valid_client_config \<Rightarrow> verifying_key \<Rightarrow> identity option \<Rightarrow>
   running_client \<Rightarrow> (nat \<times> nat) list \<Rightarrow> bool" for S G K cfg vk ident where
  launched: "client_run S G K cfg vk ident running_client_start []"
| moved: "client_run S G K cfg vk ident s log \<Longrightarrow> client_step S G K cfg vk ident s ev = Some (s', out) \<Longrightarrow>
    client_run S G K cfg vk ident s' (log @ out)"

section \<open>The pool of a running client\<close>

lemma opened_streams: "map ic_stream (opened n outs) = [n..<n + length (opened n outs)]"
  by (induction n outs rule: opened.induct) (simp_all add: upt_rec)

lemma opened_length: "length (opened n outs) \<le> length outs"
  by (induction n outs rule: opened.induct) simp_all

lemma clock_of_mono: "sorted ts \<Longrightarrow> ts \<noteq> [] \<Longrightarrow> mono (clock_of ts)"
  by (auto simp: mono_def clock_of_def min_less_iff_disj intro!: sorted_nth_mono)

lemma clock_of_bounds:
  assumes "sorted (t # ts)" "ts \<noteq> []"
  shows "t \<le> clock_of ts 0" "clock_of ts k \<le> last ts"
proof -
  from assms show "t \<le> clock_of ts 0" by (simp add: clock_of_def)
  show "clock_of ts k \<le> last ts"
    unfolding clock_of_def last_conv_nth [OF assms(2)] using assms by (intro sorted_nth_mono) auto
qed

lemma resume_simps [simp]:
  "rc_pool (resume i res s) = rc_pool s" "rc_now (resume i res s) = rc_now s" "rc_opened (resume i res s) = rc_opened s"
  "rc_spawned (resume i res s) = rc_spawned s" "rc_accepting (resume i res s) = rc_accepting s"
  by (simp_all add: resume_def split: prod.splits handle_status.splits)

text \<open>What a step can do to the pool.\<close>

lemma acquire_conn_cases:
  assumes "acquire_conn S G K cfg vk ident i ts connect random r s = Some (s', out)"
  obtains (given) st c p where "rc_tasks s i = Some (Waiting st)" "ts \<noteq> []" "sorted (rc_now s # ts)"
      "acquire (vcc_pool cfg) (clock_of ts) (case connect of Err e \<Rightarrow> Err e | Ok _ \<Rightarrow> Ok (rc_opened s)) (rc_pool s) = (Ok c, p)"
      "s' = s\<lparr>rc_pool := p, rc_now := last ts, rc_tasks := (rc_tasks s)(i \<mapsto> Attempting c st),
         rc_opened := (if c = rc_opened s then Suc c else rc_opened s)\<rparr>" "out = [(i, c)]"
  | (failed) st e p where "rc_tasks s i = Some (Waiting st)" "ts \<noteq> []" "sorted (rc_now s # ts)"
      "acquire (vcc_pool cfg) (clock_of ts) (case connect of Err e \<Rightarrow> Err e | Ok _ \<Rightarrow> Ok (rc_opened s)) (rc_pool s) = (Err e, p)"
      "s' = resume i (fst (handle_attempt S G K cfg vk ident False \<lparr>at_acquired = Err e, at_events = [], at_random = random\<rparr> st r))
         (s\<lparr>rc_pool := p, rc_now := last ts\<rparr>)" "out = []"
  using assms
  by (auto simp: acquire_conn_def split: option.splits client_task.splits if_splits prod.splits sum.splits)

lemma acquired_pool:
  assumes "pool_reach cfg (rc_now s) (rc_pool s)" "ts \<noteq> []" "sorted (rc_now s # ts)" "acquire cfg (clock_of ts) c (rc_pool s) = (res, p)"
  shows "pool_reach cfg (last ts) p"
  using assms(1) clock_of_mono clock_of_bounds(1) [OF assms(3,2)] clock_of_bounds(2) [OF assms(3,2)] assms(4)
  by (rule pool_reach.acquired) (use assms(2,3) clock_of_mono in auto)

lemma client_pool_step:
  assumes "client_step S G K cfg vk ident s ev = Some (s', out)" "pool_reach (vcc_pool cfg) (rc_now s) (rc_pool s)"
  shows "pool_reach (vcc_pool cfg) (rc_now s') (rc_pool s')"
proof (cases ev)
  case (WarmOpened outs t)
  let ?n = "opened (rc_opened s) outs"
  from WarmOpened assms(1) have l: "length ?n \<le> warming (rc_pool s)" and srt: "sorted (rc_now s # map ic_created_at ?n @ [t])"
    and s': "s' = s\<lparr>rc_pool := warm_fill (vcc_pool cfg) ?n (rc_pool s), rc_opened := rc_opened s + length ?n, rc_now := t\<rparr>"
    using opened_length [of "rc_opened s" outs] by (auto simp: warm_opened_def Let_def split: if_splits)
  have "pool_reach (vcc_pool cfg) t (warm_fill (vcc_pool cfg) ?n (rc_pool s))"
    by (rule pool_reach.filled [OF assms(2) l]) (use srt in \<open>auto simp: sorted_append\<close>)
  then show ?thesis by (simp add: s')
next
  case (AcquireConn i ts connect random r)
  with assms(1) have "acquire_conn S G K cfg vk ident i ts connect random r s = Some (s', out)" by simp
  then show ?thesis
    by (cases rule: acquire_conn_cases) (use acquired_pool [OF assms(2)] in auto)
qed (use assms in \<open>auto simp: accept_user_def warm_tick_def warmer_stops_def attempt_over_def stop_signal_def
      intro: pool_reach.counted pool_reach.stopped split: if_splits sum.splits option.splits client_task.splits prod.splits handle_status.splits\<close>)

lemma client_pool: "client_run S G K cfg vk ident s log \<Longrightarrow> pool_reach (vcc_pool cfg) (rc_now s) (rc_pool s)"
  by (induction rule: client_run.induct) (auto simp: running_client_start_def intro: pool_reach.new client_pool_step)

text \<open>The warming task never has the pool grow beyond \<open>warm_size\<close>.\<close>

lemma acquire_shrinks:
  assumes "acquire cfg clk c p = (res, p')"
  shows "length (idle p') \<le> length (idle p)" "warming p' = warming p" "shutdown_flag p' = shutdown_flag p"
  using assms by (cases rule: acquire_cases, auto simp: acquire_def split: list.splits)

lemma warm_fill_length: "length (idle (warm_fill cfg cs p)) \<le> length (idle p) + length cs"
  by (simp add: warm_fill_def push_conns_take)

definition pool_share :: "pool_config \<Rightarrow> nat pool \<Rightarrow> bool" where
  "pool_share cfg p \<longleftrightarrow> length (idle p) + warming p \<le> pool_warm_size cfg"

lemma pool_share_acquire: "acquire cfg clk c p = (res, p') \<Longrightarrow> pool_share cfg p \<Longrightarrow> pool_share cfg p'"
  using acquire_shrinks [of cfg clk c p res p'] by (simp add: pool_share_def)

lemma pool_share_step:
  assumes "client_step S G K cfg vk ident s ev = Some (s', out)" "pool_share (vcc_pool cfg) (rc_pool s)"
  shows "pool_share (vcc_pool cfg) (rc_pool s')"
proof (cases ev)
  case (WarmOpened outs t)
  with assms show ?thesis
    using warm_fill_length [of "vcc_pool cfg" "opened (rc_opened s) outs" "rc_pool s"] opened_length [of "rc_opened s" outs]
    by (auto simp: warm_opened_def Let_def pool_share_def warm_fill_def split: if_splits)
next
  case (AcquireConn i ts connect random r)
  with assms(1) have "acquire_conn S G K cfg vk ident i ts connect random r s = Some (s', out)" by simp
  then show ?thesis
    by (cases rule: acquire_conn_cases) (use assms(2) in \<open>auto intro: pool_share_acquire\<close>)
qed (use assms in \<open>auto simp: accept_user_def warm_tick_def warmer_stops_def attempt_over_def stop_signal_def pool_share_def
      warm_count_def warm_target_def pool_shutdown_def split: if_splits sum.splits option.splits client_task.splits prod.splits handle_status.splits\<close>)

lemma client_pool_share: "client_run S G K cfg vk ident s log \<Longrightarrow> pool_share (vcc_pool cfg) (rc_pool s)"
proof (induction rule: client_run.induct)
  case launched
  show ?case by (simp add: running_client_start_def pool_new_def pool_share_def)
qed (rule pool_share_step)

section \<open>Connections\<close>

text \<open>The connections in the pool and those handed out so far are pairwise different, and all of them were
  opened.\<close>

definition numbered :: "nat \<Rightarrow> nat list \<Rightarrow> bool" where
  "numbered n xs \<longleftrightarrow> distinct xs \<and> (\<forall>x \<in> set xs. x < n)"

lemma numbered_suffix: "numbered n (a @ b) \<Longrightarrow> numbered n b"
  by (simp add: numbered_def)

lemma numbered_new: "numbered n b \<Longrightarrow> numbered (Suc n) (b @ [n])"
  by (auto simp: numbered_def)

lemma numbered_move: "numbered n (a @ c # d @ b) \<Longrightarrow> numbered n (d @ b @ [c])"
  by (auto simp: numbered_def)

lemma numbered_more:
  assumes "numbered n (a @ b)"
  shows "numbered (n + l) (a @ take k [n..<n + l] @ b)"
proof -
  have old: "\<And>x. x \<in> set a \<union> set b \<Longrightarrow> x < n" using assms by (auto simp: numbered_def)
  have new: "\<And>x. x \<in> set (take k [n..<n + l]) \<Longrightarrow> n \<le> x \<and> x < n + l"
    using set_take_subset [of k "[n..<n + l]"] by auto
  have "set (take k [n..<n + l]) \<inter> (set a \<union> set b) = {}" using old new by (meson disjoint_iff not_le)
  moreover have "\<forall>x \<in> set (a @ take k [n..<n + l] @ b). x < n + l" using old new by (auto intro: trans_less_add1)
  ultimately show ?thesis using assms by (auto simp: numbered_def)
qed

definition streams_ok :: "running_client \<Rightarrow> (nat \<times> nat) list \<Rightarrow> bool" where
  "streams_ok s log \<longleftrightarrow> numbered (rc_opened s) (map ic_stream (idle (rc_pool s)) @ map snd log)"

lemma streams_ok_fewer:
  "streams_ok s log \<Longrightarrow> idle (rc_pool s') = idle (rc_pool s) \<or> idle (rc_pool s') = [] \<Longrightarrow> rc_opened s' = rc_opened s \<Longrightarrow>
   streams_ok s' log"
  by (auto simp: streams_ok_def dest: numbered_suffix)

lemma streams_ok_filled:
  assumes "streams_ok s log" "idle (rc_pool s') = idle (rc_pool s) @ take k (opened (rc_opened s) outs)"
    and "rc_opened s' = rc_opened s + length (opened (rc_opened s) outs)"
  shows "streams_ok s' log"
  using numbered_more [OF assms(1) [unfolded streams_ok_def], of "length (opened (rc_opened s) outs)" k]
  by (simp add: streams_ok_def assms(2,3) take_map [symmetric] opened_streams)

lemma streams_ok_acquired:
  assumes "streams_ok s log" and "acquire cfg clk (case connect of Err e \<Rightarrow> Err e | Ok _ \<Rightarrow> Ok (rc_opened s)) (rc_pool s) = (Ok c, p)"
    and "rc_pool s' = p" "rc_opened s' = (if c = rc_opened s then Suc c else rc_opened s)"
  shows "streams_ok s' (log @ [(i, c)])"
  using assms(2)
proof (cases rule: acquire_cases)
  case (fresh k)
  let ?xs = "map ic_stream (idle (rc_pool s))"
  have "?xs = take k ?xs @ c # map ic_stream (idle p)"
    using fresh(1-3) id_take_nth_drop [of k ?xs] by (simp add: drop_map)
  with assms(1) have n: "numbered (rc_opened s) (take k ?xs @ c # map ic_stream (idle p) @ map snd log)"
    unfolding streams_ok_def by (metis append_Cons append_assoc)
  then have "c < rc_opened s" by (simp add: numbered_def)
  with numbered_move [OF n] assms(3,4) show ?thesis by (simp add: streams_ok_def)
next
  case connected
  then have "c = rc_opened s" by (auto split: sum.splits)
  with connected(2) numbered_new [OF numbered_suffix [OF assms(1) [unfolded streams_ok_def]]] assms(3,4)
  show ?thesis by (simp add: streams_ok_def)
qed

lemma streams_ok_step:
  assumes "client_step S G K cfg vk ident s ev = Some (s', out)" "streams_ok s log"
  shows "streams_ok s' (log @ out)"
proof (cases ev)
  case (WarmOpened outs t)
  with assms(1) show ?thesis
    using streams_ok_filled [OF assms(2), of s' "pool_max_size (vcc_pool cfg) - length (idle (rc_pool s))" outs]
    by (auto simp: warm_opened_def Let_def warm_fill_def push_conns_take split: if_splits)
next
  case (AcquireConn i ts connect random r)
  with assms(1) have "acquire_conn S G K cfg vk ident i ts connect random r s = Some (s', out)" by simp
  then show ?thesis
  proof (cases rule: acquire_conn_cases)
    case (given st c p)
    with streams_ok_acquired [OF assms(2) given(4)] show ?thesis by simp
  next
    case (failed st e p)
    from failed(4) have "idle p = []" by (cases rule: acquire_cases) auto
    with streams_ok_fewer [OF assms(2), of s'] failed show ?thesis by simp
  qed
qed (use assms in \<open>auto simp: accept_user_def warm_tick_def warm_count_def warmer_stops_def attempt_over_def stop_signal_def pool_shutdown_def
      elim!: streams_ok_fewer split: if_splits sum.splits option.splits client_task.splits prod.splits handle_status.splits\<close>)

section \<open>Sessions\<close>

text \<open>How many connections a session may have had, from its place in the reconnect loop.\<close>

fun task_ok :: "u32 \<Rightarrow> nat \<Rightarrow> client_task option \<Rightarrow> bool" where
  "task_ok mx n None \<longleftrightarrow> n \<le> unat mx + 1"
| "task_ok mx n (Some (Waiting st)) \<longleftrightarrow> n \<le> unat (hs_attempt st) \<and> hs_attempt st \<le> mx"
| "task_ok mx n (Some (Attempting c st)) \<longleftrightarrow> n \<le> unat (hs_attempt st) + 1 \<and> hs_attempt st \<le> mx"

lemma resume_task_ok:
  assumes "n \<le> unat (hs_attempt st) + 1" "hs_attempt st \<le> rc_max_retries (vcc_reconnect cfg)"
    and "res = fst (handle_attempt S G K cfg vk ident tx env st r)"
  shows "task_ok (rc_max_retries (vcc_reconnect cfg)) n (rc_tasks (resume i res s) i)"
proof -
  obtain status st' r' where h: "handle_attempt S G K cfg vk ident tx env st r = ((status, st'), r')" by (metis prod.exhaust)
  then show ?thesis
  proof (cases rule: handle_attempt_counts)
    case stop
    then have "rc_tasks (resume i res s) i = None" using assms(3) h by (cases status) (simp_all add: resume_def)
    with assms(1,2) show ?thesis by (simp add: word_le_nat_alt)
  next
    case again
    from again(2) have "unat (hs_attempt st + 1) = unat (hs_attempt st) + 1" by (rule unat_u32_succ)
    with again assms h show ?thesis by (simp add: resume_def word_le_nat_alt word_less_nat_alt)
  qed
qed

definition tasks_ok :: "valid_client_config \<Rightarrow> running_client \<Rightarrow> (nat \<times> nat) list \<Rightarrow> bool" where
  "tasks_ok cfg s log \<longleftrightarrow> (\<forall>i. task_ok (rc_max_retries (vcc_reconnect cfg)) (count_list (map fst log) i) (rc_tasks s i) \<and>
     (rc_spawned s \<le> i \<longrightarrow> rc_tasks s i = None \<and> count_list (map fst log) i = 0)) \<and>
     (\<forall>i c st. rc_tasks s i = Some (Attempting c st) \<longrightarrow> (i, c) \<in> set log)"

lemma tasks_okD:
  assumes "tasks_ok cfg s log"
  shows "task_ok (rc_max_retries (vcc_reconnect cfg)) (count_list (map fst log) i) (rc_tasks s i)"
    and "rc_spawned s \<le> i \<Longrightarrow> rc_tasks s i = None" "rc_spawned s \<le> i \<Longrightarrow> count_list (map fst log) i = 0"
    and "rc_tasks s i = Some (Attempting c st) \<Longrightarrow> (i, c) \<in> set log"
  using assms by (auto simp: tasks_ok_def)

lemma tasks_ok_same: "tasks_ok cfg s log \<Longrightarrow> rc_tasks s' = rc_tasks s \<Longrightarrow> rc_spawned s' = rc_spawned s \<Longrightarrow> tasks_ok cfg s' log"
  by (simp add: tasks_ok_def)

lemma tasks_ok_resumed:
  assumes "tasks_ok cfg s log" "rc_tasks s i = Some t" "rc_tasks s0 = rc_tasks s" "rc_spawned s0 = rc_spawned s"
    and "t = Waiting st \<or> t = Attempting c st" "res = fst (handle_attempt S G K cfg vk ident tx env st r)"
  shows "tasks_ok cfg (resume i res s0) log"
proof -
  let ?n = "count_list (map fst log)" and ?s' = "resume i res s0"
  have spawned: "\<not> rc_spawned s \<le> i" using tasks_okD(2) [OF assms(1), of i] assms(2) by auto
  have "?n i \<le> unat (hs_attempt st) + 1" "hs_attempt st \<le> rc_max_retries (vcc_reconnect cfg)"
    using tasks_okD(1) [OF assms(1), of i] assms(2,5) by auto
  with assms(6) have "task_ok (rc_max_retries (vcc_reconnect cfg)) (?n i) (rc_tasks ?s' i)" by (intro resume_task_ok)
  moreover have "rc_tasks ?s' j = rc_tasks s j" if "j \<noteq> i" for j
    using that assms(3) by (simp add: resume_def split: prod.splits handle_status.splits)
  moreover have "rc_tasks ?s' i \<noteq> Some (Attempting d st')" for d st'
    by (simp add: resume_def split: prod.splits handle_status.splits)
  ultimately show ?thesis using assms(1,4) spawned unfolding tasks_ok_def by (metis resume_simps(4))
qed

lemma tasks_ok_given:
  assumes "tasks_ok cfg s log" "rc_tasks s i = Some (Waiting st)"
    and "rc_tasks s' = (rc_tasks s)(i \<mapsto> Attempting c st)" "rc_spawned s' = rc_spawned s"
  shows "tasks_ok cfg s' (log @ [(i, c)])"
proof -
  have "task_ok (rc_max_retries (vcc_reconnect cfg)) (count_list (map fst log) i) (Some (Waiting st))" "\<not> rc_spawned s \<le> i"
    using tasks_okD(1,2) [OF assms(1), of i] assms(2) by auto
  with assms show ?thesis by (auto simp: tasks_ok_def not_le)
qed

lemma tasks_ok_step:
  assumes "client_step S G K cfg vk ident s ev = Some (s', out)" "tasks_ok cfg s log"
  shows "tasks_ok cfg s' (log @ out)"
proof (cases ev)
  case (UserIncoming res)
  have "rc_tasks s (rc_spawned s) = None" "count_list (map fst log) (rc_spawned s) = 0"
    using tasks_okD(2,3) [OF assms(2), of "rc_spawned s"] by simp_all
  with UserIncoming assms show ?thesis
    by (auto simp: accept_user_def tasks_ok_def session_start_def split: if_splits sum.splits)
next
  case (AcquireConn i ts connect random r)
  with assms(1) have "acquire_conn S G K cfg vk ident i ts connect random r s = Some (s', out)" by simp
  then show ?thesis
  proof (cases rule: acquire_conn_cases)
    case (given st c p)
    with tasks_ok_given [OF assms(2) given(1)] show ?thesis by simp
  next
    case (failed st e p)
    show ?thesis unfolding failed(5,6) append_Nil2
      by (rule tasks_ok_resumed [OF assms(2) failed(1) _ _ disjI1 [OF refl] refl]) simp_all
  qed
next
  case (AttemptOver i bin bw evs random r)
  with assms(1) obtain c st where t: "rc_tasks s i = Some (Attempting c st)" and out: "out = []"
    and s': "s' = resume i (fst (handle_attempt S G K cfg vk ident False \<lparr>at_acquired = Ok (bin, bw), at_events = evs, at_random = random\<rparr> st r)) s"
    by (auto simp: attempt_over_def split: option.splits client_task.splits prod.splits handle_status.splits)
  show ?thesis unfolding s' out append_Nil2 by (rule tasks_ok_resumed [OF assms(2) t refl refl disjI2 [OF refl] refl])
qed (use assms in \<open>auto simp: warm_tick_def warmer_stops_def stop_signal_def warm_opened_def Let_def
      elim!: tasks_ok_same split: if_splits\<close>)

lemma client_run_ok: "client_run S G K cfg vk ident s log \<Longrightarrow> streams_ok s log \<and> tasks_ok cfg s log"
proof (induction rule: client_run.induct)
  case launched
  show ?case by (simp add: running_client_start_def pool_new_def streams_ok_def numbered_def tasks_ok_def)
qed (auto intro: streams_ok_step tasks_ok_step)

section \<open>Properties\<close>

text \<open>C34. Connections to the bridge are used once: in every interleaving of users, sessions, the warming task and
  shutdown, no connection is ever handed to two attempts; two sessions never use the same connection, and
  no connection in use is still in the pool; the pool together with the connections being opened never
  exceeds \<open>warm_size\<close>; and one user connection takes at most \<open>max_retries + 1\<close> connections to the bridge.\<close>

theorem connections_used_once:
  assumes "client_run S G K cfg vk ident s log"
  shows "distinct (map snd log) \<and>
     (\<forall>i j c st st'. rc_tasks s i = Some (Attempting c st) \<longrightarrow> c \<notin> ic_stream ` set (idle (rc_pool s)) \<and>
        (rc_tasks s j = Some (Attempting c st') \<longrightarrow> i = j)) \<and>
     length (idle (rc_pool s)) + warming (rc_pool s) \<le> pool_warm_size (vcc_pool cfg) \<and>
     (\<forall>i. count_list (map fst log) i \<le> unat (rc_max_retries (vcc_reconnect cfg)) + 1)"
proof (intro conjI allI impI)
  from client_run_ok [OF assms] have n: "streams_ok s log" and t: "tasks_ok cfg s log" by blast+
  from n have d: "distinct (map snd log)" "ic_stream ` set (idle (rc_pool s)) \<inter> snd ` set log = {}"
    by (simp_all add: streams_ok_def numbered_def)
  show "distinct (map snd log)" by (rule d(1))
  show "length (idle (rc_pool s)) + warming (rc_pool s) \<le> pool_warm_size (vcc_pool cfg)"
    using client_pool_share [OF assms] by (simp add: pool_share_def)
  show "count_list (map fst log) i \<le> unat (rc_max_retries (vcc_reconnect cfg)) + 1" for i
    using tasks_okD(1) [OF t, of i]
    by (cases "(rc_max_retries (vcc_reconnect cfg), count_list (map fst log) i, rc_tasks s i)" rule: task_ok.cases)
      (auto simp: word_le_nat_alt)
  fix i j c st st'
  assume i: "rc_tasks s i = Some (Attempting c st)"
  from tasks_okD(4) [OF t i] have "(i, c) \<in> set log" .
  with d(2) show "c \<notin> ic_stream ` set (idle (rc_pool s))" by force
  assume "rc_tasks s j = Some (Attempting c st')"
  from tasks_okD(4) [OF t this] \<open>(i, c) \<in> set log\<close> d(1) show "i = j"
    using inj_onD [of snd "set log" "(i, c)" "(j, c)"] by (simp add: distinct_map)
qed

text \<open>A run in which a user arrives while the pool is warmed and its session is given the first connection.\<close>

definition demo_client_events :: "nat client_event list" where
  "demo_client_events = [WarmTick, UserIncoming (Ok open_writer), WarmOpened [Some 1, Some 2] 3, AcquireConn 0 [4] (Err ConnectionRefused) 0 0]"

fun client_steps ::
  "sym_prims \<Rightarrow> sig_prims \<Rightarrow> ('r, 'x, 'dk, 'ek) kex_prims \<Rightarrow> valid_client_config \<Rightarrow> verifying_key \<Rightarrow> identity option \<Rightarrow>
   'r client_event list \<Rightarrow> running_client \<times> (nat \<times> nat) list \<Rightarrow> (running_client \<times> (nat \<times> nat) list) option" where
  "client_steps S G K cfg vk ident [] (s, log) = Some (s, log)"
| "client_steps S G K cfg vk ident (ev # evs) (s, log) = (case client_step S G K cfg vk ident s ev of
      None \<Rightarrow> None | Some (s', out) \<Rightarrow> client_steps S G K cfg vk ident evs (s', log @ out))"

lemma client_steps_run:
  "client_run S G K cfg vk ident s log \<Longrightarrow> client_steps S G K cfg vk ident evs (s, log) = Some (s', log') \<Longrightarrow>
   client_run S G K cfg vk ident s' log'"
  by (induction evs arbitrary: s log) (auto split: option.splits intro: client_run.moved)

lemmas client_step_defs = accept_user_def warm_tick_def warm_opened_def warmer_stops_def acquire_conn_def attempt_over_def stop_signal_def

theorem connections_used_once_witness:
  "\<exists>s. client_run toy_sym toy_sig toy_kex demo_client_config (VerifyingKey []) None s [(0, 0)] \<and>
     map ic_stream (idle (rc_pool s)) = [1] \<and> count_list (map fst [(0 :: nat, 0 :: nat)]) 0 \<le> 3"
proof -
  obtain s where s: "client_steps toy_sym toy_sig toy_kex demo_client_config (VerifyingKey []) None demo_client_events
      (running_client_start, []) = Some (s, [(0, 0)])" "map ic_stream (idle (rc_pool s)) = [1]"
    by (simp add: demo_client_events_def client_step_defs running_client_start_def pool_new_def warm_count_def warm_target_def
        warm_fill_def push_conns_take acquire_def idle_timeout_def clock_of_def demo_client_config_def default_pool_config_def)
  from client_steps_run [OF client_run.launched s(1)]
  have r: "client_run toy_sym toy_sig toy_kex demo_client_config (VerifyingKey []) None s [(0, 0)]" .
  from connections_used_once [OF r] r s(2) show ?thesis by auto
qed

text \<open>Shutdown can leave connections behind: for every configuration that warms the pool there is a run in which
  the proxy has stopped accepting, the pool was drained, the warming task has ended, and \<open>warm_size\<close> open
  connections are in the pool, which the drain did not shut down.\<close>

theorem shutdown_leaves_connections:
  assumes "0 < pool_warm_size (vcc_pool cfg)" "pool_warm_size (vcc_pool cfg) \<le> pool_max_size (vcc_pool cfg)"
  shows "\<exists>s. client_run S G K cfg vk ident s [] \<and> \<not> rc_accepting s \<and> shutdown_flag (rc_pool s) \<and> rc_warmer_exited s \<and>
     length (idle (rc_pool s)) = pool_warm_size (vcc_pool cfg)"
proof -
  let ?w = "pool_warm_size (vcc_pool cfg)"
  have o: "length (opened n (replicate k (Some t))) = k" "map ic_created_at (opened n (replicate k (Some t))) = replicate k t"
    "\<forall>x\<in>set (opened n (replicate k (Some t))). ic_created_at x = t" for n k t
    by (induction k arbitrary: n) simp_all
  have "\<exists>s. client_steps S G K cfg vk ident [WarmTick, StopSignal, WarmOpened (replicate ?w (Some 0)) 0, WarmerStops]
      (running_client_start, []) = Some (s, []) \<and> \<not> rc_accepting s \<and> shutdown_flag (rc_pool s) \<and> rc_warmer_exited s \<and>
      length (idle (rc_pool s)) = ?w"
    using assms by (simp add: client_step_defs running_client_start_def pool_new_def warm_count_def warm_target_def
        pool_shutdown_def warm_fill_def push_conns_take o sorted_append Let_def)
  then show ?thesis using client_steps_run [OF client_run.launched] by blast
qed

theorem shutdown_leaves_connections_witness:
  "\<exists>s. client_run toy_sym toy_sig toy_kex demo_client_config (VerifyingKey []) None s [] \<and> rc_warmer_exited s \<and>
     length (idle (rc_pool s)) = 2"
proof -
  have "0 < pool_warm_size (vcc_pool demo_client_config)"
    "pool_warm_size (vcc_pool demo_client_config) \<le> pool_max_size (vcc_pool demo_client_config)"
    by (simp_all add: demo_client_config_def default_pool_config_def)
  from shutdown_leaves_connections [OF this, of toy_sym toy_sig toy_kex "VerifyingKey []" None] obtain s where
    "client_run toy_sym toy_sig toy_kex demo_client_config (VerifyingKey []) None s []" "rc_warmer_exited s"
    "length (idle (rc_pool s)) = pool_warm_size (vcc_pool demo_client_config)" by blast
  moreover have "pool_warm_size (vcc_pool demo_client_config) = 2" by (simp add: demo_client_config_def default_pool_config_def)
  ultimately show ?thesis by auto
qed

end
