(* ===== verification/Secrets.thy ===== *)
theory Secrets
  imports Handshake
begin

text \<open>
  Signing keys in memory: \<open>SigningKey::new\<close> and its \<open>Drop\<close> in \<open>latticeshield-crypto/src/signing.rs\<close>, the
  \<open>Drop\<close> of the browser's key and of \<open>ClientIdentity\<close>, and the debug output of keys and signatures.

  A key lives in a box on the heap, which is a map from addresses to bytes. The allocator chooses the
  address; the system calls \<open>mlock\<close> and \<open>munlock\<close> are the record \<open>pager\<close>, with what their manual page says
  of them as \<open>pager_laws\<close>: they work on whole pages, locks do not stack, and a failed call changes nothing.
  Construction and destruction are modelled one effect at a time, so that the order of wiping and
  unlocking, and what another key does in between, can be seen.
\<close>

section \<open>Memory and pages\<close>

type_synonym memory = "nat \<Rightarrow> byte"

definition mem_write :: "nat \<Rightarrow> bytes \<Rightarrow> memory \<Rightarrow> memory" where
  "mem_write a bs mem = (\<lambda>x. if a \<le> x \<and> x < a + length bs then bs ! (x - a) else mem x)"

definition mem_read :: "nat \<Rightarrow> nat \<Rightarrow> memory \<Rightarrow> bytes" where
  "mem_read a n mem = map mem [a..<a + n]"

definition pages :: "nat \<Rightarrow> nat \<Rightarrow> nat \<Rightarrow> nat set" where
  "pages page_size a n = {a div page_size..(a + n - 1) div page_size}"

record 'm pager =
  mlock :: "nat \<Rightarrow> nat \<Rightarrow> 'm \<Rightarrow> bool \<times> 'm" \<comment> \<open>whether the call succeeded\<close>
  munlock :: "nat \<Rightarrow> nat \<Rightarrow> 'm \<Rightarrow> bool \<times> 'm"
  page_locked :: "'m \<Rightarrow> nat \<Rightarrow> bool"

definition pager_laws :: "nat \<Rightarrow> 'm pager \<Rightarrow> bool" where
  "pager_laws page_size P \<longleftrightarrow> (\<forall>a n m p. 0 < n \<longrightarrow>
     page_locked P (snd (mlock P a n m)) p = (page_locked P m p \<or> (fst (mlock P a n m) \<and> p \<in> pages page_size a n)) \<and>
     page_locked P (snd (munlock P a n m)) p = (page_locked P m p \<and> \<not> (fst (munlock P a n m) \<and> p \<in> pages page_size a n)))"

section \<open>The life of a key\<close>

datatype key_phase =
    Boxed \<comment> \<open>on the heap, \<open>mlock\<close> not called yet\<close>
  | Held bool \<comment> \<open>in use, with the outcome of \<open>mlock\<close>\<close>
  | Wiped bool \<comment> \<open>in \<open>drop\<close>, \<open>munlock\<close> not called yet\<close>

record 'm key_heap =
  kh_mem :: memory
  kh_locks :: 'm
  kh_keys :: "nat \<Rightarrow> (key_phase \<times> signing_key) option" \<comment> \<open>the boxes by address, with the value they were given\<close>

text \<open>The two effects of \<open>SigningKey::new\<close>.\<close>

definition box_new :: "nat \<Rightarrow> signing_key \<Rightarrow> 'm key_heap \<Rightarrow> 'm key_heap" where
  "box_new a key h = h\<lparr>kh_mem := mem_write a (sk_to_bytes key) (kh_mem h), kh_keys := (kh_keys h)(a \<mapsto> (Boxed, key))\<rparr>"

definition lock_key :: "'m pager \<Rightarrow> nat \<Rightarrow> 'm key_heap \<Rightarrow> 'm key_heap" where
  "lock_key P a h = (case kh_keys h a of
      Some (Boxed, key) \<Rightarrow> (let (ok, m) = mlock P a SIGNING_KEY_LEN (kh_locks h)
        in h\<lparr>kh_locks := m, kh_keys := (kh_keys h)(a \<mapsto> (Held ok, key))\<rparr>)
    | _ \<Rightarrow> h)"

definition signing_key_new :: "'m pager \<Rightarrow> nat \<Rightarrow> signing_key \<Rightarrow> 'm key_heap \<Rightarrow> 'm key_heap" where
  "signing_key_new P a key h = lock_key P a (box_new a key h)"

text \<open>The two effects of \<open>drop\<close>, after the second of which the box is freed.\<close>

definition zeroize_key :: "nat \<Rightarrow> 'm key_heap \<Rightarrow> 'm key_heap" where
  "zeroize_key a h = (case kh_keys h a of
      Some (Held ok, key) \<Rightarrow> h\<lparr>kh_mem := mem_write a (replicate SIGNING_KEY_LEN 0) (kh_mem h),
        kh_keys := (kh_keys h)(a \<mapsto> (Wiped ok, key))\<rparr>
    | _ \<Rightarrow> h)"

definition unlock_key :: "'m pager \<Rightarrow> nat \<Rightarrow> 'm key_heap \<Rightarrow> 'm key_heap" where
  "unlock_key P a h = (case kh_keys h a of
      Some (Wiped _, _) \<Rightarrow> h\<lparr>kh_locks := snd (munlock P a SIGNING_KEY_LEN (kh_locks h)), kh_keys := (kh_keys h)(a := None)\<rparr>
    | _ \<Rightarrow> h)"

definition signing_key_drop :: "'m pager \<Rightarrow> nat \<Rightarrow> 'm key_heap \<Rightarrow> 'm key_heap" where
  "signing_key_drop P a h = unlock_key P a (zeroize_key a h)"

definition key_to_bytes :: "nat \<Rightarrow> 'm key_heap \<Rightarrow> bytes" where
  "key_to_bytes a h = mem_read a SIGNING_KEY_LEN (kh_mem h)"

text \<open>The browser's key is wiped and freed. \<open>ClientIdentity\<close> wipes its key before the fields are dropped.\<close>

definition wasm_signing_key_drop :: "nat \<Rightarrow> 'm key_heap \<Rightarrow> 'm key_heap" where
  "wasm_signing_key_drop a h = (let h' = zeroize_key a h in h'\<lparr>kh_keys := (kh_keys h')(a := None)\<rparr>)"

definition client_identity_drop :: "'m pager \<Rightarrow> nat \<Rightarrow> 'm key_heap \<Rightarrow> 'm key_heap" where
  "client_identity_drop P a h =
    signing_key_drop P a (h\<lparr>kh_mem := mem_write a (replicate SIGNING_KEY_LEN 0) (kh_mem h)\<rparr>)"

text \<open>Heaps reachable by making, using and dropping keys, one effect at a time and in any order. What the
  allocator guarantees of the address of a new box and that of each box in use is a parameter; the rest of
  the program writes to memory outside of the boxes.\<close>

definition bytes_apart :: "nat \<Rightarrow> nat \<Rightarrow> bool" where
  "bytes_apart a b \<longleftrightarrow> a + SIGNING_KEY_LEN \<le> b \<or> b + SIGNING_KEY_LEN \<le> a"

definition pages_apart :: "nat \<Rightarrow> nat \<Rightarrow> nat \<Rightarrow> bool" where
  "pages_apart page_size a b \<longleftrightarrow> bytes_apart a b \<and> pages page_size a SIGNING_KEY_LEN \<inter> pages page_size b SIGNING_KEY_LEN = {}"

definition box_range :: "'m key_heap \<Rightarrow> nat set" where
  "box_range h = (\<Union>a\<in>dom (kh_keys h). {a..<a + SIGNING_KEY_LEN})"

inductive key_run :: "'m pager \<Rightarrow> (nat \<Rightarrow> nat \<Rightarrow> bool) \<Rightarrow> 'm key_heap \<Rightarrow> bool" for P apart where
  launched: "kh_keys h = (\<lambda>_. None) \<Longrightarrow> key_run P apart h"
| boxed: "key_run P apart h \<Longrightarrow> \<forall>b\<in>dom (kh_keys h). apart a b \<Longrightarrow> length (sk_to_bytes key) = SIGNING_KEY_LEN \<Longrightarrow>
    key_run P apart (box_new a key h)"
| locked: "key_run P apart h \<Longrightarrow> key_run P apart (lock_key P a h)"
| wiped: "key_run P apart h \<Longrightarrow> key_run P apart (zeroize_key a h)"
| freed: "key_run P apart h \<Longrightarrow> key_run P apart (unlock_key P a h)"
| others: "key_run P apart h \<Longrightarrow> \<forall>x\<in>box_range h. mem x = kh_mem h x \<Longrightarrow> key_run P apart (h\<lparr>kh_mem := mem\<rparr>)"

section \<open>Debug output\<close>

definition signing_key_debug :: "signing_key \<Rightarrow> string" where
  "signing_key_debug key = ''SigningKey([REDACTED])''"

definition session_key_debug :: "session_key \<Rightarrow> string" where
  "session_key_debug key = ''SessionKey([REDACTED])''"

definition verifying_key_debug :: "verifying_key \<Rightarrow> string" where
  "verifying_key_debug vk = ''VerifyingKey('' @ hex_encode (take 4 (vk_to_bytes vk)) @ ''...)''"

definition signature_debug :: "signature \<Rightarrow> string" where
  "signature_debug sg = ''Signature('' @ hex_encode (take 4 (sig_to_bytes sg)) @ ''...)''"

section \<open>Invariant\<close>

lemma SIGNING_KEY_LEN_pos: "0 < SIGNING_KEY_LEN"
  by (simp add: SIGNING_KEY_LEN_def)

lemma pager_lawsD:
  assumes "pager_laws page_size P" "0 < n"
  shows "page_locked P (snd (mlock P a n m)) p = (page_locked P m p \<or> (fst (mlock P a n m) \<and> p \<in> pages page_size a n))"
    "page_locked P (snd (munlock P a n m)) p = (page_locked P m p \<and> \<not> (fst (munlock P a n m) \<and> p \<in> pages page_size a n))"
  using assms unfolding pager_laws_def by blast+

lemma mem_read_write_same: "length bs = n \<Longrightarrow> mem_read a n (mem_write a bs mem) = bs"
  by (auto simp: mem_read_def mem_write_def intro!: nth_equalityI)

lemma mem_read_cong: "(\<And>x. a \<le> x \<Longrightarrow> x < a + n \<Longrightarrow> mem x = mem' x) \<Longrightarrow> mem_read a n mem = mem_read a n mem'"
  by (simp add: mem_read_def)

lemma mem_read_write_apart:
  "length bs = SIGNING_KEY_LEN \<Longrightarrow> bytes_apart a b \<Longrightarrow>
   mem_read b SIGNING_KEY_LEN (mem_write a bs mem) = mem_read b SIGNING_KEY_LEN mem"
  by (rule mem_read_cong) (auto simp: bytes_apart_def mem_write_def)

lemma bytes_apart_sym: "bytes_apart a b \<Longrightarrow> bytes_apart b a"
  by (auto simp: bytes_apart_def)

lemma pages_apart_sym: "pages_apart page_size a b \<Longrightarrow> pages_apart page_size b a"
  by (auto simp: pages_apart_def bytes_apart_sym)

text \<open>What a box holds in each phase, and that boxes do not overlap.\<close>

definition contents_ok :: "'m key_heap \<Rightarrow> bool" where
  "contents_ok h \<longleftrightarrow>
     (\<forall>a ph key. kh_keys h a = Some (ph, key) \<longrightarrow>
        key_to_bytes a h = (case ph of Wiped _ \<Rightarrow> replicate SIGNING_KEY_LEN 0 | _ \<Rightarrow> sk_to_bytes key)) \<and>
     (\<forall>a\<in>dom (kh_keys h). \<forall>b\<in>dom (kh_keys h). a \<noteq> b \<longrightarrow> bytes_apart a b)"

text \<open>The pages of a key whose \<open>mlock\<close> succeeded are locked.\<close>

fun lock_holds :: "key_phase \<Rightarrow> bool" where
  "lock_holds Boxed = False"
| "lock_holds (Held ok) = ok"
| "lock_holds (Wiped ok) = ok"

definition locks_ok :: "nat \<Rightarrow> 'm pager \<Rightarrow> 'm key_heap \<Rightarrow> bool" where
  "locks_ok page_size P h \<longleftrightarrow>
     (\<forall>a ph key. kh_keys h a = Some (ph, key) \<longrightarrow> lock_holds ph \<longrightarrow>
        (\<forall>p\<in>pages page_size a SIGNING_KEY_LEN. page_locked P (kh_locks h) p)) \<and>
     (\<forall>a\<in>dom (kh_keys h). \<forall>b\<in>dom (kh_keys h). a \<noteq> b \<longrightarrow> pages_apart page_size a b)"

lemma key_run_contents:
  assumes "key_run P apart h" "\<And>a b. apart a b \<Longrightarrow> bytes_apart a b"
  shows "contents_ok h"
  using assms(1)
proof induction
  case (boxed h a key)
  then show ?case
    by (auto simp: contents_ok_def box_new_def key_to_bytes_def mem_read_write_same mem_read_write_apart
        assms(2) bytes_apart_sym dom_def)
next
  case (locked h a)
  then show ?case
    by (auto simp: contents_ok_def lock_key_def key_to_bytes_def dom_def case_prod_unfold Let_def split: option.splits prod.splits key_phase.splits)
next
  case (wiped h a)
  then show ?case
    by (auto simp: contents_ok_def zeroize_key_def key_to_bytes_def mem_read_write_same mem_read_write_apart dom_def
        split: option.splits prod.splits key_phase.splits)
next
  case (freed h a)
  then show ?case
    by (auto simp: contents_ok_def unlock_key_def key_to_bytes_def dom_def split: option.splits prod.splits key_phase.splits)
next
  case (others h mem)
  have "mem_read a SIGNING_KEY_LEN mem = key_to_bytes a h" if "a \<in> dom (kh_keys h)" for a
    unfolding key_to_bytes_def
  proof (rule mem_read_cong)
    fix x assume "a \<le> x" "x < a + SIGNING_KEY_LEN"
    with that have "x \<in> box_range h" unfolding box_range_def by (intro UN_I [of a]) simp_all
    with others.hyps(2) show "mem x = kh_mem h x" by blast
  qed
  with others.IH show ?case by (auto simp: contents_ok_def key_to_bytes_def dom_def)
qed (auto simp: contents_ok_def)

lemma key_run_locks:
  assumes "key_run P (pages_apart page_size) h" "pager_laws page_size P"
  shows "locks_ok page_size P h"
  using assms(1)
proof induction
  case (boxed h a key)
  then show ?case by (auto simp: locks_ok_def box_new_def dom_def pages_apart_sym)
next
  case (locked h a)
  then show ?case
    by (auto simp: locks_ok_def lock_key_def dom_def pager_lawsD [OF assms(2) SIGNING_KEY_LEN_pos] case_prod_unfold Let_def
        split: option.splits prod.splits key_phase.splits)
next
  case (wiped h a)
  then show ?case
    by (fastforce simp: locks_ok_def zeroize_key_def dom_def split: option.splits prod.splits key_phase.splits)
next
  case (freed h a)
  then have other: "p \<notin> pages page_size a SIGNING_KEY_LEN"
    if "p \<in> pages page_size b SIGNING_KEY_LEN" "b \<noteq> a" "kh_keys h b = Some x" "kh_keys h a = Some y" for p b x y
    using that(1,2) domI [of "kh_keys h", OF that(3)] domI [of "kh_keys h", OF that(4)] unfolding locks_ok_def pages_apart_def by blast
  show ?case
  proof (cases "\<exists>ok key. kh_keys h a = Some (Wiped ok, key)")
    case True
    with freed.IH other show ?thesis
      by (auto simp: locks_ok_def unlock_key_def dom_def pager_lawsD [OF assms(2) SIGNING_KEY_LEN_pos] split: if_splits) blast
  next
    case False
    then have "unlock_key P a h = h" by (auto simp: unlock_key_def split: option.splits prod.splits key_phase.splits)
    with freed.IH show ?thesis by simp
  qed
qed (auto simp: locks_ok_def)

section \<open>Properties\<close>

lemma key_to_bytes_dropped:
  "kh_keys h a = Some (Held ok, key) \<Longrightarrow>
   key_to_bytes a (signing_key_drop P a h) = replicate SIGNING_KEY_LEN 0 \<and> kh_keys (signing_key_drop P a h) a = None"
  by (simp add: signing_key_drop_def zeroize_key_def unlock_key_def key_to_bytes_def mem_read_write_same)

text \<open>C35. A signing key is in locked memory for as long as its bytes are in its box: when no two boxes share a page,
  a key whose \<open>mlock\<close> succeeded is in locked pages until \<open>drop\<close> has wiped it, whatever other keys are made,
  used and dropped in between; until then the box holds the bytes of the key, and after \<open>drop\<close> it holds
  zeros.\<close>

theorem key_locked_until_wiped:
  assumes "pager_laws page_size P" "key_run P (pages_apart page_size) h" "kh_keys h a = Some (Held True, key)"
  shows "key_to_bytes a h = sk_to_bytes key \<and>
     (\<forall>p\<in>pages page_size a SIGNING_KEY_LEN. page_locked P (kh_locks h) p \<and> page_locked P (kh_locks (zeroize_key a h)) p) \<and>
     key_to_bytes a (zeroize_key a h) = replicate SIGNING_KEY_LEN 0 \<and>
     key_to_bytes a (signing_key_drop P a h) = replicate SIGNING_KEY_LEN 0 \<and> kh_keys (signing_key_drop P a h) a = None"
proof -
  have "contents_ok h" by (rule key_run_contents [OF assms(2)]) (simp add: pages_apart_def)
  with assms(3) have "key_to_bytes a h = sk_to_bytes key" by (force simp: contents_ok_def)
  moreover from key_run_locks [OF assms(2,1)] assms(3)
  have "\<forall>p\<in>pages page_size a SIGNING_KEY_LEN. page_locked P (kh_locks h) p" by (force simp: locks_ok_def)
  moreover have "kh_locks (zeroize_key a h) = kh_locks h"
    "key_to_bytes a (zeroize_key a h) = replicate SIGNING_KEY_LEN 0"
    using assms(3) by (simp_all add: zeroize_key_def key_to_bytes_def mem_read_write_same)
  ultimately show ?thesis using key_to_bytes_dropped [OF assms(3)] by simp
qed

text \<open>A pager whose locks are a set of pages and whose calls always succeed.\<close>

definition toy_pager :: "nat set pager" where
  "toy_pager = \<lparr>mlock = \<lambda>a n m. (True, m \<union> pages 4096 a n), munlock = \<lambda>a n m. (True, m - pages 4096 a n), page_locked = \<lambda>m p. p \<in> m\<rparr>"

lemma toy_pager_laws: "pager_laws 4096 toy_pager"
  by (auto simp: pager_laws_def toy_pager_def)

definition empty_heap :: "'m \<Rightarrow> 'm key_heap" where
  "empty_heap m = \<lparr>kh_mem = \<lambda>_. 0, kh_locks = m, kh_keys = \<lambda>_. None\<rparr>"

definition demo_signing_key :: signing_key where
  "demo_signing_key = SigningKey (replicate SIGNING_KEY_LEN 7)"

lemma key_run_new:
  "key_run P apart h \<Longrightarrow> \<forall>b\<in>dom (kh_keys h). apart a b \<Longrightarrow> length (sk_to_bytes key) = SIGNING_KEY_LEN \<Longrightarrow>
   key_run P apart (signing_key_new P a key h)"
  unfolding signing_key_new_def by (intro key_run.locked key_run.boxed)

lemma key_run_drop: "key_run P apart h \<Longrightarrow> key_run P apart (signing_key_drop P a h)"
  unfolding signing_key_drop_def by (intro key_run.freed key_run.wiped)

lemma signing_key_new_simps:
  "kh_keys (signing_key_new P a key h) = (kh_keys h)(a \<mapsto> (Held (fst (mlock P a SIGNING_KEY_LEN (kh_locks h))), key))"
  "kh_locks (signing_key_new P a key h) = snd (mlock P a SIGNING_KEY_LEN (kh_locks h))"
  by (simp_all add: signing_key_new_def lock_key_def box_new_def case_prod_unfold Let_def)

lemma signing_key_drop_simps:
  assumes "kh_keys h a = Some (Held ok, key)"
  shows "kh_keys (signing_key_drop P a h) = (kh_keys h)(a := None)"
    "kh_locks (signing_key_drop P a h) = snd (munlock P a SIGNING_KEY_LEN (kh_locks h))"
  using assms by (simp_all add: signing_key_drop_def zeroize_key_def unlock_key_def)

theorem key_locked_until_wiped_witness:
  "\<exists>h. key_run toy_pager (pages_apart 4096) h \<and> key_to_bytes 4096 h = sk_to_bytes demo_signing_key \<and> page_locked toy_pager (kh_locks h) 1 \<and>
     key_to_bytes 4096 (signing_key_drop toy_pager 4096 h) = replicate 4032 0"
proof -
  let ?h = "signing_key_new toy_pager 4096 demo_signing_key (empty_heap {})"
  have r: "key_run toy_pager (pages_apart 4096) ?h"
    by (rule key_run_new [OF key_run.launched]) (simp_all add: empty_heap_def demo_signing_key_def)
  have "kh_keys ?h 4096 = Some (Held True, demo_signing_key)"
    by (simp add: signing_key_new_simps toy_pager_def)
  from key_locked_until_wiped [OF toy_pager_laws r this] r show ?thesis
    by (intro exI [of _ ?h]) (simp add: pages_def SIGNING_KEY_LEN_def)
qed

text \<open>Locks do not stack: dropping a key unlocks the pages it shares with another one. On pages larger than a
  key, with an allocator that only keeps boxes from overlapping and although every \<open>mlock\<close> succeeded, a run ends
  with a key in use none of whose pages is locked.\<close>

theorem neighbour_unlocks_key:
  fixes P :: "'m pager" and h0 :: "'m key_heap"
  assumes "pager_laws page_size P" "SIGNING_KEY_LEN < page_size" "length (sk_to_bytes key) = SIGNING_KEY_LEN"
    and "kh_keys h0 = (\<lambda>_. None)" "\<And>a n m. fst (mlock P a n m)" "\<And>a n m. fst (munlock P a n m)"
  shows "\<exists>h a. key_run P bytes_apart h \<and> kh_keys h a = Some (Held True, key) \<and> key_to_bytes a h = sk_to_bytes key \<and>
     (\<forall>p\<in>pages page_size a SIGNING_KEY_LEN. \<not> page_locked P (kh_locks h) p)"
proof -
  let ?a = page_size and ?b = "page_size + SIGNING_KEY_LEN"
  let ?h1 = "signing_key_new P ?a key h0"
  let ?h2 = "signing_key_new P ?b key ?h1"
  let ?h = "signing_key_drop P ?b ?h2"
  have ne: "?a \<noteq> ?b" by (simp add: SIGNING_KEY_LEN_def)
  have "key_run P bytes_apart ?h1"
    by (rule key_run_new [OF key_run.launched]) (simp_all add: assms(3,4))
  then have "key_run P bytes_apart ?h2"
    by (rule key_run_new) (simp_all add: signing_key_new_simps assms(3,4) bytes_apart_def)
  then have r: "key_run P bytes_apart ?h" by (rule key_run_drop)
  have k2: "kh_keys ?h2 ?b = Some (Held True, key)" by (simp add: signing_key_new_simps assms(5))
  have ka: "kh_keys ?h ?a = Some (Held True, key)"
    using ne by (simp add: signing_key_drop_simps [OF k2] signing_key_new_simps assms(5))
  have "key_to_bytes ?a ?h = sk_to_bytes key"
    using key_run_contents [OF r] ka by (force simp: contents_ok_def)
  moreover have "pages page_size ?a SIGNING_KEY_LEN \<subseteq> pages page_size ?b SIGNING_KEY_LEN"
  proof -
    have d: "(page_size + k) div page_size = Suc (k div page_size)" for k using assms(2) by (simp add: div_add_self1)
    have "page_size + SIGNING_KEY_LEN - 1 = page_size + (SIGNING_KEY_LEN - 1)"
      "page_size + SIGNING_KEY_LEN + SIGNING_KEY_LEN - 1 = page_size + (SIGNING_KEY_LEN + SIGNING_KEY_LEN - 1)"
      using SIGNING_KEY_LEN_pos by simp_all
    with assms(2) show ?thesis by (simp only: pages_def d) (simp add: d)
  qed
  then have "\<forall>p\<in>pages page_size ?a SIGNING_KEY_LEN. \<not> page_locked P (kh_locks ?h) p"
    by (auto simp: signing_key_drop_simps [OF k2] pager_lawsD [OF assms(1) SIGNING_KEY_LEN_pos] assms(6))
  ultimately show ?thesis using r ka by blast
qed

theorem neighbour_unlocks_key_witness:
  "\<exists>h a. key_run toy_pager bytes_apart h \<and> kh_keys h a = Some (Held True, demo_signing_key) \<and>
     (\<forall>p\<in>pages 4096 a SIGNING_KEY_LEN. \<not> page_locked toy_pager (kh_locks h) p)"
proof -
  have "SIGNING_KEY_LEN < 4096" "length (sk_to_bytes demo_signing_key) = SIGNING_KEY_LEN"
    by (simp_all add: SIGNING_KEY_LEN_def demo_signing_key_def)
  from neighbour_unlocks_key [OF toy_pager_laws this, of "empty_heap {}"] show ?thesis by (auto simp: toy_pager_def empty_heap_def)
qed

text \<open>Wiping the key in the \<open>Drop\<close> of \<open>ClientIdentity\<close> first changes nothing, as the key wipes itself; the browser's
  key is wiped without a call to the pager.\<close>

lemma client_identity_drop_eq:
  "kh_keys h a = Some (Held ok, key) \<Longrightarrow> client_identity_drop P a h = signing_key_drop P a h"
  by (simp add: client_identity_drop_def signing_key_drop_def zeroize_key_def)
    (rule arg_cong [where f = "unlock_key P a"], simp add: mem_write_def fun_eq_iff)

lemma wasm_signing_key_drop_wipes:
  "kh_keys h a = Some (Held ok, key) \<Longrightarrow>
   key_to_bytes a (wasm_signing_key_drop a h) = replicate SIGNING_KEY_LEN 0 \<and> kh_locks (wasm_signing_key_drop a h) = kh_locks h"
  by (simp add: wasm_signing_key_drop_def zeroize_key_def key_to_bytes_def mem_read_write_same)

text \<open>The debug output of a public value tells its first four bytes and nothing else.\<close>

lemma hex_digit_inj: "m < 16 \<Longrightarrow> n < 16 \<Longrightarrow> hex_digit m = hex_digit n \<longleftrightarrow> m = n"
  by (auto simp: hex_digit_def split: if_splits dest!: arg_cong [where f = "of_char :: char \<Rightarrow> nat"])

lemma hex_encode_inj: "hex_encode a = hex_encode b \<longleftrightarrow> a = b"
proof (induction a arbitrary: b)
  case Nil
  then show ?case by (cases b) (simp_all add: hex_encode_def)
next
  case (Cons x a)
  have byte: "unat (x :: byte) div 16 = unat y div 16 \<and> unat x mod 16 = unat y mod 16 \<longleftrightarrow> x = y" for y
    by (metis div_mult_mod_eq word_unat_eq_iff)
  have lt: "unat (y :: byte) div 16 < 16" for y using unat_byte_less [of y] by (simp add: less_mult_imp_div_less)
  from Cons byte show ?case by (cases b) (auto simp: hex_encode_def hex_digit_inj lt)
qed

lemma debug_shows_four_bytes:
  "verifying_key_debug v = verifying_key_debug v' \<longleftrightarrow> take 4 (vk_to_bytes v) = take 4 (vk_to_bytes v')"
  "signature_debug s = signature_debug s' \<longleftrightarrow> take 4 (sig_to_bytes s) = take 4 (sig_to_bytes s')"
  by (simp_all add: verifying_key_debug_def signature_debug_def hex_encode_inj)

end
