(* ===== verification/Admin.thy ===== *)
theory Admin
  imports Channel_Props Handshake Identity Vk_Share Metrics
begin

text \<open>
  The bridge's admin channel, \<open>latticeshield-bridge/src/admin.rs\<close>: one connection is one mutually
  authenticated handshake, one command frame with a sequence number, one response. The handler is defined over any
  codec of commands and responses (\<open>admin_codec\<close>); \<open>serde_codec\<close> is the one the code has: the derived
  \<open>Deserialize\<close> of \<open>CommandFrame\<close> and \<open>Serialize\<close> of \<open>AdminResponse\<close> on JSON values, over the text
  reader and writer of \<open>serde_json\<close>, which are a parameter (\<open>json_text\<close>).

  The state that all connections share (\<open>AdminServices\<close>) is a record. The handler reads the command
  counter and raises it in two separate atomic operations; \<open>admin_admit\<close> and \<open>admin_execute\<close> are
  the two halves. \<open>handle_admin_connection\<close> runs a connection alone; \<open>admin_task_step\<close> and \<open>admin_sched\<close>
  run the tasks of several connections in the order of a schedule, one access to the shared state at a time.
\<close>

section \<open>Data\<close>

datatype admin_command = GetMetrics | RotateKeys | GetVkToken

record command_frame =
  frame_seq :: u64
  frame_cmd :: admin_command

datatype admin_response =
    Metrics (metrics_data: string)
  | Rotated (rotated_count: u64)
  | VkToken (vk_token: string) (vk_url: string)
  | Error (error_message: string)

record admin_codec =
  command_from_json :: "bytes \<Rightarrow> command_frame option"
  response_to_json :: "admin_response \<Rightarrow> bytes option"

text \<open>JSON values as \<open>serde_json\<close> presents them to the derived code: an object is the sequence of its entries,
  duplicates included; a number is \<open>JUInt\<close> when it is an integer of 64 bits without sign; \<open>JOther\<close> is any other number, a
  boolean or \<open>null\<close>, with its text.\<close>

datatype json = JUInt u64 | JStr string | JArr "json list" | JObj "(string \<times> json) list" | JOther string

definition json_field :: "string \<Rightarrow> (string \<times> json) list \<Rightarrow> json option" where
  "json_field k kvs = (case filter (\<lambda>kv. fst kv = k) kvs of [kv] \<Rightarrow> Some (snd kv) | _ \<Rightarrow> None)"

text \<open>The text of \<open>serde_json\<close>: \<open>to_vec\<close> on the values the programs write, \<open>from_slice\<close>.\<close>

record json_text =
  json_to_vec :: "json \<Rightarrow> bytes"
  json_from_slice :: "bytes \<Rightarrow> json option"

text \<open>\<open>from_slice\<close> reads back an object of strings and unsigned integers that \<open>to_vec\<close> has written.\<close>

fun json_plain :: "json \<Rightarrow> bool" where
  "json_plain (JUInt _) = True"
| "json_plain (JStr _) = True"
| "json_plain _ = False"

definition json_text_laws :: "json_text \<Rightarrow> bool" where
  "json_text_laws T \<longleftrightarrow> (\<forall>kvs. (\<forall>kv \<in> set kvs. json_plain (snd kv)) \<longrightarrow>
     json_from_slice T (json_to_vec T (JObj kvs)) = Some (JObj kvs))"

text \<open>\<open>Deserialize\<close> of \<open>AdminCommand\<close>: the tag \<open>cmd\<close>, by the variant's name or (the flattened entries are
  buffered) its index; of \<open>CommandFrame\<close>: an object with one \<open>seq\<close> and one \<open>cmd\<close>, other entries are ignored.\<close>

definition command_of_tag :: "json \<Rightarrow> admin_command option" where
  "command_of_tag v =
    (if v = JStr ''GetMetrics'' \<or> v = JUInt 0 then Some GetMetrics
     else if v = JStr ''Rotate'' \<or> v = JUInt 1 then Some RotateKeys
     else if v = JStr ''GetVkToken'' \<or> v = JUInt 2 then Some GetVkToken
     else None)"

fun command_of_json :: "json \<Rightarrow> command_frame option" where
  "command_of_json (JObj kvs) = (case json_field ''seq'' kvs of
      Some (JUInt n) \<Rightarrow> (case json_field ''cmd'' kvs of
          Some v \<Rightarrow> map_option (\<lambda>c. \<lparr>frame_seq = n, frame_cmd = c\<rparr>) (command_of_tag v) | None \<Rightarrow> None)
    | _ \<Rightarrow> None)"
| "command_of_json _ = None"

text \<open>\<open>Serialize\<close> of \<open>AdminResponse\<close>: the tag \<open>type\<close> first, then the variant's fields.\<close>

fun response_json :: "admin_response \<Rightarrow> json" where
  "response_json (Metrics data) = JObj [(''type'', JStr ''Metrics''), (''data'', JStr data)]"
| "response_json (Rotated count) = JObj [(''type'', JStr ''Rotated''), (''count'', JUInt count)]"
| "response_json (VkToken token url) = JObj [(''type'', JStr ''VkToken''), (''token'', JStr token), (''url'', JStr url)]"
| "response_json (Error message) = JObj [(''type'', JStr ''Error''), (''message'', JStr message)]"

definition serde_codec :: "json_text \<Rightarrow> admin_codec" where
  "serde_codec T = \<lparr>command_from_json = (\<lambda>b. Option.bind (json_from_slice T b) command_of_json),
     response_to_json = (\<lambda>resp. Some (json_to_vec T (response_json resp)))\<rparr>"

record admin_services =
  as_identity :: identity
  as_cp_vk :: verifying_key
  as_vk_store :: vk_share_store
  as_metrics :: metrics_state
  as_rotate :: u64 \<comment> \<open>the value of the rotation watch channel\<close>
  as_prometheus :: string \<comment> \<open>what \<open>PrometheusHandle::render\<close> returns\<close>
  as_tls_base_url :: string
  as_cmd_seq :: u64
  as_max_tokens :: nat

definition is_seq_valid :: "u64 \<Rightarrow> u64 \<Rightarrow> bool" where
  "is_seq_valid seq prev \<longleftrightarrow> prev < seq"

section \<open>Operations\<close>

text \<open>\<open>do_handshake\<close>: every failure of the transport is reported as an authentication failure.\<close>

definition admin_do_handshake ::
  "sym_prims \<Rightarrow> sig_prims \<Rightarrow> ('r, 'x, 'dk, 'ek) kex_prims \<Rightarrow> identity \<Rightarrow> verifying_key \<Rightarrow> bytes \<Rightarrow> writer \<Rightarrow> 'r \<Rightarrow>
   (handshake_error + session_key) \<times> bytes \<times> writer \<times> 'r" where
  "admin_do_handshake S G K ident cp_vk stream w r =
    (let (hs, r1) = server_handshake_new K r
     in case server_hello_signed_bytes G K hs (signing_key ident) r1 of
          (Err e, r2) \<Rightarrow> (Err e, stream, w, r2)
        | (Ok hello_bytes, r2) \<Rightarrow> (case write_all hello_bytes w of
            (Err _, w') \<Rightarrow> (Err AuthenticationFailed, stream, w', r2)
          | (Ok _, w') \<Rightarrow> (case read_exact CLIENT_RESPONSE_SIGNED_LEN stream of
              None \<Rightarrow> (Err AuthenticationFailed, [], w', r2)
            | Some (buf, rest) \<Rightarrow> (complete_from_wire_signed S G K hs buf cp_vk, rest, w', r2))))"

definition handle_get_metrics :: "admin_services \<Rightarrow> admin_response" where
  "handle_get_metrics svc = Metrics (as_prometheus svc)"

definition handle_rotate :: "admin_services \<Rightarrow> admin_response \<times> admin_services" where
  "handle_rotate svc = (Rotated (connections_active (as_metrics svc)), svc\<lparr>as_rotate := as_rotate svc + 1\<rparr>)"

definition handle_get_vk_token :: "sym_prims \<Rightarrow> string \<Rightarrow> nat \<Rightarrow> admin_services \<Rightarrow> admin_response \<times> admin_services" where
  "handle_get_vk_token S uuid now svc =
    (case create_token S uuid now (as_vk_store svc) (vk_to_bytes (verifying_key (as_identity svc)))
        (DEFAULT_TOKEN_TTL_SECS * 10 ^ 9) (as_max_tokens svc) of
       (Ok (token, _), store) \<Rightarrow> (VkToken token (as_tls_base_url svc @ ''/vk/'' @ token), svc\<lparr>as_vk_store := store\<rparr>)
     | (Err TooManyTokens, store) \<Rightarrow> (Error ''vk share token store full'', svc\<lparr>as_vk_store := store\<rparr>))"

definition dispatch :: "sym_prims \<Rightarrow> string \<Rightarrow> nat \<Rightarrow> admin_command \<Rightarrow> admin_services \<Rightarrow> admin_response \<times> admin_services" where
  "dispatch S uuid now c svc = (case c of
      GetMetrics \<Rightarrow> (handle_get_metrics svc, svc)
    | RotateKeys \<Rightarrow> handle_rotate svc
    | GetVkToken \<Rightarrow> handle_get_vk_token S uuid now svc)"

text \<open>What a connection brings: its bytes and writer, whether the handshake timeout fired, and the clock
  and UUID that a token would get.\<close>

record admin_conn =
  ac_stream :: bytes
  ac_writer :: writer
  ac_elapsed :: bool
  ac_now :: nat
  ac_uuid :: string

text \<open>The handler up to the sequence check: the channel and the command, or nothing.\<close>

definition admin_receive ::
  "sym_prims \<Rightarrow> sig_prims \<Rightarrow> ('r, 'x, 'dk, 'ek) kex_prims \<Rightarrow> admin_codec \<Rightarrow> admin_services \<Rightarrow> admin_conn \<Rightarrow> 'r \<Rightarrow>
   (command_frame \<times> channel \<times> writer) option \<times> 'r" where
  "admin_receive S G K J svc conn r =
    (if ac_elapsed conn then (None, r)
     else (case admin_do_handshake S G K (as_identity svc) (as_cp_vk svc) (ac_stream conn) (ac_writer conn) r of
        (Err _, _, _, r') \<Rightarrow> (None, r')
      | (Ok key, stream, w, r') \<Rightarrow>
          (case read_frame S (channel_new (key_as_bytes key) (64 * 1024)) stream of
             (Ok (Data b), ch, _) \<Rightarrow> (map_option (\<lambda>f. (f, ch, w)) (command_from_json J b), r')
           | (Ok (KeyRotate _), _, _) \<Rightarrow> (None, r')
           | (Err _, _, _) \<Rightarrow> (None, r'))))"

text \<open>\<open>cmd_seq.load\<close> and the check; \<open>cmd_seq.fetch_max\<close>, the command, and its response.\<close>

definition admin_admit :: "admin_services \<Rightarrow> u64 \<Rightarrow> bool" where
  "admin_admit svc seq = is_seq_valid seq (as_cmd_seq svc)"

definition raise_seq :: "admin_services \<Rightarrow> u64 \<Rightarrow> admin_services" where
  "raise_seq svc seq = svc\<lparr>as_cmd_seq := max (as_cmd_seq svc) seq\<rparr>"

datatype admin_status = Closed | Replied admin_response | JsonError | WriteError frame_error

definition admin_respond ::
  "sym_prims \<Rightarrow> admin_codec \<Rightarrow> admin_conn \<Rightarrow> command_frame \<Rightarrow> channel \<Rightarrow> writer \<Rightarrow> admin_services \<Rightarrow>
   admin_status \<times> writer \<times> admin_services" where
  "admin_respond S J conn f ch w svc =
    (let (resp, svc') = dispatch S (ac_uuid conn) (ac_now conn) (frame_cmd f) svc
     in case response_to_json J resp of
          None \<Rightarrow> (JsonError, w, svc')
        | Some b \<Rightarrow> (case write_frame S ch w b of
            (Err e, _, w') \<Rightarrow> (WriteError e, w', svc')
          | (Ok _, _, w') \<Rightarrow> (Replied resp, w', svc')))"

definition admin_execute ::
  "sym_prims \<Rightarrow> admin_codec \<Rightarrow> admin_conn \<Rightarrow> command_frame \<Rightarrow> channel \<Rightarrow> writer \<Rightarrow> admin_services \<Rightarrow>
   admin_status \<times> writer \<times> admin_services" where
  "admin_execute S J conn f ch w svc = admin_respond S J conn f ch w (raise_seq svc (frame_seq f))"

lemmas execute_defs = admin_execute_def admin_respond_def

text \<open>\<open>handle_admin_connection\<close>, when no other connection intervenes; the middle component is the
  command that was executed.\<close>

definition handle_admin_connection ::
  "sym_prims \<Rightarrow> sig_prims \<Rightarrow> ('r, 'x, 'dk, 'ek) kex_prims \<Rightarrow> admin_codec \<Rightarrow> admin_conn \<Rightarrow> admin_services \<Rightarrow> 'r \<Rightarrow>
   admin_status \<times> command_frame option \<times> admin_services \<times> 'r" where
  "handle_admin_connection S G K J conn svc r = (case admin_receive S G K J svc conn r of
      (None, r') \<Rightarrow> (Closed, None, svc, r')
    | (Some (f, ch, w), r') \<Rightarrow>
        if admin_admit svc (frame_seq f)
        then (case admin_execute S J conn f ch w svc of (status, _, svc') \<Rightarrow> (status, Some f, svc', r'))
        else (Closed, None, svc, r'))"

text \<open>Connections handled one after the other.\<close>

fun admin_run ::
  "sym_prims \<Rightarrow> sig_prims \<Rightarrow> ('r, 'x, 'dk, 'ek) kex_prims \<Rightarrow> admin_codec \<Rightarrow> admin_conn list \<Rightarrow> admin_services \<Rightarrow> 'r \<Rightarrow>
   command_frame list \<times> admin_services" where
  "admin_run S G K J [] svc r = ([], svc)"
| "admin_run S G K J (c # cs) svc r = (case handle_admin_connection S G K J c svc r of
      (_, done, svc', r') \<Rightarrow> (case admin_run S G K J cs svc' r' of
        (fs, svc'') \<Rightarrow> (case done of None \<Rightarrow> fs | Some f \<Rightarrow> f # fs, svc'')))"

text \<open>The tasks of several connections. Each step of a task is what it does up to its next access to the shared
  state: receive the command, load the counter and check, \<open>fetch_max\<close>, run the command and answer. A schedule says
  whose turn it is.\<close>

datatype admin_task =
    AdminReceiving admin_conn
  | AdminChecking admin_conn command_frame channel writer
  | AdminRaising admin_conn command_frame channel writer
  | AdminReplying admin_conn command_frame channel writer
  | AdminClosed
  | AdminAnswered admin_status command_frame writer

fun admin_task_step ::
  "sym_prims \<Rightarrow> sig_prims \<Rightarrow> ('r, 'x, 'dk, 'ek) kex_prims \<Rightarrow> admin_codec \<Rightarrow> admin_task \<Rightarrow> admin_services \<Rightarrow> 'r \<Rightarrow>
   admin_task \<times> admin_services \<times> 'r" where
  "admin_task_step S G K J (AdminReceiving conn) svc r = (case admin_receive S G K J svc conn r of
      (None, r') \<Rightarrow> (AdminClosed, svc, r')
    | (Some (f, ch, w), r') \<Rightarrow> (AdminChecking conn f ch w, svc, r'))"
| "admin_task_step S G K J (AdminChecking conn f ch w) svc r =
     (if admin_admit svc (frame_seq f) then AdminRaising conn f ch w else AdminClosed, svc, r)"
| "admin_task_step S G K J (AdminRaising conn f ch w) svc r = (AdminReplying conn f ch w, raise_seq svc (frame_seq f), r)"
| "admin_task_step S G K J (AdminReplying conn f ch w) svc r = (case admin_respond S J conn f ch w svc of
      (status, w', svc') \<Rightarrow> (AdminAnswered status f w', svc', r))"
| "admin_task_step S G K J t svc r = (t, svc, r)"

fun admin_sched ::
  "sym_prims \<Rightarrow> sig_prims \<Rightarrow> ('r, 'x, 'dk, 'ek) kex_prims \<Rightarrow> admin_codec \<Rightarrow> nat list \<Rightarrow> admin_task list \<Rightarrow> admin_services \<Rightarrow> 'r \<Rightarrow>
   admin_task list \<times> admin_services \<times> 'r" where
  "admin_sched S G K J [] ts svc r = (ts, svc, r)"
| "admin_sched S G K J (i # is) ts svc r =
    (if i < length ts
     then (case admin_task_step S G K J (ts ! i) svc r of (t, svc', r') \<Rightarrow> admin_sched S G K J is (ts[i := t]) svc' r')
     else admin_sched S G K J is ts svc r)"

section \<open>Rate limit\<close>

text \<open>The limiter in the accept loop of \<open>spawn_admin_listener\<close>: a window of at least one second,
  times in nanoseconds. The flag says whether the connection is served.\<close>

record rate_window =
  window_start :: nat
  window_count :: u32

definition WINDOW :: nat where "WINDOW = 10 ^ 9"

definition rate_step :: "u32 \<Rightarrow> nat \<Rightarrow> rate_window \<Rightarrow> bool \<times> rate_window" where
  "rate_step limit now rw =
    (let rw1 = (if WINDOW \<le> now - window_start rw then \<lparr>window_start = now, window_count = 0\<rparr> else rw);
         count = window_count rw1 + 1
     in (\<not> limit < count, rw1\<lparr>window_count := count\<rparr>))"

text \<open>The accept times that are served.\<close>

fun rate_run :: "u32 \<Rightarrow> rate_window \<Rightarrow> nat list \<Rightarrow> nat list" where
  "rate_run limit rw [] = []"
| "rate_run limit rw (t # ts) = (case rate_step limit t rw of
     (served, rw') \<Rightarrow> (if served then t # rate_run limit rw' ts else rate_run limit rw' ts))"

section \<open>Lemmas\<close>

interpretation sg: replay_guard admin_admit raise_seq "\<lambda>svc. Some (as_cmd_seq svc)"
  by unfold_locales (auto simp: admin_admit_def raise_seq_def is_seq_valid_def)

lemma dispatch_seq: "dispatch S u t c svc = (resp, svc') \<Longrightarrow> as_cmd_seq svc' = as_cmd_seq svc"
  by (auto simp: dispatch_def handle_rotate_def handle_get_vk_token_def
      split: admin_command.splits prod.splits sum.splits vk_share_error.splits)

lemma admin_execute_seq:
  "admin_execute S J conn f ch w svc = (status, w', svc') \<Longrightarrow> as_cmd_seq svc' = max (as_cmd_seq svc) (frame_seq f)"
  by (auto simp: execute_defs raise_seq_def Let_def dest!: dispatch_seq split: prod.splits option.splits sum.splits)

text \<open>The chain condition of the guard only looks at the counter.\<close>

lemma chain_seq: "as_cmd_seq a = as_cmd_seq b \<Longrightarrow> sg.chain a ns = sg.chain b ns"
proof (induction ns arbitrary: a b)
  case Nil
  then show ?case by simp
next
  case (Cons n ns)
  then have "as_cmd_seq (raise_seq a n) = as_cmd_seq (raise_seq b n)" by (simp add: raise_seq_def)
  moreover have "admin_admit a n = admin_admit b n" using Cons.prems by (simp add: admin_admit_def)
  ultimately show ?case unfolding sg.chain.simps using Cons.IH by blast
qed

lemma admin_run_chain: "admin_run S G K J cs svc r = (fs, svc') \<Longrightarrow> sg.chain svc (map frame_seq fs)"
proof (induction cs arbitrary: svc r fs svc')
  case Nil
  then show ?case by simp
next
  case (Cons c cs)
  obtain st d svc1 r1 where h: "handle_admin_connection S G K J c svc r = (st, d, svc1, r1)" by (metis prod.exhaust)
  obtain fs1 svc2 where run: "admin_run S G K J cs svc1 r1 = (fs1, svc2)" by fastforce
  note ih = Cons.IH [OF run]
  show ?case
  proof (cases d)
    case None
    with h have "svc1 = svc"
      by (auto simp: handle_admin_connection_def split: prod.splits option.splits if_splits)
    with Cons.prems h run None ih show ?thesis by simp
  next
    case (Some f)
    with h obtain ch w w' where a: "admin_admit svc (frame_seq f)" and e: "admin_execute S J c f ch w svc = (st, w', svc1)"
      by (auto simp: handle_admin_connection_def split: prod.splits option.splits if_splits)
    have "as_cmd_seq svc1 = as_cmd_seq (raise_seq svc (frame_seq f))"
      using admin_execute_seq [OF e] by (simp add: raise_seq_def)
    from chain_seq [OF this] ih a Cons.prems h run Some show ?thesis by auto
  qed
qed

text \<open>An honest control plane: the handshake succeeds and its command frame is read.\<close>

lemma admin_receive_honest:
  assumes "sig_laws G" "kex_laws K" "aead_laws S"
    and "server_handshake_new K r = (hs, r1)"
    and "server_hello_signed_bytes G K hs (signing_key (as_identity svc)) r1 = (Ok hello, r2)"
    and "generate_keypair G K b = ((cp_sk, as_cp_vk svc), b')"
    and "client_respond S K (server_client_hello K hs) q = (Ok (resp, key), q1)"
    and "serialize_client_response_signed G K resp cp_sk (server_hello_raw hs) q1 = (Ok wire, q2)"
    and "write_frame S (channel_new (key_as_bytes key) m) open_writer cmd = (Ok (), ch, fw)"
    and "length cmd \<le> 64 * 1024" "command_from_json J cmd = Some f"
    and "ac_stream conn = wire @ w_sent fw" "\<not> ac_elapsed conn" "w_budget (ac_writer conn) = None"
  obtains ch' w' where "admin_receive S G K J svc conn r = (Some (f, ch', w'), r2)"
    "w' = (ac_writer conn)\<lparr>w_sent := w_sent (ac_writer conn) @ hello\<rparr>"
    "cipher ch' = cipher (channel_new (key_as_bytes key) (64 * 1024))" "send_seq ch' = 0"
proof -
  note wf = server_handshake_new_wf [OF assms(2,4)]
  note acc = signed_response_accepted [OF assms(1,2,6) wf assms(7,8)]
  have hsk: "admin_do_handshake S G K (as_identity svc) (as_cp_vk svc) (ac_stream conn) (ac_writer conn) r =
      (Ok key, w_sent fw, (ac_writer conn)\<lparr>w_sent := w_sent (ac_writer conn) @ hello\<rparr>, r2)"
    using assms(4,5,12,14) acc by (simp add: admin_do_handshake_def io_simps)
  let ?c = "channel_new (key_as_bytes key) (64 * 1024)"
  have "\<exists>frame. w_sent fw = w_sent open_writer @ frame \<and> length frame = 41 + length cmd \<and>
     read_frame S ?c (frame @ []) = (Ok (Data cmd), ?c\<lparr>recv_seq := send_seq (channel_new (key_as_bytes key) m),
       recv_initialized := True\<rparr>, [])"
    by (rule write_frame_reads_back [OF assms(3,9)]) (use assms(10) in \<open>simp_all add: channel_new_def\<close>)
  then obtain ch' where "read_frame S ?c (w_sent fw) = (Ok (Data cmd), ch', [])" "cipher ch' = cipher ?c" "send_seq ch' = 0"
    by (auto simp: channel_new_def)
  with hsk assms(11,13) that show ?thesis by (simp add: admin_receive_def)
qed

lemma admin_receive_signed:
  assumes "admin_receive S G K J svc conn r = (Some (f, ch, w), r')"
  obtains hs r1 buf rest where "server_handshake_new K r = (hs, r1)" "ac_stream conn = buf @ rest"
    "length buf = CLIENT_RESPONSE_SIGNED_LEN"
    "verify G (as_cp_vk svc) (take CLIENT_RESPONSE_LEN buf @ server_hello_raw hs)
       (Signature (drop CLIENT_RESPONSE_LEN buf)) = Ok ()"
proof -
  obtain hs r1 where hs: "server_handshake_new K r = (hs, r1)" by fastforce
  from assms obtain key st w1 where k: "admin_do_handshake S G K (as_identity svc) (as_cp_vk svc) (ac_stream conn)
      (ac_writer conn) r = (Ok key, st, w1, r')"
    by (auto simp: admin_receive_def split: if_splits prod.splits sum.splits frame_result.splits)
  with hs obtain buf rest where b: "read_exact CLIENT_RESPONSE_SIGNED_LEN (ac_stream conn) = Some (buf, rest)"
    "complete_from_wire_signed S G K hs buf (as_cp_vk svc) = Ok key"
    by (auto simp: admin_do_handshake_def split: prod.splits sum.splits option.splits)
  note l = read_exact_SomeD [OF b(1)]
  from l have len: "length buf = CLIENT_RESPONSE_SIGNED_LEN" by simp
  from b(2) have "verify G (as_cp_vk svc) (take CLIENT_RESPONSE_LEN buf @ server_hello_raw hs)
       (Signature (drop CLIENT_RESPONSE_LEN buf)) = Ok ()"
    unfolding complete_from_wire_signed_iff [OF len] by (simp split: if_splits)
  with that hs l show ?thesis by blast
qed

section \<open>Properties\<close>

text \<open>C9. No admin command is executed twice: in every sequence of connections, whatever the peers send,
  the sequence numbers of the executed commands are strictly increasing and above the counter the
  listener started with; a repeated or older number is never executed.\<close>

theorem admin_commands_strictly_increasing:
  assumes "admin_run S G K J conns svc r = (fs, svc')"
  shows "sorted_wrt (<) (map frame_seq fs) \<and> (\<forall>f \<in> set fs. as_cmd_seq svc < frame_seq f)"
  using sg.chain_increasing [OF admin_run_chain [OF assms]] sg.chain_above [OF admin_run_chain [OF assms] refl]
  by auto

text \<open>The admin channel serves the control plane: a command frame that an honest control plane sends
  after the handshake, with a number above the counter, is executed on the shared state as
  \<open>dispatch\<close> says, whatever follows.\<close>

theorem honest_admin_command_executed:
  assumes "sig_laws G" "kex_laws K" "aead_laws S"
    and "server_handshake_new K r = (hs, r1)"
    and "server_hello_signed_bytes G K hs (signing_key (as_identity svc)) r1 = (Ok hello, r2)"
    and "generate_keypair G K b = ((cp_sk, as_cp_vk svc), b')"
    and "client_respond S K (server_client_hello K hs) q = (Ok (resp, key), q1)"
    and "serialize_client_response_signed G K resp cp_sk (server_hello_raw hs) q1 = (Ok wire, q2)"
    and "write_frame S (channel_new (key_as_bytes key) m) open_writer cmd = (Ok (), ch, fw)"
    and "length cmd \<le> 64 * 1024" "command_from_json J cmd = Some f"
    and "ac_stream conn = wire @ w_sent fw" "\<not> ac_elapsed conn" "w_budget (ac_writer conn) = None"
    and "as_cmd_seq svc < frame_seq f"
  shows "\<exists>status. status \<noteq> Closed \<and> handle_admin_connection S G K J conn svc r =
     (status, Some f, snd (dispatch S (ac_uuid conn) (ac_now conn) (frame_cmd f) (svc\<lparr>as_cmd_seq := frame_seq f\<rparr>)), r2)"
proof -
  obtain ch' w' where rc: "admin_receive S G K J svc conn r = (Some (f, ch', w'), r2)"
    using assms(1-14) by (rule admin_receive_honest) blast
  obtain st w'' svc' where e: "admin_execute S J conn f ch' w' svc = (st, w'', svc')" by (metis prod.exhaust)
  have "raise_seq svc (frame_seq f) = svc\<lparr>as_cmd_seq := frame_seq f\<rparr>"
    using assms(15) by (simp add: raise_seq_def max_absorb2)
  with e have "st \<noteq> Closed" "svc' = snd (dispatch S (ac_uuid conn) (ac_now conn) (frame_cmd f) (svc\<lparr>as_cmd_seq := frame_seq f\<rparr>))"
    by (auto simp: execute_defs Let_def split: prod.splits option.splits sum.splits)
  with rc e assms(15) show ?thesis
    by (auto simp: handle_admin_connection_def admin_admit_def is_seq_valid_def)
qed

definition demo_frame :: command_frame where
  "demo_frame = \<lparr>frame_seq = 5, frame_cmd = RotateKeys\<rparr>"

definition demo_codec :: admin_codec where
  "demo_codec = \<lparr>command_from_json = (\<lambda>b. if b = [1] then Some demo_frame else None), response_to_json = (\<lambda>_. Some [2])\<rparr>"

definition demo_services :: "signing_key \<Rightarrow> verifying_key \<Rightarrow> verifying_key \<Rightarrow> admin_services" where
  "demo_services sk vk cp_vk = \<lparr>as_identity = \<lparr>signing_key = sk, verifying_key = vk\<rparr>, as_cp_vk = cp_vk,
     as_vk_store = new_store, as_metrics = metrics_state_new, as_rotate = 0, as_prometheus = [],
     as_tls_base_url = ''https://bridge:8440'', as_cmd_seq = 4, as_max_tokens = 1000\<rparr>"

text \<open>A concrete honest connection.\<close>

lemma demo_admin_conn:
  fixes r :: nat
  assumes "generate_keypair toy_sig toy_kex 1 = ((ssk, svk), a)" "generate_keypair toy_sig toy_kex 2 = ((csk, cvk), b)"
  obtains conn :: admin_conn and hs r1 hello r2 resp key q1 wire q2 ch fw where
    "server_handshake_new toy_kex r = (hs, r1)"
    "server_hello_signed_bytes toy_sig toy_kex hs ssk r1 = (Ok hello, r2)"
    "client_respond toy_sym toy_kex (server_client_hello toy_kex hs) 8 = (Ok (resp, key), q1)"
    "serialize_client_response_signed toy_sig toy_kex resp csk (server_hello_raw hs) q1 = (Ok wire, q2)"
    "write_frame toy_sym (channel_new (key_as_bytes key) 65536) open_writer [1] = (Ok (), ch, fw)"
    "ac_stream conn = wire @ w_sent fw" "\<not> ac_elapsed conn" "w_budget (ac_writer conn) = None"
proof -
  obtain hs r1 where hs: "server_handshake_new toy_kex r = (hs, r1)" by (metis prod.exhaust)
  note wf = server_handshake_new_wf [OF toy_kex_laws(1) hs]
  obtain hello r2 where h: "server_hello_signed_bytes toy_sig toy_kex hs ssk r1 = (Ok hello, r2)"
    using wf by (rule toy_server_hello_signed)
  obtain resp key q1 where c: "client_respond toy_sym toy_kex (server_client_hello toy_kex hs) 8 = (Ok (resp, key), q1)"
    using toy_kex_laws(2) toy_sym_laws(4) by (rule client_respond_total)
  obtain wire q2 where w: "serialize_client_response_signed toy_sig toy_kex resp csk (server_hello_raw hs) q1 = (Ok wire, q2)"
    using wf c by (rule toy_response_signed)
  obtain ch fw where f: "write_frame toy_sym (channel_new (key_as_bytes key) 65536) open_writer [1] = (Ok (), ch, fw)"
    by (simp add: write_frame_def toy_sym_def Let_def io_simps)
  show ?thesis
    by (rule that [OF hs h c w f, of "\<lparr>ac_stream = wire @ w_sent fw, ac_writer = open_writer, ac_elapsed = False, ac_now = 0, ac_uuid = []\<rparr>"])
      simp_all
qed

lemma demo_admin:
  obtains svc :: admin_services and conn :: admin_conn and r2 hs r1 hello b cp_sk b' q resp key q1 wire q2 ch fw where
    "server_handshake_new toy_kex 3 = (hs, r1)"
    "server_hello_signed_bytes toy_sig toy_kex hs (signing_key (as_identity svc)) r1 = (Ok hello, r2)"
    "generate_keypair toy_sig toy_kex b = ((cp_sk, as_cp_vk svc), b')"
    "client_respond toy_sym toy_kex (server_client_hello toy_kex hs) q = (Ok (resp, key), q1)"
    "serialize_client_response_signed toy_sig toy_kex resp cp_sk (server_hello_raw hs) q1 = (Ok wire, q2)"
    "write_frame toy_sym (channel_new (key_as_bytes key) 65536) open_writer [1] = (Ok (), ch, fw)"
    "ac_stream conn = wire @ w_sent fw" "\<not> ac_elapsed conn" "w_budget (ac_writer conn) = None"
    "as_cmd_seq svc = 4" "as_rotate svc = 0" "as_vk_store svc = new_store" "as_max_tokens svc = 1000"
proof -
  obtain ssk svk a where kp1: "generate_keypair toy_sig toy_kex 1 = ((ssk, svk), a)" by (metis prod.exhaust)
  obtain csk cvk b where kp2: "generate_keypair toy_sig toy_kex 2 = ((csk, cvk), b)" by (metis prod.exhaust)
  show ?thesis
    by (rule demo_admin_conn [OF kp1 kp2, of 3], rule that [of _ _ "demo_services ssk svk cvk"])
      (use kp2 in \<open>simp_all add: demo_services_def\<close>)
qed

lemma demo_codec_simps: "length [1 :: byte] \<le> 64 * 1024" "command_from_json demo_codec [1] = Some demo_frame"
  by (simp_all add: demo_codec_def)

theorem honest_admin_command_executed_witness:
  "\<exists>(svc :: admin_services) (conn :: admin_conn) status svc' r'. handle_admin_connection toy_sym toy_sig toy_kex demo_codec conn svc 3 =
     (status, Some demo_frame, svc', r') \<and> as_rotate svc = 0 \<and> as_rotate svc' = 1 \<and> as_cmd_seq svc' = 5"
proof -
  obtain svc :: admin_services and conn :: admin_conn and r2 hs r1 hello b cp_sk b' q resp key q1 wire q2 ch fw where
    d: "server_handshake_new toy_kex 3 = (hs, r1)"
    "server_hello_signed_bytes toy_sig toy_kex hs (signing_key (as_identity svc)) r1 = (Ok hello, r2)"
    "generate_keypair toy_sig toy_kex b = ((cp_sk, as_cp_vk svc), b')"
    "client_respond toy_sym toy_kex (server_client_hello toy_kex hs) q = (Ok (resp, key), q1)"
    "serialize_client_response_signed toy_sig toy_kex resp cp_sk (server_hello_raw hs) q1 = (Ok wire, q2)"
    "write_frame toy_sym (channel_new (key_as_bytes key) 65536) open_writer [1] = (Ok (), ch, fw)"
    and e: "ac_stream conn = wire @ w_sent fw" "\<not> ac_elapsed conn" "w_budget (ac_writer conn) = None"
    and z: "as_cmd_seq svc = 4" "as_rotate svc = 0" by (rule demo_admin) blast
  have lt: "as_cmd_seq svc < frame_seq demo_frame" by (simp add: z demo_frame_def word_less_nat_alt)
  from honest_admin_command_executed [OF toy_sig_laws(1) toy_kex_laws(1) toy_sym_laws(1) d demo_codec_simps e lt]
  show ?thesis by (intro exI [of _ svc] exI [of _ conn])
    (auto simp: dispatch_def handle_rotate_def demo_frame_def z)
qed

text \<open>C26. Only the control plane changes the bridge's state through the admin channel: whatever arrives,
  either the shared state is unchanged and the connection is closed without an answer, or the stream
  begins with a 4429-byte response whose signature verifies under the control plane's key over the
  response and this connection's own ServerHello, and the command's number is above the counter.\<close>

theorem admin_state_changes_are_signed:
  assumes "handle_admin_connection S G K J conn svc r = (status, executed, svc', r')"
  shows "(executed = None \<and> status = Closed \<and> svc' = svc) \<or>
     (\<exists>f hs r1 buf rest. executed = Some f \<and> as_cmd_seq svc < frame_seq f \<and> as_cmd_seq svc' = frame_seq f \<and>
        server_handshake_new K r = (hs, r1) \<and> ac_stream conn = buf @ rest \<and> length buf = CLIENT_RESPONSE_SIGNED_LEN \<and>
        verify G (as_cp_vk svc) (take CLIENT_RESPONSE_LEN buf @ server_hello_raw hs)
          (Signature (drop CLIENT_RESPONSE_LEN buf)) = Ok ())"
proof (cases executed)
  case None
  with assms show ?thesis
    by (auto simp: handle_admin_connection_def split: prod.splits option.splits if_splits)
next
  case (Some f)
  with assms obtain ch w w' where rc: "admin_receive S G K J svc conn r = (Some (f, ch, w), r')"
    and a: "admin_admit svc (frame_seq f)" and e: "admin_execute S J conn f ch w svc = (status, w', svc')"
    by (auto simp: handle_admin_connection_def split: prod.splits option.splits if_splits)
  from a have "as_cmd_seq svc < frame_seq f" by (simp add: admin_admit_def is_seq_valid_def)
  moreover with admin_execute_seq [OF e] have "as_cmd_seq svc' = frame_seq f"
    by (simp add: max_absorb2)
  moreover from rc obtain hs r1 buf rest where "server_handshake_new K r = (hs, r1)" "ac_stream conn = buf @ rest"
    "length buf = CLIENT_RESPONSE_SIGNED_LEN" "verify G (as_cp_vk svc) (take CLIENT_RESPONSE_LEN buf @ server_hello_raw hs)
       (Signature (drop CLIENT_RESPONSE_LEN buf)) = Ok ()" by (rule admin_receive_signed)
  ultimately show ?thesis using Some by blast
qed

lemma demo_admin_run:
  obtains conn :: admin_conn and svc :: admin_services and svc' :: admin_services where
    "admin_run toy_sym toy_sig toy_kex demo_codec [conn] svc 3 = ([demo_frame], svc')" "as_cmd_seq svc = 4"
proof -
  obtain svc :: admin_services and conn :: admin_conn and r2 hs r1 hello b cp_sk b' q resp key q1 wire q2 ch fw where
    d: "server_handshake_new toy_kex 3 = (hs, r1)"
    "server_hello_signed_bytes toy_sig toy_kex hs (signing_key (as_identity svc)) r1 = (Ok hello, r2)"
    "generate_keypair toy_sig toy_kex b = ((cp_sk, as_cp_vk svc), b')"
    "client_respond toy_sym toy_kex (server_client_hello toy_kex hs) q = (Ok (resp, key), q1)"
    "serialize_client_response_signed toy_sig toy_kex resp cp_sk (server_hello_raw hs) q1 = (Ok wire, q2)"
    "write_frame toy_sym (channel_new (key_as_bytes key) 65536) open_writer [1] = (Ok (), ch, fw)"
    and e: "ac_stream conn = wire @ w_sent fw" "\<not> ac_elapsed conn" "w_budget (ac_writer conn) = None"
    and z: "as_cmd_seq svc = 4" "as_rotate svc = 0" by (rule demo_admin) blast
  obtain ch' w' where rc: "admin_receive toy_sym toy_sig toy_kex demo_codec svc conn 3 = (Some (demo_frame, ch', w'), r2)"
    using toy_sig_laws(1) toy_kex_laws(1) toy_sym_laws(1) d demo_codec_simps e by (rule admin_receive_honest)
  have "admin_admit svc (frame_seq demo_frame)"
    by (simp add: z demo_frame_def admin_admit_def is_seq_valid_def word_less_nat_alt)
  moreover obtain st w'' svc' where "admin_execute toy_sym demo_codec conn demo_frame ch' w' svc = (st, w'', svc')"
    by (metis prod.exhaust)
  ultimately show ?thesis using rc z(1)
    by (intro that [of conn svc svc']) (simp_all add: handle_admin_connection_def)
qed

theorem admin_commands_strictly_increasing_witness:
  "\<exists>conn svc svc'. admin_run toy_sym toy_sig toy_kex demo_codec [conn] svc 3 = ([demo_frame], svc') \<and>
     as_cmd_seq svc < 5"
proof -
  obtain conn :: admin_conn and svc :: admin_services and svc' :: admin_services where
    r: "admin_run toy_sym toy_sig toy_kex demo_codec [conn] svc 3 = ([demo_frame], svc')" by (rule demo_admin_run)
  from admin_commands_strictly_increasing [OF r] have "as_cmd_seq svc < 5" by (simp add: demo_frame_def)
  with r show ?thesis by blast
qed

theorem admin_state_changes_are_signed_witness:
  "handle_admin_connection toy_sym toy_sig toy_kex demo_codec
     \<lparr>ac_stream = [1, 2, 3], ac_writer = open_writer, ac_elapsed = True, ac_now = 0, ac_uuid = []\<rparr>
     (demo_services (SigningKey []) (VerifyingKey []) (VerifyingKey [])) 3 =
   (Closed, None, demo_services (SigningKey []) (VerifyingKey []) (VerifyingKey []), 3)"
proof -
  let ?c = "\<lparr>ac_stream = [1, 2, 3], ac_writer = open_writer, ac_elapsed = True, ac_now = 0, ac_uuid = []\<rparr>"
  let ?s = "demo_services (SigningKey []) (VerifyingKey []) (VerifyingKey [])"
  obtain st d svc' r' where h: "handle_admin_connection toy_sym toy_sig toy_kex demo_codec ?c ?s 3 = (st, d, svc', r')"
    by (metis prod.exhaust)
  moreover from h have "r' = 3" by (auto simp: handle_admin_connection_def admin_receive_def)
  ultimately show ?thesis
    using admin_state_changes_are_signed [OF h] by (auto simp: layout_defs dest!: arg_cong [where f = length])
qed

text \<open>A connection's task that runs alone is \<open>handle_admin_connection\<close>.\<close>

lemma admin_task_alone:
  assumes "handle_admin_connection S G K J conn svc r = (status, executed, svc', r')"
  shows "\<exists>t. admin_sched S G K J [0, 0, 0, 0] [AdminReceiving conn] svc r = ([t], svc', r') \<and>
    (t = AdminClosed \<and> status = Closed \<and> executed = None \<or> (\<exists>f w. t = AdminAnswered status f w \<and> executed = Some f))"
  using assms by (auto simp: handle_admin_connection_def admin_execute_def split: prod.splits option.splits if_splits)

lemma admin_receive_cong:
  "as_identity svc' = as_identity svc \<Longrightarrow> as_cp_vk svc' = as_cp_vk svc \<Longrightarrow>
    admin_receive S G K J svc' conn r = admin_receive S G K J svc conn r"
  by (simp add: admin_receive_def)

lemma dispatch_keeps:
  assumes "dispatch S u t c svc = (resp, svc')"
  shows "as_identity svc' = as_identity svc" "as_cp_vk svc' = as_cp_vk svc"
    "as_rotate svc' = (if c = RotateKeys then as_rotate svc + 1 else as_rotate svc)"
  using assms by (auto simp: dispatch_def handle_rotate_def handle_get_vk_token_def
      split: admin_command.splits prod.splits sum.splits vk_share_error.splits)

lemma admin_respond_keeps:
  assumes "admin_respond S J conn f ch w svc = (status, w', svc')"
  shows "status \<noteq> Closed" "as_identity svc' = as_identity svc" "as_cp_vk svc' = as_cp_vk svc" "as_cmd_seq svc' = as_cmd_seq svc"
    "as_rotate svc' = (if frame_cmd f = RotateKeys then as_rotate svc + 1 else as_rotate svc)"
proof -
  obtain resp s where d: "dispatch S (ac_uuid conn) (ac_now conn) (frame_cmd f) svc = (resp, s)" by fastforce
  with assms have "s = svc'" and "status \<noteq> Closed"
    by (auto simp: admin_respond_def split: prod.splits option.splits sum.splits)
  with dispatch_keeps [OF d] dispatch_seq [OF d] show "status \<noteq> Closed" "as_identity svc' = as_identity svc" "as_cp_vk svc' = as_cp_vk svc"
    "as_cmd_seq svc' = as_cmd_seq svc" "as_rotate svc' = (if frame_cmd f = RotateKeys then as_rotate svc + 1 else as_rotate svc)"
    by simp_all
qed

text \<open>C28. The counter is loaded and raised in two steps. Two connections bring commands with the same number, above the
  counter. When their tasks run one after the other, the first is executed and answered and the second
  closed. When they take turns, both pass the check before either raises the counter, and both are executed and
  answered: two \<open>Rotate\<close> commands with one number rotate twice.\<close>

theorem concurrent_commands_share_a_number:
  assumes "admin_receive S G K J svc c1 r = (Some (f, ch1, w1), r1)" "admin_receive S G K J svc c2 r1 = (Some (g, ch2, w2), r2)"
    and "as_cmd_seq svc < frame_seq f" "frame_seq g = frame_seq f" "frame_cmd f = RotateKeys" "frame_cmd g = RotateKeys"
  shows "(\<exists>st1 x1 svc'. admin_sched S G K J [0, 0, 0, 0, 1, 1, 1, 1] [AdminReceiving c1, AdminReceiving c2] svc r =
        ([AdminAnswered st1 f x1, AdminClosed], svc', r2) \<and> st1 \<noteq> Closed \<and> as_rotate svc' = as_rotate svc + 1 \<and> as_cmd_seq svc' = frame_seq f) \<and>
     (\<exists>st1 x1 st2 x2 svc'. admin_sched S G K J [0, 1, 0, 1, 0, 1, 0, 1] [AdminReceiving c1, AdminReceiving c2] svc r =
        ([AdminAnswered st1 f x1, AdminAnswered st2 g x2], svc', r2) \<and> st1 \<noteq> Closed \<and> st2 \<noteq> Closed \<and>
        as_rotate svc' = as_rotate svc + 2 \<and> as_cmd_seq svc' = frame_seq f)"
proof
  have adm: "admin_admit svc (frame_seq f)" using assms(3) by (simp add: admin_admit_def is_seq_valid_def)
  let ?s1 = "raise_seq svc (frame_seq f)"
  have s1: "as_cmd_seq ?s1 = frame_seq f" "as_rotate ?s1 = as_rotate svc" "as_identity ?s1 = as_identity svc" "as_cp_vk ?s1 = as_cp_vk svc"
    using assms(3) by (simp_all add: raise_seq_def max_absorb2)
  obtain st1 x1 s2 where e1: "admin_respond S J c1 f ch1 w1 ?s1 = (st1, x1, s2)" by (metis prod.exhaust)
  note k1 = admin_respond_keeps [OF e1]
  have rc: "admin_receive S G K J s2 c2 r1 = (Some (g, ch2, w2), r2)"
    using assms(2) admin_receive_cong [of s2 svc S G K J c2 r1] k1(2,3) s1(3,4) by simp
  have "\<not> admin_admit s2 (frame_seq g)" using k1(4) s1(1) assms(4) by (simp add: admin_admit_def is_seq_valid_def)
  then show "\<exists>st1 x1 svc'. admin_sched S G K J [0, 0, 0, 0, 1, 1, 1, 1] [AdminReceiving c1, AdminReceiving c2] svc r =
      ([AdminAnswered st1 f x1, AdminClosed], svc', r2) \<and> st1 \<noteq> Closed \<and> as_rotate svc' = as_rotate svc + 1 \<and> as_cmd_seq svc' = frame_seq f"
    using assms(1,5) adm e1 rc k1 s1 by simp
  let ?s2 = "raise_seq ?s1 (frame_seq g)"
  have s2: "?s2 = ?s1" using assms(4) by (simp add: raise_seq_def)
  obtain st2 x2 s3 where e2: "admin_respond S J c2 g ch2 w2 s2 = (st2, x2, s3)" by (metis prod.exhaust)
  show "\<exists>st1 x1 st2 x2 svc'. admin_sched S G K J [0, 1, 0, 1, 0, 1, 0, 1] [AdminReceiving c1, AdminReceiving c2] svc r =
        ([AdminAnswered st1 f x1, AdminAnswered st2 g x2], svc', r2) \<and> st1 \<noteq> Closed \<and> st2 \<noteq> Closed \<and>
        as_rotate svc' = as_rotate svc + 2 \<and> as_cmd_seq svc' = frame_seq f"
    using assms(1,2,4-6) adm e1 e2 k1 admin_respond_keeps [OF e2] s1 s2 by simp
qed

theorem concurrent_commands_share_a_number_witness:
  "\<exists>(svc :: admin_services) c1 c2 st x st1 x1 st2 x2 svc1 svc2 r2. as_rotate svc = 0 \<and> as_cmd_seq svc = 4 \<and>
     admin_sched toy_sym toy_sig toy_kex demo_codec [0, 0, 0, 0, 1, 1, 1, 1] [AdminReceiving c1, AdminReceiving c2] svc 3 =
       ([AdminAnswered st demo_frame x, AdminClosed], svc1, r2) \<and> as_rotate svc1 = 1 \<and>
     admin_sched toy_sym toy_sig toy_kex demo_codec [0, 1, 0, 1, 0, 1, 0, 1] [AdminReceiving c1, AdminReceiving c2] svc 3 =
       ([AdminAnswered st1 demo_frame x1, AdminAnswered st2 demo_frame x2], svc2, r2) \<and> as_rotate svc2 = 2"
proof -
  obtain ssk svk a where kp1: "generate_keypair toy_sig toy_kex 1 = ((ssk, svk), a)" by (metis prod.exhaust)
  obtain csk cvk b where kp2: "generate_keypair toy_sig toy_kex 2 = ((csk, cvk), b)" by (metis prod.exhaust)
  let ?svc = "demo_services ssk svk cvk"
  have key: "generate_keypair toy_sig toy_kex 2 = ((csk, as_cp_vk ?svc), b)" "signing_key (as_identity ?svc) = ssk"
    using kp2 by (simp_all add: demo_services_def)
  have rc: "\<exists>conn ch w r'. admin_receive toy_sym toy_sig toy_kex demo_codec ?svc conn r = (Some (demo_frame, ch, w), r')" for r :: nat
    by (rule demo_admin_conn [OF kp1 kp2, of r],
        rule admin_receive_honest [OF toy_sig_laws(1) toy_kex_laws(1) toy_sym_laws(1) _ _ key(1) _ _ _ demo_codec_simps])
      (assumption | simp only: key(2) | blast)+
  from rc [of 3] obtain c1 ch1 w1 r1 where r1: "admin_receive toy_sym toy_sig toy_kex demo_codec ?svc c1 3 = (Some (demo_frame, ch1, w1), r1)" by blast
  from rc [of r1] obtain c2 ch2 w2 r2 where r2: "admin_receive toy_sym toy_sig toy_kex demo_codec ?svc c2 r1 = (Some (demo_frame, ch2, w2), r2)" by blast
  have n: "as_cmd_seq ?svc < frame_seq demo_frame" "frame_cmd demo_frame = RotateKeys" "as_cmd_seq ?svc = 4" "as_rotate ?svc = 0"
    by (simp_all add: demo_services_def demo_frame_def word_less_nat_alt)
  note both = concurrent_commands_share_a_number [OF r1 r2 n(1) refl n(2,2)]
  from both [THEN conjunct1] obtain st x svc1 where
    one: "admin_sched toy_sym toy_sig toy_kex demo_codec [0, 0, 0, 0, 1, 1, 1, 1] [AdminReceiving c1, AdminReceiving c2] ?svc 3 =
      ([AdminAnswered st demo_frame x, AdminClosed], svc1, r2)" "as_rotate svc1 = as_rotate ?svc + 1" by blast
  from both [THEN conjunct2] obtain st1 x1 st2 x2 svc2 where
    two: "admin_sched toy_sym toy_sig toy_kex demo_codec [0, 1, 0, 1, 0, 1, 0, 1] [AdminReceiving c1, AdminReceiving c2] ?svc 3 =
      ([AdminAnswered st1 demo_frame x1, AdminAnswered st2 demo_frame x2], svc2, r2)" "as_rotate svc2 = as_rotate ?svc + 2" by blast
  have "as_rotate svc1 = 1" "as_rotate svc2 = 2" using one(2) two(2) n(4) by simp_all
  with one(1) two(1) n(3,4) show ?thesis by blast
qed

section \<open>The rate limiter\<close>

definition in_second :: "nat \<Rightarrow> nat \<Rightarrow> bool" where
  "in_second a t \<longleftrightarrow> a \<le> t \<and> t < a + WINDOW"

lemma rate_run_subset: "set (rate_run limit rw ts) \<subseteq> set ts"
  by (induction ts arbitrary: rw) (auto simp: rate_step_def Let_def split: if_splits)

text \<open>What is still served in the second that begins at \<open>a\<close>, from a state of the limiter at time \<open>cur\<close>.\<close>

lemma rate_run_bound:
  assumes "sorted (cur # ts)" "window_start rw \<le> cur" "unat (window_count rw) + length ts < 2 ^ 32"
  shows "length (filter (in_second a) (rate_run limit rw ts)) \<le>
    (if a \<le> window_start rw then unat limit - unat (window_count rw)
     else if a \<le> cur then (unat limit - unat (window_count rw)) + unat limit else 2 * unat limit)"
  using assms
proof (induction ts arbitrary: cur rw)
  case Nil
  then show ?case by simp
next
  case (Cons t ts)
  let ?rw1 = "if WINDOW \<le> t - window_start rw then \<lparr>window_start = t, window_count = 0\<rparr> else rw"
  let ?rw' = "?rw1\<lparr>window_count := window_count ?rw1 + 1\<rparr>"
  have t: "cur \<le> t" "sorted (t # ts)" "window_start ?rw1 \<le> t" using Cons.prems by auto
  have small: "unat (window_count ?rw1) + length (t # ts) < 2 ^ 32" using Cons.prems(3) by auto
  then have u: "unat (window_count ?rw') = unat (window_count ?rw1) + 1" by (simp add: unat_word_ariths)
  have ih: "length (filter (in_second a) (rate_run limit ?rw' ts)) \<le>
    (if a \<le> window_start ?rw' then unat limit - unat (window_count ?rw')
     else if a \<le> t then (unat limit - unat (window_count ?rw')) + unat limit else 2 * unat limit)"
    by (rule Cons.IH) (use t small u in simp_all)
  have served: "length (filter (in_second a) (rate_run limit rw (t # ts))) =
    (if unat (window_count ?rw1) + 1 \<le> unat limit \<and> in_second a t then 1 else 0) +
     length (filter (in_second a) (rate_run limit ?rw' ts))"
    using u by (simp add: rate_step_def Let_def word_less_nat_alt not_less)
  have late: "length (filter (in_second a) (rate_run limit ?rw' ts)) = 0 \<and> \<not> in_second a t" if "a + WINDOW \<le> t"
    using that t(2) rate_run_subset [of limit ?rw' ts] by (fastforce simp: in_second_def filter_empty_conv)
  show ?case
  proof (cases "WINDOW \<le> t - window_start rw")
    case False
    then show ?thesis unfolding served using ih u t(1) by (auto simp: in_second_def split: if_splits)
  next
    case True
    then have "window_start rw + WINDOW \<le> t" using Cons.prems(2) t(1) by simp
    then have "a \<le> window_start rw \<Longrightarrow> a + WINDOW \<le> t" by simp
    with True show ?thesis unfolding served using ih u t(1) late by (auto simp: in_second_def split: if_splits)
  qed
qed

text \<open>The admin listener serves at most twice \<open>rate_limit_per_second\<close> connections in any second,
  wherever the second begins, for every sequence of accept times (fewer than \<open>2 ^ 32\<close> of them, so that
  the counter does not wrap).\<close>

theorem admin_rate_limit:
  assumes "sorted (start # ts)" "length ts < 2 ^ 32"
  shows "length (filter (in_second a) (rate_run limit \<lparr>window_start = start, window_count = 0\<rparr> ts)) \<le> 2 * unat limit"
  using rate_run_bound [OF assms(1), of "\<lparr>window_start = start, window_count = 0\<rparr>" a limit] assms(2)
  by (auto split: if_splits)

theorem admin_rate_limit_witness:
  "length (filter (in_second 0) (rate_run 2 \<lparr>window_start = 0, window_count = 0\<rparr> [1, 2, 3, 4])) \<le> 4 \<and>
   rate_run 2 \<lparr>window_start = 0, window_count = 0\<rparr> [1, 2, 3, 4] = [1, 2]"
proof -
  have "rate_run 2 \<lparr>window_start = 0, window_count = 0\<rparr> [1, 2, 3, 4] = [1, 2]" by code_simp
  moreover have "length (filter (in_second 0) (rate_run 2 \<lparr>window_start = 0, window_count = 0\<rparr> [1, 2, 3, 4])) \<le> 2 * unat (2 :: u32)"
    by (rule admin_rate_limit) simp_all
  ultimately show ?thesis by simp
qed

end
