(* ===== verification/Control_Plane.thy ===== *)
theory Control_Plane
  imports Handshake Identity Bridge_Config Metrics
begin

text \<open>
  The bridge's client of the cloud control plane, \<open>latticeshield-bridge/src/control_plane.rs\<close>:
  registration, signed heartbeats, and the commands that come back with a heartbeat's response.

  Parameters: the JSON codec of \<open>serde_json\<close> and the base64 engine (\<open>cp_codec\<close>), and what the HTTP
  client returned for a request (\<open>http_outcome\<close>, an input of each call). An \<open>i64\<close> is a 64-bit word read
  as a signed number. Times are seconds since the epoch.
\<close>

section \<open>Data\<close>

record registration_payload =
  reg_name :: string
  reg_version :: string
  reg_capabilities :: "string list"
  reg_listen_addr :: socket_addr
  reg_server_vk :: string
  reg_install_token :: "string option"

record heartbeat_metrics =
  hm_connections_active :: u64
  hm_connections_total :: u64
  hm_bytes_transmitted_total :: u64
  hm_channel_errors_total :: u64

record signable_heartbeat =
  sh_timestamp_unix :: u64
  sh_uptime_secs :: u64
  sh_status :: string
  sh_version :: string
  sh_metrics :: heartbeat_metrics

text \<open>\<open>SignedHeartbeatPayload\<close>: the same fields and the signature.\<close>

record signed_heartbeat = signable_heartbeat +
  sh_signature :: string

datatype bridge_command = Rotate_Cmd | Unknown_Cmd

record heartbeat_response =
  pending_commands :: "bridge_command list option"
  signed_payload :: "string option"
  response_signature :: "string option"

definition default_heartbeat_response :: heartbeat_response where
  "default_heartbeat_response = \<lparr>pending_commands = None, signed_payload = None, response_signature = None\<rparr>"

record signed_response_payload =
  srp_pending_commands :: "bridge_command list option"
  srp_ts :: u64

definition SIGNED_RESPONSE_FRESHNESS_SECS :: int where "SIGNED_RESPONSE_FRESHNESS_SECS = 300"
definition MAX_HEARTBEAT_RESPONSE_BYTES :: nat where "MAX_HEARTBEAT_RESPONSE_BYTES = 1024 * 1024"

record cp_codec =
  encode_signable :: "signable_heartbeat \<Rightarrow> bytes option"
  decode_response :: "bytes \<Rightarrow> heartbeat_response option"
  decode_payload :: "string \<Rightarrow> signed_response_payload option"
  decode_registration :: "bytes \<Rightarrow> string option"
  base64_encode :: "bytes \<Rightarrow> string"
  base64_decode :: "string \<Rightarrow> bytes option"

record http_response =
  http_status :: nat
  http_content_length :: "u64 option"
  http_body :: "io_error + bytes"

type_synonym http_outcome = "io_error + http_response"

definition is_success :: "nat \<Rightarrow> bool" where
  "is_success s \<longleftrightarrow> 200 \<le> s \<and> s < 300"

text \<open>\<open>str::as_bytes\<close> of a decoded string.\<close>

definition as_bytes :: "string \<Rightarrow> bytes" where
  "as_bytes s = ascii s"

section \<open>Registration\<close>

definition registration_request :: "string \<Rightarrow> valid_config \<Rightarrow> identity \<Rightarrow> string \<times> registration_payload" where
  "registration_request pkg_version cfg ident =
    (vc_control_plane_endpoint cfg @ ''/api/v1/agents/register'',
     \<lparr>reg_name = vc_control_plane_agent_name cfg, reg_version = pkg_version,
      reg_capabilities = [''pqc-proxy'', ''ml-kem-768'', ''ml-dsa-65''],
      reg_listen_addr = vc_listen_addr cfg,
      reg_server_vk = hex_encode (vk_to_bytes (verifying_key ident)),
      reg_install_token = vc_control_plane_install_token cfg\<rparr>)"

definition try_register :: "cp_codec \<Rightarrow> http_outcome \<Rightarrow> string option" where
  "try_register J out = (case out of
      Err _ \<Rightarrow> None
    | Ok resp \<Rightarrow>
        if \<not> is_success (http_status resp) then None
        else (case http_body resp of Err _ \<Rightarrow> None | Ok b \<Rightarrow> decode_registration J b))"

section \<open>Heartbeat\<close>

datatype heartbeat_error =
    HbSerialize | HbSign signing_error | HbRequest io_error | HbStatus nat
  | HbTooLargeHeader nat | HbReadBody io_error | HbTooLargeBody nat

definition trim_end_slash :: "string \<Rightarrow> string" where
  "trim_end_slash s = rev (dropWhile (\<lambda>c. c = CHR ''/'') (rev s))"

text \<open>Steps 1 to 5 of \<open>send_heartbeat\<close>: the request.\<close>

definition heartbeat_request ::
  "sig_prims \<Rightarrow> ('r, 'x, 'dk, 'ek) kex_prims \<Rightarrow> cp_codec \<Rightarrow> valid_config \<Rightarrow> string \<Rightarrow> signable_heartbeat \<Rightarrow> identity \<Rightarrow> 'r \<Rightarrow>
   (heartbeat_error + string \<times> signed_heartbeat) \<times> 'r" where
  "heartbeat_request G K J cfg agent_id signable ident r = (case encode_signable J signable of
      None \<Rightarrow> (Err HbSerialize, r)
    | Some canonical \<Rightarrow> (case sign G K (signing_key ident) canonical r of
        (Err e, r') \<Rightarrow> (Err (HbSign e), r')
      | (Ok s, r') \<Rightarrow>
          (Ok (trim_end_slash (vc_control_plane_endpoint cfg) @ ''/api/v1/agents/'' @ agent_id @ ''/heartbeat'',
               \<lparr>sh_timestamp_unix = sh_timestamp_unix signable, sh_uptime_secs = sh_uptime_secs signable,
                sh_status = sh_status signable, sh_version = sh_version signable, sh_metrics = sh_metrics signable,
                sh_signature = base64_encode J (sig_to_bytes s)\<rparr>), r')))"

text \<open>Step 6: the body of the response, within the size limit.\<close>

definition read_response :: "cp_codec \<Rightarrow> http_outcome \<Rightarrow> heartbeat_error + heartbeat_response" where
  "read_response J out = (case out of
      Err e \<Rightarrow> Err (HbRequest e)
    | Ok resp \<Rightarrow>
        if \<not> is_success (http_status resp) then Err (HbStatus (http_status resp))
        else if (case http_content_length resp of Some len \<Rightarrow> MAX_HEARTBEAT_RESPONSE_BYTES < unat len | None \<Rightarrow> False)
        then Err (HbTooLargeHeader (unat (the (http_content_length resp))))
        else (case http_body resp of
            Err e \<Rightarrow> Err (HbReadBody e)
          | Ok b \<Rightarrow>
              if MAX_HEARTBEAT_RESPONSE_BYTES < length b then Err (HbTooLargeBody (length b))
              else Ok (case decode_response J b of None \<Rightarrow> default_heartbeat_response | Some h \<Rightarrow> h)))"

text \<open>\<open>i64::checked_sub\<close> and \<open>i64::saturating_abs\<close>, and the drift of step 7.\<close>

definition i64_checked_sub :: "int \<Rightarrow> int \<Rightarrow> int option" where
  "i64_checked_sub a b = (let d = a - b in if - (2 ^ 63) \<le> d \<and> d < 2 ^ 63 then Some d else None)"

definition i64_saturating_abs :: "int \<Rightarrow> int" where
  "i64_saturating_abs d = (if d = - (2 ^ 63) then 2 ^ 63 - 1 else \<bar>d\<bar>)"

definition drift :: "u64 \<Rightarrow> u64 \<Rightarrow> int" where
  "drift now ts = (case i64_checked_sub (sint now) (sint ts) of
      Some d \<Rightarrow> i64_saturating_abs d | None \<Rightarrow> 2 ^ 63 - 1)"

text \<open>Steps 7 and 8: with a cloud key only the signed payload counts, and every failure drops the
  commands.\<close>

definition verify_response ::
  "sig_prims \<Rightarrow> cp_codec \<Rightarrow> verifying_key option \<Rightarrow> u64 \<Rightarrow> heartbeat_response \<Rightarrow> heartbeat_response" where
  "verify_response G J cloud_vk now hb = (case cloud_vk of
      None \<Rightarrow> hb
    | Some vk \<Rightarrow> (case signed_payload hb of
        None \<Rightarrow> default_heartbeat_response
      | Some payload \<Rightarrow> (case response_signature hb of
          None \<Rightarrow> default_heartbeat_response
        | Some sig_b64 \<Rightarrow> (case base64_decode J sig_b64 of
            None \<Rightarrow> default_heartbeat_response
          | Some sig_bytes \<Rightarrow> (case sig_from_bytes sig_bytes of
              Err _ \<Rightarrow> default_heartbeat_response
            | Ok s \<Rightarrow> (case verify G vk (as_bytes payload) s of
                Err _ \<Rightarrow> default_heartbeat_response
              | Ok _ \<Rightarrow> (case decode_payload J payload of
                  None \<Rightarrow> default_heartbeat_response
                | Some body \<Rightarrow>
                    if SIGNED_RESPONSE_FRESHNESS_SECS < drift now (srp_ts body) then default_heartbeat_response
                    else \<lparr>pending_commands = srp_pending_commands body, signed_payload = None,
                          response_signature = None\<rparr>)))))))"

definition send_heartbeat ::
  "sig_prims \<Rightarrow> ('r, 'x, 'dk, 'ek) kex_prims \<Rightarrow> cp_codec \<Rightarrow> valid_config \<Rightarrow> string \<Rightarrow> signable_heartbeat \<Rightarrow> identity \<Rightarrow>
   verifying_key option \<Rightarrow> http_outcome \<Rightarrow> u64 \<Rightarrow> 'r \<Rightarrow> (heartbeat_error + heartbeat_response) \<times> 'r" where
  "send_heartbeat G K J cfg agent_id signable ident cloud_vk out now r =
    (case heartbeat_request G K J cfg agent_id signable ident r of
       (Err e, r') \<Rightarrow> (Err e, r')
     | (Ok _, r') \<Rightarrow> (case read_response J out of
         Err e \<Rightarrow> (Err e, r')
       | Ok hb \<Rightarrow> (Ok (verify_response G J cloud_vk now hb), r')))"

section \<open>The heartbeat task\<close>

definition load_cloud_vk :: "filesys \<Rightarrow> string \<Rightarrow> vk_load_error + verifying_key" where
  "load_cloud_vk fs path = (case fs_read fs path of
      Err e \<Rightarrow> Err (VkReadError e)
    | Ok b \<Rightarrow> if length b \<noteq> VERIFYING_KEY_LEN then Err (VkBadLength (length b) VERIFYING_KEY_LEN)
             else map_err VkParseError (vk_from_bytes b))"

definition cloud_key :: "filesys \<Rightarrow> valid_config \<Rightarrow> verifying_key option" where
  "cloud_key fs cfg = (case vc_cloud_vk_path cfg of
      Some path \<Rightarrow> (case load_cloud_vk fs path of Ok vk \<Rightarrow> Some vk | Err _ \<Rightarrow> None)
    | None \<Rightarrow> None)"

definition signable_of :: "string \<Rightarrow> u64 \<Rightarrow> u64 \<Rightarrow> metrics_state \<Rightarrow> signable_heartbeat" where
  "signable_of pkg_version now uptime m = (let s = snapshot m in
     \<lparr>sh_timestamp_unix = now, sh_uptime_secs = uptime, sh_status = ''healthy'', sh_version = pkg_version,
      sh_metrics = \<lparr>hm_connections_active = snap_connections_active s, hm_connections_total = snap_connections_total s,
        hm_bytes_transmitted_total = snap_bytes_transmitted_total s,
        hm_channel_errors_total = snap_channel_errors_total s\<rparr>\<rparr>)"

text \<open>The commands that go to the command channel.\<close>

definition forwarded :: "heartbeat_response \<Rightarrow> bridge_command list" where
  "forwarded hb = filter (\<lambda>c. c \<noteq> Unknown_Cmd)
     (case pending_commands hb of Some cs \<Rightarrow> cs | None \<Rightarrow> [])"

text \<open>One tick of the loop: its clock readings, the metrics at that moment, and the HTTP outcome.\<close>

record tick =
  tick_now :: u64
  tick_checked_at :: u64 \<comment> \<open>the clock when the response is checked\<close>
  tick_uptime :: u64
  tick_metrics :: metrics_state
  tick_http :: http_outcome

fun heartbeat_loop ::
  "sig_prims \<Rightarrow> ('r, 'x, 'dk, 'ek) kex_prims \<Rightarrow> cp_codec \<Rightarrow> string \<Rightarrow> valid_config \<Rightarrow> string \<Rightarrow> identity \<Rightarrow>
   verifying_key option \<Rightarrow> tick list \<Rightarrow> 'r \<Rightarrow> bridge_command list" where
  "heartbeat_loop G K J pkg cfg agent_id ident cloud_vk [] r = []"
| "heartbeat_loop G K J pkg cfg agent_id ident cloud_vk (t # ts) r =
    (case send_heartbeat G K J cfg agent_id (signable_of pkg (tick_now t) (tick_uptime t) (tick_metrics t)) ident
        cloud_vk (tick_http t) (tick_checked_at t) r of
       (Err _, r') \<Rightarrow> heartbeat_loop G K J pkg cfg agent_id ident cloud_vk ts r'
     | (Ok hb, r') \<Rightarrow> forwarded hb @ heartbeat_loop G K J pkg cfg agent_id ident cloud_vk ts r')"

text \<open>\<open>start\<close>: the commands it sends until the ticks end. \<open>client_ok\<close> says that the HTTP client could be
  built, \<open>reg\<close> is the outcome of the registration request.\<close>

definition control_plane_start ::
  "sig_prims \<Rightarrow> ('r, 'x, 'dk, 'ek) kex_prims \<Rightarrow> cp_codec \<Rightarrow> string \<Rightarrow> filesys \<Rightarrow> valid_config \<Rightarrow> identity \<Rightarrow> bool \<Rightarrow>
   http_outcome \<Rightarrow> tick list \<Rightarrow> 'r \<Rightarrow> bridge_command list" where
  "control_plane_start G K J pkg fs cfg ident client_ok reg ticks r =
    (let cloud_vk = cloud_key fs cfg
     in if \<not> client_ok then []
        else (case try_register J reg of
            None \<Rightarrow> []
          | Some agent_id \<Rightarrow> heartbeat_loop G K J pkg cfg agent_id ident cloud_vk ticks r))"

section \<open>Freshness\<close>

lemma sint_i64_range: "- (2 ^ 63) \<le> sint (x :: u64)" "sint (x :: u64) < 2 ^ 63"
  using sint_ge [of x] sint_lt [of x] by simp_all

text \<open>The checked and saturating arithmetic decides the mathematical condition, for all time stamps.\<close>

lemma drift_fresh_iff: "drift now ts \<le> SIGNED_RESPONSE_FRESHNESS_SECS \<longleftrightarrow> \<bar>sint now - sint ts\<bar> \<le> 300"
proof (cases "- (2 ^ 63) \<le> sint now - sint ts \<and> sint now - sint ts < 2 ^ 63")
  case True
  then show ?thesis
    by (auto simp: drift_def i64_checked_sub_def i64_saturating_abs_def SIGNED_RESPONSE_FRESHNESS_SECS_def Let_def)
next
  case False
  then show ?thesis
    by (auto simp: drift_def i64_checked_sub_def SIGNED_RESPONSE_FRESHNESS_SECS_def Let_def)
qed

text \<open>When the response of a heartbeat is believed.\<close>

definition response_valid :: "sig_prims \<Rightarrow> cp_codec \<Rightarrow> verifying_key \<Rightarrow> u64 \<Rightarrow> heartbeat_response \<Rightarrow> signed_response_payload \<Rightarrow> bool" where
  "response_valid G J vk now hb body \<longleftrightarrow> (\<exists>payload sig_b64 s.
     signed_payload hb = Some payload \<and> response_signature hb = Some sig_b64 \<and>
     base64_decode J sig_b64 = Some s \<and> length s = SIGNATURE_LEN \<and>
     verify G vk (as_bytes payload) (Signature s) = Ok () \<and>
     decode_payload J payload = Some body \<and> \<bar>sint now - sint (srp_ts body)\<bar> \<le> 300)"

lemma verify_response_cases:
  obtains (believed) body where "response_valid G J vk now hb body"
      "verify_response G J (Some vk) now hb =
         \<lparr>pending_commands = srp_pending_commands body, signed_payload = None, response_signature = None\<rparr>"
  | (dropped) "\<nexists>body. response_valid G J vk now hb body"
      "verify_response G J (Some vk) now hb = default_heartbeat_response"
proof (cases "\<exists>body. response_valid G J vk now hb body")
  case True
  then obtain body where v: "response_valid G J vk now hb body" ..
  then have "verify_response G J (Some vk) now hb =
         \<lparr>pending_commands = srp_pending_commands body, signed_payload = None, response_signature = None\<rparr>"
    by (auto simp: response_valid_def verify_response_def sig_from_bytes_def drift_fresh_iff [symmetric] not_less)
  with v show ?thesis by (rule believed)
next
  case False
  then have "verify_response G J (Some vk) now hb = default_heartbeat_response"
    by (auto simp: response_valid_def verify_response_def sig_from_bytes_def drift_fresh_iff [symmetric] not_less
        split: option.splits sum.splits if_splits)
  with False show ?thesis by (rule dropped)
qed

text \<open>What a heartbeat with a key returns.\<close>

lemma send_heartbeat_OkD:
  assumes "send_heartbeat G K J cfg agent_id signable ident cloud_vk out now r = (Ok hb, r')"
  obtains hb0 where "read_response J out = Ok hb0" "hb = verify_response G J cloud_vk now hb0"
  using assms by (auto simp: send_heartbeat_def split: prod.splits sum.splits)

lemma read_response_OkD:
  assumes "read_response J out = Ok hb"
  obtains resp b where "out = Ok resp" "is_success (http_status resp)" "http_body resp = Ok b"
    "length b \<le> MAX_HEARTBEAT_RESPONSE_BYTES"
    "hb = (case decode_response J b of None \<Rightarrow> default_heartbeat_response | Some h \<Rightarrow> h)"
  using assms by (auto simp: read_response_def not_less split: sum.splits if_splits)

lemma response_valid_decoded:
  "response_valid G J vk now (case d of None \<Rightarrow> default_heartbeat_response | Some h \<Rightarrow> h) body \<Longrightarrow>
   \<exists>h. d = Some h \<and> response_valid G J vk now h body"
  by (cases d) (auto simp: response_valid_def default_heartbeat_response_def)

lemma forwarded_verified:
  assumes "c \<in> set (forwarded (verify_response G J (Some vk) now hb))"
  obtains body cs where "response_valid G J vk now hb body" "srp_pending_commands body = Some cs" "c \<in> set cs"
    "c = Rotate_Cmd"
proof (cases rule: verify_response_cases [of G J vk now hb])
  case (believed body)
  then obtain cs where "srp_pending_commands body = Some cs" "c \<in> set cs" "c \<noteq> Unknown_Cmd"
    using assms by (cases "srp_pending_commands body") (auto simp: forwarded_def)
  with that believed(1) show ?thesis by (cases c) auto
next
  case dropped
  with assms show ?thesis by (simp add: forwarded_def default_heartbeat_response_def)
qed

section \<open>Properties\<close>

text \<open>C10. With a cloud key, commands need a fresh signature: every command the heartbeat task passes on is
  a \<open>Rotate\<close> from the body (at most 1 MiB) of a successful response whose \<open>signed_payload\<close> carries a
  valid signature of the cloud over exactly its bytes, lists the command, and has a time stamp within 300
  seconds of the bridge's clock. The unsigned field is never used, and no time stamp makes the
  check overflow.\<close>

theorem commands_need_a_fresh_signature:
  assumes "c \<in> set (heartbeat_loop G K J pkg cfg agent_id ident (Some vk) ticks r)"
  shows "c = Rotate_Cmd \<and> (\<exists>t \<in> set ticks. \<exists>resp b hb body cs.
     tick_http t = Ok resp \<and> is_success (http_status resp) \<and> http_body resp = Ok b \<and> length b \<le> 1024 * 1024 \<and>
     decode_response J b = Some hb \<and> response_valid G J vk (tick_checked_at t) hb body \<and>
     srp_pending_commands body = Some cs \<and> c \<in> set cs)"
  using assms
proof (induction ticks arbitrary: r)
  case Nil
  then show ?case by simp
next
  case (Cons t ticks)
  let ?sh = "signable_of pkg (tick_now t) (tick_uptime t) (tick_metrics t)"
  obtain res r' where h: "send_heartbeat G K J cfg agent_id ?sh ident (Some vk) (tick_http t) (tick_checked_at t) r = (res, r')"
    by fastforce
  show ?case
  proof (cases "c \<in> set (heartbeat_loop G K J pkg cfg agent_id ident (Some vk) ticks r')")
    case True
    from Cons.IH [OF this] show ?thesis by auto
  next
    case False
    with Cons.prems h obtain hb where hb: "res = Ok hb" "c \<in> set (forwarded hb)" by (cases res) auto
    with h obtain hb0 where r0: "read_response J (tick_http t) = Ok hb0"
      and hbv: "hb = verify_response G J (Some vk) (tick_checked_at t) hb0" by (auto elim!: send_heartbeat_OkD)
    from hb(2) obtain body cs where v: "response_valid G J vk (tick_checked_at t) hb0 body"
      "srp_pending_commands body = Some cs" "c \<in> set cs" "c = Rotate_Cmd" unfolding hbv by (rule forwarded_verified)
    from r0 obtain resp b where o: "tick_http t = Ok resp" "is_success (http_status resp)" "http_body resp = Ok b"
      "length b \<le> MAX_HEARTBEAT_RESPONSE_BYTES"
      "hb0 = (case decode_response J b of None \<Rightarrow> default_heartbeat_response | Some h \<Rightarrow> h)"
      by (rule read_response_OkD)
    from response_valid_decoded [OF v(1) [unfolded o(5)]] obtain h where
      "decode_response J b = Some h" "response_valid G J vk (tick_checked_at t) h body" by blast
    with o v show ?thesis by (auto simp: MAX_HEARTBEAT_RESPONSE_BYTES_def)
  qed
qed

definition demo_cp_codec :: cp_codec where
  "demo_cp_codec = \<lparr>encode_signable = (\<lambda>_. Some [1]),
     decode_response = (\<lambda>b. Some \<lparr>pending_commands = Some [Rotate_Cmd], signed_payload = Some ''p'',
        response_signature = Some (map char_of (map (unat :: byte \<Rightarrow> nat) b))\<rparr>),
     decode_payload = (\<lambda>_. Some \<lparr>srp_pending_commands = Some [Rotate_Cmd, Unknown_Cmd], srp_ts = 1000\<rparr>),
     decode_registration = (\<lambda>_. Some ''agent''),
     base64_encode = (\<lambda>b. []),
     base64_decode = (\<lambda>s. Some (map (\<lambda>c. word_of_nat (of_char c)) s))\<rparr>"

definition demo_tick :: tick where
  "demo_tick = \<lparr>tick_now = 1100, tick_checked_at = 1100, tick_uptime = 60, tick_metrics = metrics_state_new,
     tick_http = Ok \<lparr>http_status = 200, http_content_length = None,
       http_body = Ok (toy_signature [] (as_bytes ''p'') SIGNING_CONTEXT)\<rparr>\<rparr>"

lemma demo_base64: "base64_decode demo_cp_codec (map char_of (map (unat :: byte \<Rightarrow> nat) b)) = Some b"
  by (simp add: demo_cp_codec_def comp_def)

lemma demo_response_valid:
  "response_valid toy_sig demo_cp_codec (VerifyingKey []) 1100
     \<lparr>pending_commands = Some [Rotate_Cmd], signed_payload = Some ''p'',
      response_signature = Some (map char_of (map unat (toy_signature [] (as_bytes ''p'') SIGNING_CONTEXT)))\<rparr>
     \<lparr>srp_pending_commands = Some [Rotate_Cmd, Unknown_Cmd], srp_ts = 1000\<rparr>"
  unfolding response_valid_def
  by (rule exI [of _ "''p''"], rule exI [of _ "map char_of (map unat (toy_signature [] (as_bytes ''p'') SIGNING_CONTEXT))"],
      rule exI [of _ "toy_signature [] (as_bytes ''p'') SIGNING_CONTEXT"], unfold demo_base64)
    (simp add: layout_defs verify_def toy_sig_def SIGNING_CONTEXT_def as_bytes_def demo_cp_codec_def)

lemma demo_heartbeat:
  "heartbeat_loop toy_sig toy_kex demo_cp_codec ''1'' demo_valid ''agent''
     \<lparr>signing_key = SigningKey [], verifying_key = VerifyingKey []\<rparr> (Some (VerifyingKey [])) [demo_tick] 0 = [Rotate_Cmd]"
proof -
  let ?hb = "\<lparr>pending_commands = Some [Rotate_Cmd], signed_payload = Some ''p'',
      response_signature = Some (map char_of (map unat (toy_signature [] (as_bytes ''p'') SIGNING_CONTEXT)))\<rparr>"
  have r: "read_response demo_cp_codec (tick_http demo_tick) = Ok ?hb"
    by (simp add: read_response_def demo_tick_def is_success_def MAX_HEARTBEAT_RESPONSE_BYTES_def demo_cp_codec_def)
  have q: "\<exists>x r'. heartbeat_request toy_sig toy_kex demo_cp_codec demo_valid ''agent'' s
      \<lparr>signing_key = SigningKey [], verifying_key = VerifyingKey []\<rparr> 0 = (Ok x, r')" for s
    using toy_sign_ok [of "[1]" "SigningKey []" 0] by (auto simp: heartbeat_request_def demo_cp_codec_def)
  have "verify_response toy_sig demo_cp_codec (Some (VerifyingKey [])) 1100 ?hb =
      \<lparr>pending_commands = Some [Rotate_Cmd, Unknown_Cmd], signed_payload = None, response_signature = None\<rparr>"
  proof (cases rule: verify_response_cases [of toy_sig demo_cp_codec "VerifyingKey []" 1100 ?hb])
    case (believed body)
    then have "body = \<lparr>srp_pending_commands = Some [Rotate_Cmd, Unknown_Cmd], srp_ts = 1000\<rparr>"
      by (auto simp: response_valid_def demo_cp_codec_def)
    with believed show ?thesis by simp
  next
    case dropped
    with demo_response_valid show ?thesis by blast
  qed
  moreover have "tick_checked_at demo_tick = 1100" by (simp add: demo_tick_def)
  ultimately show ?thesis using r q [of "signable_of ''1'' (tick_now demo_tick) (tick_uptime demo_tick) (tick_metrics demo_tick)"]
    by (auto simp: send_heartbeat_def forwarded_def)
qed

theorem commands_need_a_fresh_signature_witness:
  "\<exists>b hb body. http_body (sum.projr (tick_http demo_tick)) = Ok b \<and> decode_response demo_cp_codec b = Some hb \<and>
     response_valid toy_sig demo_cp_codec (VerifyingKey []) 1100 hb body"
proof -
  have "Rotate_Cmd \<in> set (heartbeat_loop toy_sig toy_kex demo_cp_codec ''1'' demo_valid ''agent''
     \<lparr>signing_key = SigningKey [], verifying_key = VerifyingKey []\<rparr> (Some (VerifyingKey [])) [demo_tick] 0)"
    unfolding demo_heartbeat by simp
  from commands_need_a_fresh_signature [OF this] show ?thesis by (auto simp: demo_tick_def)
qed

text \<open>The replay window: a response that was believed once is believed again exactly while its time
  stamp is within 300 seconds of the bridge's clock, with the same commands each time. After 600 seconds
  at the latest a captured response is worthless, but inside the window nothing marks it as used.\<close>

theorem captured_response_window:
  assumes "response_valid G J vk now hb body"
  shows "(\<bar>sint now' - sint (srp_ts body)\<bar> \<le> 300 \<longrightarrow>
       verify_response G J (Some vk) now' hb = verify_response G J (Some vk) now hb) \<and>
     (600 < \<bar>sint now' - sint now\<bar> \<longrightarrow> verify_response G J (Some vk) now' hb = default_heartbeat_response)"
proof -
  have u: "response_valid G J vk t hb x \<longleftrightarrow> x = body \<and> \<bar>sint t - sint (srp_ts body)\<bar> \<le> 300" for t x
    using assms by (auto simp: response_valid_def)
  have f: "verify_response G J (Some vk) t hb = (if \<bar>sint t - sint (srp_ts body)\<bar> \<le> 300
      then \<lparr>pending_commands = srp_pending_commands body, signed_payload = None, response_signature = None\<rparr>
      else default_heartbeat_response)" for t
    by (cases rule: verify_response_cases [of G J vk t hb]) (auto simp: u)
  have "\<bar>sint now - sint (srp_ts body)\<bar> \<le> 300" using assms u by blast
  then show ?thesis unfolding f by auto
qed

theorem captured_response_window_witness:
  "\<exists>hb. verify_response toy_sig demo_cp_codec (Some (VerifyingKey [])) 1200 hb =
        verify_response toy_sig demo_cp_codec (Some (VerifyingKey [])) 1100 hb \<and>
      verify_response toy_sig demo_cp_codec (Some (VerifyingKey [])) 1701 hb = default_heartbeat_response"
  using captured_response_window [OF demo_response_valid, of 1200] captured_response_window [OF demo_response_valid, of 1701]
  by (intro exI conjI) simp_all

text \<open>C29. An unreadable cloud key turns verification off: when \<open>cloud_vk_path\<close> is configured but the file
  is missing or does not have 1952 bytes, the task runs as if no key were configured, and
  the unsigned commands of a response are passed on.\<close>

theorem unreadable_cloud_key_disables_verification:
  assumes "vc_cloud_vk_path cfg = Some path"
    and "case fs path of None \<Rightarrow> True | Some f \<Rightarrow> length (f_data f) \<noteq> VERIFYING_KEY_LEN"
    and "try_register J reg = Some agent_id"
    and "heartbeat_request G K J cfg agent_id (signable_of pkg (tick_now t) (tick_uptime t) (tick_metrics t)) ident r = (Ok req, r')"
    and "read_response J (tick_http t) = Ok hb" "pending_commands hb = Some cs" "response_signature hb = None"
  shows "control_plane_start G K J pkg fs cfg ident True reg [t] r = filter (\<lambda>c. c \<noteq> Unknown_Cmd) cs"
proof -
  have "cloud_key fs cfg = None"
    using assms(1,2) by (auto simp: cloud_key_def load_cloud_vk_def fs_read_def split: option.splits)
  with assms(3-6) show ?thesis
    by (simp add: control_plane_start_def send_heartbeat_def verify_response_def forwarded_def)
qed

theorem unreadable_cloud_key_disables_verification_witness:
  "\<exists>J reg t. control_plane_start toy_sig toy_kex J ''1'' (\<lambda>_. None) (demo_valid\<lparr>vc_cloud_vk_path := Some ''cloud.vk''\<rparr>)
     \<lparr>signing_key = SigningKey [], verifying_key = VerifyingKey []\<rparr> True reg [t] 0 = [Rotate_Cmd]"
proof -
  let ?J = "demo_cp_codec\<lparr>decode_response := (\<lambda>b. Some \<lparr>pending_commands = Some [Rotate_Cmd], signed_payload = None,
     response_signature = None\<rparr>)\<rparr>"
  let ?reg = "Ok \<lparr>http_status = 200, http_content_length = None, http_body = Ok []\<rparr> :: http_outcome"
  let ?cfg = "demo_valid\<lparr>vc_cloud_vk_path := Some ''cloud.vk''\<rparr>"
  let ?id = "\<lparr>signing_key = SigningKey [], verifying_key = VerifyingKey []\<rparr>"
  have p: "vc_cloud_vk_path ?cfg = Some ''cloud.vk''" by simp
  have g: "try_register ?J ?reg = Some ''agent''" by (simp add: try_register_def is_success_def demo_cp_codec_def)
  obtain x r' where q: "heartbeat_request toy_sig toy_kex ?J ?cfg ''agent''
      (signable_of ''1'' (tick_now demo_tick) (tick_uptime demo_tick) (tick_metrics demo_tick)) ?id 0 = (Ok x, r')"
    using toy_sign_ok [of "[1]" "SigningKey []" 0] by (auto simp: heartbeat_request_def demo_cp_codec_def)
  have h: "read_response ?J (tick_http demo_tick) = Ok \<lparr>pending_commands = Some [Rotate_Cmd], signed_payload = None, response_signature = None\<rparr>"
    by (simp add: read_response_def demo_tick_def is_success_def MAX_HEARTBEAT_RESPONSE_BYTES_def)
  have "control_plane_start toy_sig toy_kex ?J ''1'' (\<lambda>_. None) ?cfg ?id True ?reg [demo_tick] 0 = filter (\<lambda>c. c \<noteq> Unknown_Cmd) [Rotate_Cmd]"
    by (rule unreadable_cloud_key_disables_verification [OF p _ g q h]) simp_all
  then show ?thesis by (intro exI) simp
qed

end
