(* ===== verification/Http_Relay.thy ===== *)
theory Http_Relay
  imports Prelude
begin

text \<open>
  The byte relays of the bridge: \<open>latticeshield-bridge/src/http_relay.rs\<close> (\<open>parse_head\<close>,
  \<open>HttpRelay::handle\<close>, \<open>HttpRelay::handle_with_preread\<close>) and the stream relay of \<open>quic.rs\<close>
  (\<open>QuicRelay::relay_connection\<close>, \<open>QuicRelay::relay_stream\<close>).

  The request parser of \<open>httparse\<close> is a parameter. The reading half of a connection is the list of
  what its next reads return; \<open>Ok []\<close> is the end of file, and the end of the list means that nothing
  more has arrived so far. Two copies run concurrently: a schedule says which of them moves next. One
  move of a copy reads a chunk and writes it.
\<close>

section \<open>Request heads\<close>

datatype httparse_error = HttparseError

datatype parse_status =
    Complete (consumed: nat) (req_method: "string option") (req_path: "string option")
  | Partial

type_synonym httparse = "bytes \<Rightarrow> httparse_error + parse_status"
type_synonym reads = "(io_error + bytes) list"

definition HEAD_BUF_MAX :: nat where "HEAD_BUF_MAX = 8 * 1024"

definition parse_head :: "httparse \<Rightarrow> bytes \<Rightarrow> httparse_error + nat option" where
  "parse_head parser buf = (case parser buf of
      Err e \<Rightarrow> Err e
    | Ok (Complete n _ _) \<Rightarrow> Ok (Some n)
    | Ok Partial \<Rightarrow> Ok None)"

definition crlf :: string where "crlf = [CHR 0x0D, CHR 0x0A]"

definition bad_request :: bytes where
  "bad_request = ascii (''HTTP/1.1 400 Bad Request'' @ crlf @ ''Content-Length: 0'' @ crlf @ ''Connection: close'' @ crlf @ crlf)"

definition bad_gateway :: bytes where
  "bad_gateway = ascii (''HTTP/1.1 502 Bad Gateway'' @ crlf @ ''Content-Length: 0'' @ crlf @ ''Connection: close'' @ crlf @ crlf)"

datatype head_outcome = HeadPending | HeadReadError io_error | HeadClosed | HeadRefused | HeadRead bytes

text \<open>The reading loop of \<open>HttpRelay::handle\<close>.\<close>

fun http_read_head :: "httparse \<Rightarrow> bytes \<Rightarrow> reads \<Rightarrow> head_outcome \<times> reads" where
  "http_read_head parser buf [] = (HeadPending, [])"
| "http_read_head parser buf (Err e # rs) = (HeadReadError e, rs)"
| "http_read_head parser buf (Ok chunk # rs) =
    (if chunk = [] then (HeadClosed, rs)
     else (let buf' = buf @ chunk
           in case parse_head parser buf' of
                Ok (Some _) \<Rightarrow> (HeadRead buf', rs)
              | Ok None \<Rightarrow> if HEAD_BUF_MAX \<le> length buf' then (HeadRefused, rs) else http_read_head parser buf' rs
              | Err _ \<Rightarrow> (HeadRefused, rs)))"

section \<open>Copying\<close>

record copy =
  cp_reads :: reads
  cp_w :: writer

datatype copy_status = Copying | Copied | CopyFailed io_error

text \<open>One move of \<open>tokio::io::copy\<close>.\<close>

definition copy_step :: "copy \<Rightarrow> copy_status \<times> copy" where
  "copy_step c = (case cp_reads c of
      [] \<Rightarrow> (Copying, c)
    | Err e # rs \<Rightarrow> (CopyFailed e, c\<lparr>cp_reads := rs\<rparr>)
    | Ok chunk # rs \<Rightarrow>
        if chunk = []
        then (case flush_writer (cp_w c) of Ok _ \<Rightarrow> (Copied, c\<lparr>cp_reads := rs\<rparr>) | Err e \<Rightarrow> (CopyFailed e, c\<lparr>cp_reads := rs\<rparr>))
        else (case write_all chunk (cp_w c) of
            (Ok _, w') \<Rightarrow> (Copying, \<lparr>cp_reads = rs, cp_w = w'\<rparr>)
          | (Err e, w') \<Rightarrow> (CopyFailed e, \<lparr>cp_reads = rs, cp_w = w'\<rparr>)))"

text \<open>\<open>tokio::select!\<close> of two copies: the first that ends decides, the other is dropped where it is.\<close>

fun copy_select :: "bool list \<Rightarrow> copy \<Rightarrow> copy \<Rightarrow> copy_status \<times> copy \<times> copy" where
  "copy_select [] a b = (Copying, a, b)"
| "copy_select (first # sched) a b =
    (if first
     then (case copy_step a of (Copying, a') \<Rightarrow> copy_select sched a' b | (s, a') \<Rightarrow> (s, a', b))
     else (case copy_step b of (Copying, b') \<Rightarrow> copy_select sched a b' | (s, b') \<Rightarrow> (s, a, b')))"

text \<open>\<open>tokio::try_join!\<close> of two copies: it ends when both have ended, or with the first failure.\<close>

fun copy_join :: "bool list \<Rightarrow> bool \<Rightarrow> copy \<Rightarrow> bool \<Rightarrow> copy \<Rightarrow> copy_status \<times> copy \<times> copy" where
  "copy_join [] da a db b = (if da \<and> db then Copied else Copying, a, b)"
| "copy_join (first # sched) da a db b =
    (if da \<and> db then (Copied, a, b)
     else if first
     then (if da then copy_join sched da a db b
           else (case copy_step a of
               (Copying, a') \<Rightarrow> copy_join sched False a' db b
             | (Copied, a') \<Rightarrow> copy_join sched True a' db b
             | (CopyFailed e, a') \<Rightarrow> (CopyFailed e, a', b)))
     else (if db then copy_join sched da a db b
           else (case copy_step b of
               (Copying, b') \<Rightarrow> copy_join sched da a False b'
             | (Copied, b') \<Rightarrow> copy_join sched da a True b'
             | (CopyFailed e, b') \<Rightarrow> (CopyFailed e, a, b'))))"

section \<open>Relays\<close>

datatype http_relay_status =
    RelayRunning | RelayDone | RelayFailed io_error

fun relay_result :: "copy_status \<Rightarrow> http_relay_status" where
  "relay_result Copying = RelayRunning"
| "relay_result Copied = RelayDone"
| "relay_result (CopyFailed e) = RelayFailed e"

text \<open>\<open>HttpRelay::handle_with_preread\<close>: the status, the client's writer, and the backend's writer when
  the backend could be reached. \<open>backend\<close> is the result of connecting.\<close>

definition handle_with_preread ::
  "io_error + reads \<times> writer \<Rightarrow> bool list \<Rightarrow> bytes \<Rightarrow> reads \<Rightarrow> writer \<Rightarrow> http_relay_status \<times> writer \<times> writer option" where
  "handle_with_preread backend sched preread client_r client_w = (case backend of
      Err _ \<Rightarrow> (RelayDone, snd (write_all bad_gateway client_w), None)
    | Ok (backend_r, backend_w) \<Rightarrow> (case write_all preread backend_w of
        (Err e, w') \<Rightarrow> (RelayFailed e, client_w, Some w')
      | (Ok _, w') \<Rightarrow>
          (case copy_select sched \<lparr>cp_reads = client_r, cp_w = w'\<rparr> \<lparr>cp_reads = backend_r, cp_w = client_w\<rparr> of
             (s, a, b) \<Rightarrow> (relay_result s, cp_w b, Some (cp_w a)))))"

text \<open>\<open>HttpRelay::handle\<close>.\<close>

definition http_handle ::
  "httparse \<Rightarrow> io_error + reads \<times> writer \<Rightarrow> bool list \<Rightarrow> reads \<Rightarrow> writer \<Rightarrow> http_relay_status \<times> writer \<times> writer option" where
  "http_handle parser backend sched client_r client_w = (case http_read_head parser [] client_r of
      (HeadPending, _) \<Rightarrow> (RelayRunning, client_w, None)
    | (HeadReadError e, _) \<Rightarrow> (RelayFailed e, client_w, None)
    | (HeadClosed, _) \<Rightarrow> (RelayDone, client_w, None)
    | (HeadRefused, _) \<Rightarrow> (RelayDone, snd (write_all bad_request client_w), None)
    | (HeadRead buf, rs) \<Rightarrow> handle_with_preread backend sched buf rs client_w)"

text \<open>\<open>QuicRelay::relay_stream\<close>; the last component says whether \<open>finish\<close> was called on the stream.\<close>

definition relay_stream ::
  "io_error + reads \<times> writer \<Rightarrow> bool list \<Rightarrow> reads \<Rightarrow> writer \<Rightarrow> http_relay_status \<times> writer \<times> writer option \<times> bool" where
  "relay_stream backend sched recv send = (case backend of
      Err e \<Rightarrow> (RelayFailed e, send, None, False)
    | Ok (backend_r, backend_w) \<Rightarrow>
        (case copy_join sched False \<lparr>cp_reads = recv, cp_w = backend_w\<rparr> False \<lparr>cp_reads = backend_r, cp_w = send\<rparr> of
           (Copying, a, b) \<Rightarrow> (RelayRunning, cp_w b, Some (cp_w a), False)
         | (_, a, b) \<Rightarrow> (RelayDone, cp_w b, Some (cp_w a), True)))"

text \<open>\<open>QuicRelay::relay_connection\<close> on the results of its \<open>accept_bi\<close> calls: how it ended, and the
  streams it spawned a relay for.\<close>

datatype connection_error = ApplicationClosed | LocallyClosed | OtherConnectionError

fun relay_connection :: "(connection_error + 'stream) list \<Rightarrow> (connection_error + unit) option \<times> 'stream list" where
  "relay_connection [] = (None, [])"
| "relay_connection (Ok stream # rs) = (case relay_connection rs of (res, ss) \<Rightarrow> (res, stream # ss))"
| "relay_connection (Err e # rs) = (Some (if e = OtherConnectionError then Err e else Ok ()), [])"

section \<open>What a copy delivers\<close>

text \<open>The bytes of a reading half: all chunks before its end of file or its failure.\<close>

fun data_of :: "reads \<Rightarrow> bytes" where
  "data_of [] = []"
| "data_of (Err e # rs) = []"
| "data_of (Ok chunk # rs) = (if chunk = [] then [] else chunk @ data_of rs)"

text \<open>\<open>copies c0 c\<close>: from \<open>c0\<close> on, what was written is the part of the source that is no longer to come.\<close>

definition copies :: "copy \<Rightarrow> copy \<Rightarrow> bool" where
  "copies c0 c \<longleftrightarrow> (\<exists>d. w_sent (cp_w c) = w_sent (cp_w c0) @ d \<and> data_of (cp_reads c0) = d @ data_of (cp_reads c))"

definition delivered_part :: "copy \<Rightarrow> copy \<Rightarrow> bool" where
  "delivered_part c0 c \<longleftrightarrow> (\<exists>d. w_sent (cp_w c) = w_sent (cp_w c0) @ d \<and> prefix d (data_of (cp_reads c0)))"

lemma copies_refl [simp]: "copies c c"
  by (simp add: copies_def)

lemma copies_delivered: "copies c0 c \<Longrightarrow> delivered_part c0 c"
  by (auto simp: copies_def delivered_part_def)

lemma copies_trans: "copies a b \<Longrightarrow> copies b c \<Longrightarrow> copies a c"
  by (force simp: copies_def)

lemma copies_delivered_trans: "copies a b \<Longrightarrow> delivered_part b c \<Longrightarrow> delivered_part a c"
  by (force simp: copies_def delivered_part_def)

lemma copy_step_Copying: "copy_step c = (Copying, c') \<Longrightarrow> copies c c'"
  by (auto simp: copy_step_def copies_def dest!: write_all_OkD split: list.splits sum.splits if_splits prod.splits)

lemma copy_step_delivered: "copy_step c = (s, c') \<Longrightarrow> delivered_part c c'"
  by (auto simp: copy_step_def delivered_part_def dest!: write_all_OkD write_all_ErrD
      split: list.splits sum.splits if_splits prod.splits)

lemma copy_select_delivered:
  "copy_select sched a b = (s, a', b') \<Longrightarrow> delivered_part a a' \<and> delivered_part b b'"
proof (induction sched arbitrary: a b)
  case Nil
  then show ?case by (auto simp: copies_delivered)
next
  case (Cons first sched)
  obtain s1 c1 where c: "copy_step (if first then a else b) = (s1, c1)" by (cases "copy_step (if first then a else b)")
  show ?case
  proof (cases s1)
    case Copying
    with c have k: "copies (if first then a else b) c1" by (simp add: copy_step_Copying)
    from Copying c Cons.prems have "copy_select sched (if first then c1 else a) (if first then b else c1) = (s, a', b')"
      by (cases first) auto
    from Cons.IH [OF this] k show ?thesis by (cases first) (auto intro: copies_delivered_trans)
  next
    case Copied
    with c Cons.prems copy_step_delivered [OF c] show ?thesis by (cases first) (auto simp: copies_delivered)
  next
    case (CopyFailed e)
    with c Cons.prems copy_step_delivered [OF c] show ?thesis by (cases first) (auto simp: copies_delivered)
  qed
qed

lemma relay_delivers:
  assumes "handle_with_preread (Ok (backend_r, backend_w)) sched preread client_r client_w = (s, cw, Some bw)"
  shows "\<exists>d e. w_sent bw = w_sent backend_w @ d \<and> prefix d (preread @ data_of client_r) \<and>
    w_sent cw = w_sent client_w @ e \<and> prefix e (data_of backend_r)"
proof (cases "write_all preread backend_w")
  case (Pair res w)
  show ?thesis
  proof (cases res)
    case (Inl e)
    with Pair assms have "bw = w" "cw = client_w" by (auto simp: handle_with_preread_def)
    moreover from write_all_ErrD [of preread backend_w e w] Pair Inl
    obtain p where "strict_prefix p preread" "w_sent w = w_sent backend_w @ p" by auto
    ultimately show ?thesis by (auto simp: strict_prefix_def intro: prefix_prefix)
  next
    case (Inr u)
    then have w: "w_sent w = w_sent backend_w @ preread" using Pair by (auto dest: write_all_OkD)
    from assms Pair Inr obtain st a b where
      "copy_select sched \<lparr>cp_reads = client_r, cp_w = w\<rparr> \<lparr>cp_reads = backend_r, cp_w = client_w\<rparr> = (st, a, b)"
      and "cw = cp_w b" "bw = cp_w a" by (auto simp: handle_with_preread_def split: prod.splits)
    with w copy_select_delivered [OF this(1)] show ?thesis by (auto simp: delivered_part_def)
  qed
qed

text \<open>The HTTP relay is transparent: under every schedule, and whatever fails, the backend receives a
  prefix of the bytes already read from the client followed by the bytes the client sends, unchanged and
  in order, and the client receives a prefix of what the backend sends.\<close>

theorem http_relay_verbatim:
  assumes "handle_with_preread (Ok (backend_r, backend_w)) sched preread client_r client_w = (s, cw, Some bw)"
  shows "\<exists>d e. w_sent bw = w_sent backend_w @ d \<and> prefix d (preread @ data_of client_r) \<and>
    w_sent cw = w_sent client_w @ e \<and> prefix e (data_of backend_r)"
  using assms by (rule relay_delivers)

theorem http_relay_verbatim_witness:
  "\<exists>d e. w_sent (open_writer\<lparr>w_sent := [1, 2]\<rparr>) = w_sent open_writer @ d \<and> prefix d ([1] @ data_of [Ok [2]]) \<and>
    w_sent (open_writer\<lparr>w_sent := [7]\<rparr>) = w_sent open_writer @ e \<and> prefix e (data_of [Ok [7], Ok []])"
  by (rule http_relay_verbatim [where sched = "[True, False, False]" and s = RelayDone])
    (simp add: handle_with_preread_def copy_step_def write_all_unbounded open_writer_def flush_writer_def)

section \<open>Half-closed connections\<close>

text \<open>C31. The HTTP relay does not wait for the answer: when the client has sent its request and closes its
  sending side before the backend has answered, the relay ends at once with success, and whatever the
  backend would send, nothing of it reaches the client.\<close>

theorem http_half_close_drops_response:
  assumes "w_budget backend_w = None" "w_flush_ok backend_w"
  shows "handle_with_preread (Ok (backend_r, backend_w)) (True # sched) preread (Ok [] # client_r) client_w =
    (RelayDone, client_w, Some (backend_w\<lparr>w_sent := w_sent backend_w @ preread\<rparr>))"
  using assms by (simp add: handle_with_preread_def write_all_unbounded copy_step_def flush_writer_def)

theorem http_half_close_drops_response_witness:
  "handle_with_preread (Ok ([Ok [7, 7], Ok []], open_writer)) [True, False, False] [1, 2] [Ok []] open_writer =
    (RelayDone, open_writer, Some (open_writer\<lparr>w_sent := [1, 2]\<rparr>))"
  using http_half_close_drops_response [of open_writer "[Ok [7, 7], Ok []]" "[False, False]" "[1, 2]" "[]" open_writer]
  by (simp add: open_writer_def)

text \<open>A copy whose source ends properly and whose writer accepts everything.\<close>

definition ready :: "copy \<Rightarrow> bool" where
  "ready c \<longleftrightarrow> (\<exists>xs. cp_reads c = map Ok xs @ [Ok []] \<and> [] \<notin> set xs) \<and> w_budget (cp_w c) = None \<and> w_flush_ok (cp_w c)"

definition completed :: "copy \<Rightarrow> copy" where
  "completed c = \<lparr>cp_reads = [], cp_w = (cp_w c)\<lparr>w_sent := w_sent (cp_w c) @ data_of (cp_reads c)\<rparr>\<rparr>"

lemma ready_step:
  assumes "ready c"
  shows "copy_step c = (Copied, completed c) \<and> length (cp_reads c) = 1 \<or>
    (\<exists>c'. copy_step c = (Copying, c') \<and> ready c' \<and> completed c' = completed c \<and> length (cp_reads c) = Suc (length (cp_reads c')))"
proof -
  from assms obtain xs where xs: "cp_reads c = map Ok xs @ [Ok []]" "[] \<notin> set xs"
    and w: "w_budget (cp_w c) = None" "w_flush_ok (cp_w c)" by (auto simp: ready_def)
  show ?thesis
  proof (cases xs)
    case Nil
    with xs w show ?thesis by (simp add: copy_step_def completed_def flush_writer_def)
  next
    case (Cons x ys)
    with xs w show ?thesis by (auto simp: copy_step_def completed_def ready_def write_all_unbounded)
  qed
qed

lemma ready_nonempty: "ready c \<Longrightarrow> 0 < length (cp_reads c)"
  by (auto simp: ready_def)

lemma copy_join_completes:
  assumes "da \<or> ready a \<and> length (cp_reads a) \<le> count_list sched True"
    and "db \<or> ready b \<and> length (cp_reads b) \<le> count_list sched False"
  shows "copy_join sched da a db b = (Copied, if da then a else completed a, if db then b else completed b)"
  using assms
proof (induction sched arbitrary: da a db b)
  case Nil
  then show ?case using ready_nonempty by fastforce
next
  case (Cons first sched)
  show ?case
  proof (cases first)
    case True
    show ?thesis
    proof (cases da)
      case False
      with Cons.prems(1) have "ready a" by simp
      from ready_step [OF this] show ?thesis
      proof (elim disjE exE conjE)
        assume "copy_step a = (Copied, completed a)"
        with Cons.IH [of True "completed a" db b] Cons.prems(2) True False show ?thesis by simp
      next
        fix a' assume "copy_step a = (Copying, a')" "ready a'" "completed a' = completed a"
          "length (cp_reads a) = Suc (length (cp_reads a'))"
        with Cons.IH [of False a' db b] Cons.prems True False show ?thesis by simp
      qed
    qed (use Cons True in auto)
  next
    case False
    show ?thesis
    proof (cases db)
      case f: False
      with Cons.prems(2) have "ready b" by simp
      from ready_step [OF this] show ?thesis
      proof (elim disjE exE conjE)
        assume "copy_step b = (Copied, completed b)"
        with Cons.IH [of da a True "completed b"] Cons.prems(1) f False show ?thesis by simp
      next
        fix b' assume "copy_step b = (Copying, b')" "ready b'" "completed b' = completed b"
          "length (cp_reads b) = Suc (length (cp_reads b'))"
        with Cons.IH [of da a False b'] Cons.prems f False show ?thesis by simp
      qed
    qed (use Cons False in auto)
  qed
qed

text \<open>C30. The QUIC relay delivers both directions completely: when both sides end their data properly and
  no write fails, then under every schedule that lets each side move often enough the backend receives
  exactly what the client sent, the client receives exactly what the backend sent, and the stream is
  finished, in whatever order the two directions end.\<close>

theorem quic_stream_delivers_both_ways:
  assumes "ready \<lparr>cp_reads = recv, cp_w = backend_w\<rparr>" "ready \<lparr>cp_reads = backend_r, cp_w = send\<rparr>"
    and "length recv \<le> count_list sched True" "length backend_r \<le> count_list sched False"
  shows "relay_stream (Ok (backend_r, backend_w)) sched recv send =
    (RelayDone, send\<lparr>w_sent := w_sent send @ data_of backend_r\<rparr>,
     Some (backend_w\<lparr>w_sent := w_sent backend_w @ data_of recv\<rparr>), True)"
  using assms by (simp add: relay_stream_def copy_join_completes completed_def)

theorem quic_stream_delivers_both_ways_witness:
  "relay_stream (Ok ([Ok [7, 7], Ok []], open_writer)) [True, True, False, False] [Ok [1 :: byte], Ok []] open_writer =
    (RelayDone, open_writer\<lparr>w_sent := [7, 7]\<rparr>, Some (open_writer\<lparr>w_sent := [1]\<rparr>), True)"
proof -
  have r: "ready \<lparr>cp_reads = [Ok x, Ok []], cp_w = open_writer\<rparr>" if "x \<noteq> []" for x
    unfolding ready_def using that by (auto simp: open_writer_def intro!: exI [of _ "[x]"])
  show ?thesis
    using quic_stream_delivers_both_ways [of "[Ok [1], Ok []]" open_writer "[Ok [7, 7], Ok []]" open_writer
        "[True, True, False, False]"] r by (simp add: open_writer_def)
qed

end
