(* ===== verification/Tls.thy ===== *)
theory Tls
  imports Identity Bridge_Config
begin

text \<open>
  TLS set-up of the bridge, \<open>latticeshield-bridge/src/tls.rs\<close> (\<open>load_certs\<close>, \<open>load_key\<close>,
  \<open>build_server_config\<close>, \<open>build_acceptor\<close>, \<open>generate_self_signed\<close>), and \<open>build_endpoint\<close> of
  \<open>quic.rs\<close>. The PEM reader, the check of a certificate against its key, and what \<open>rcgen\<close> generated
  are parameters; the TLS protocol itself belongs to \<open>rustls\<close>.
\<close>

record pem_reader =
  pem_certs :: "bytes \<Rightarrow> io_error + bytes list"
  pem_private_key :: "bytes \<Rightarrow> io_error + bytes option"
  single_cert_ok :: "bytes list \<Rightarrow> bytes \<Rightarrow> bool"

datatype tls_error =
    CertOpen io_error | CertParse io_error | NoCertificates
  | KeyOpen io_error | KeyParse io_error | NoPrivateKey
  | InvalidPair | QuinnCrypto | EndpointBind io_error

datatype tls_version = TLS12 | TLS13

record tls_server_config =
  tsc_versions :: "tls_version list"
  tsc_client_auth :: bool
  tsc_certs :: "bytes list"
  tsc_key :: bytes

definition load_certs :: "pem_reader \<Rightarrow> filesys \<Rightarrow> string \<Rightarrow> tls_error + bytes list" where
  "load_certs R fs path = (case fs_read fs path of
      Err e \<Rightarrow> Err (CertOpen e)
    | Ok b \<Rightarrow> (case pem_certs R b of
        Err e \<Rightarrow> Err (CertParse e)
      | Ok certs \<Rightarrow> if certs = [] then Err NoCertificates else Ok certs))"

definition load_key :: "pem_reader \<Rightarrow> filesys \<Rightarrow> string \<Rightarrow> tls_error + bytes" where
  "load_key R fs path = (case fs_read fs path of
      Err e \<Rightarrow> Err (KeyOpen e)
    | Ok b \<Rightarrow> (case pem_private_key R b of
        Err e \<Rightarrow> Err (KeyParse e)
      | Ok None \<Rightarrow> Err NoPrivateKey
      | Ok (Some k) \<Rightarrow> Ok k))"

definition build_server_config :: "pem_reader \<Rightarrow> filesys \<Rightarrow> string \<Rightarrow> string \<Rightarrow> tls_error + tls_server_config" where
  "build_server_config R fs cert_path key_path =
    and_then (load_certs R fs cert_path) (\<lambda>certs.
    and_then (load_key R fs key_path) (\<lambda>key.
    if single_cert_ok R certs key
    then Ok \<lparr>tsc_versions = [TLS13], tsc_client_auth = False, tsc_certs = certs, tsc_key = key\<rparr>
    else Err InvalidPair))"

text \<open>\<open>TlsAcceptor::from\<close> wraps the configuration.\<close>

definition build_acceptor :: "pem_reader \<Rightarrow> filesys \<Rightarrow> string \<Rightarrow> string \<Rightarrow> tls_error + tls_server_config" where
  "build_acceptor R fs cert_path key_path = build_server_config R fs cert_path key_path"

text \<open>\<open>build_endpoint\<close>; \<open>crypto_ok\<close> says whether quinn accepts the TLS configuration, \<open>bind\<close> is the
  outcome of binding the socket.\<close>

record quic_endpoint =
  qe_config :: tls_server_config
  qe_max_bidi_streams :: nat
  qe_addr :: socket_addr

definition build_endpoint ::
  "pem_reader \<Rightarrow> (tls_server_config \<Rightarrow> bool) \<Rightarrow> io_error + unit \<Rightarrow> filesys \<Rightarrow> string \<Rightarrow> string \<Rightarrow> socket_addr \<Rightarrow>
   tls_error + quic_endpoint" where
  "build_endpoint R crypto_ok bind fs cert_path key_path listen_addr =
    and_then (build_server_config R fs cert_path key_path) (\<lambda>rustls_config.
    if \<not> crypto_ok rustls_config then Err QuinnCrypto
    else (case bind of
        Err e \<Rightarrow> Err (EndpointBind e)
      | Ok _ \<Rightarrow> Ok \<lparr>qe_config = rustls_config, qe_max_bidi_streams = 100, qe_addr = listen_addr\<rparr>))"

section \<open>Self-signed certificates\<close>

definition fs_set_mode :: "filesys \<Rightarrow> string \<Rightarrow> nat \<Rightarrow> (io_error + unit) \<times> filesys" where
  "fs_set_mode fs p mode = (case fs p of
      None \<Rightarrow> (Err NotFound, fs) | Some f \<Rightarrow> (Ok (), fs(p \<mapsto> f\<lparr>f_mode := mode\<rparr>)))"

datatype self_signed_error = CreateDir io_error | Rcgen | WriteCert io_error | CertMode io_error | WriteKey io_error

text \<open>\<open>generate_self_signed\<close>. \<open>mkdir\<close> is the outcome of \<open>create_dir_all\<close>, \<open>rcgen\<close> the certificate and
  the key it generated, \<open>default_mode\<close> the mode the process gives to a file it creates without one.\<close>

definition generate_self_signed ::
  "io_error + unit \<Rightarrow> (string \<times> string) option \<Rightarrow> nat \<Rightarrow> filesys \<Rightarrow> string \<Rightarrow> (self_signed_error + unit) \<times> filesys" where
  "generate_self_signed mkdir rcgen default_mode fs dir = (case mkdir of
      Err e \<Rightarrow> (Err (CreateDir e), fs)
    | Ok _ \<Rightarrow> (case rcgen of
        None \<Rightarrow> (Err Rcgen, fs)
      | Some (cert_pem, key_pem) \<Rightarrow>
          (let cert_path = path_join dir ''tls.crt''; key_path = path_join dir ''tls.key''
           in case fs_write fs cert_path default_mode (ascii cert_pem) of
                (Err e, fs1) \<Rightarrow> (Err (WriteCert e), fs1)
              | (Ok _, fs1) \<Rightarrow> (case fs_set_mode fs1 cert_path oct644 of
                  (Err e, fs2) \<Rightarrow> (Err (CertMode e), fs2)
                | (Ok _, fs2) \<Rightarrow> (case fs_write fs2 key_path oct600 (ascii key_pem) of
                    (Err e, fs3) \<Rightarrow> (Err (WriteKey e), fs3)
                  | (Ok _, fs3) \<Rightarrow> (Ok (), fs3))))))"

lemma fs_write_OkD:
  "fs_write fs p m b = (Ok u, fs') \<Longrightarrow> (\<exists>f. fs' = fs(p \<mapsto> f) \<and> f_open f \<and> f_data f = b \<and>
     f_mode f = (case fs p of None \<Rightarrow> m | Some g \<Rightarrow> f_mode g))"
  by (auto simp: fs_write_def split: option.splits if_splits)

text \<open>A generated certificate can be used: after \<open>generate_self_signed\<close> succeeded, the TLS and WebSocket
  listeners find their acceptor in its directory, restricted to TLS 1.3, provided the PEM reader finds
  the certificate and the key in what \<open>rcgen\<close> wrote and accepts them as a pair. The certificate has mode
  0644. The key has mode 0600 only when the file is new: over an existing key file it keeps the old
  mode.\<close>

theorem tls_keygen_then_accept:
  assumes "generate_self_signed mkdir (Some (cert_pem, key_pem)) dm fs dir = (Ok (), fs')"
    and "pem_certs R (ascii cert_pem) = Ok certs" "certs \<noteq> []" "pem_private_key R (ascii key_pem) = Ok (Some key)"
    and "single_cert_ok R certs key"
  shows "build_acceptor R fs' (path_join dir ''tls.crt'') (path_join dir ''tls.key'') =
      Ok \<lparr>tsc_versions = [TLS13], tsc_client_auth = False, tsc_certs = certs, tsc_key = key\<rparr> \<and>
    map_option f_mode (fs' (path_join dir ''tls.crt'')) = Some oct644 \<and>
    map_option f_mode (fs' (path_join dir ''tls.key'')) =
      Some (case fs (path_join dir ''tls.key'') of None \<Rightarrow> oct600 | Some old \<Rightarrow> f_mode old)"
proof -
  let ?c = "path_join dir ''tls.crt''" and ?k = "path_join dir ''tls.key''"
  have ne: "?c \<noteq> ?k" by (simp add: path_join_inject)
  from assms(1) obtain fs1 fs2 where w: "fs_write fs ?c dm (ascii cert_pem) = (Ok (), fs1)"
    "fs_set_mode fs1 ?c oct644 = (Ok (), fs2)" "fs_write fs2 ?k oct600 (ascii key_pem) = (Ok (), fs')"
    by (auto simp: generate_self_signed_def Let_def split: sum.splits prod.splits)
  from fs_write_OkD [OF w(1)] obtain f where f: "fs1 = fs(?c \<mapsto> f)" "f_open f" "f_data f = ascii cert_pem" by blast
  with w(2) have fs2: "fs2 = fs(?c \<mapsto> f\<lparr>f_mode := oct644\<rparr>)" by (simp add: fs_set_mode_def)
  with fs_write_OkD [OF w(3)] ne obtain g where g: "fs' = fs2(?k \<mapsto> g)" "f_open g" "f_data g = ascii key_pem"
    "f_mode g = (case fs ?k of None \<Rightarrow> oct600 | Some old \<Rightarrow> f_mode old)" by auto
  from f fs2 g ne have "fs_read fs' ?c = Ok (ascii cert_pem)" "fs_read fs' ?k = Ok (ascii key_pem)"
    by (simp_all add: fs_read_def)
  with assms(2-5) have "build_acceptor R fs' ?c ?k =
      Ok \<lparr>tsc_versions = [TLS13], tsc_client_auth = False, tsc_certs = certs, tsc_key = key\<rparr>"
    by (simp add: build_acceptor_def build_server_config_def load_certs_def load_key_def)
  with f fs2 g ne show ?thesis by simp
qed

definition demo_pem :: pem_reader where
  "demo_pem = \<lparr>pem_certs = \<lambda>b. Ok [b], pem_private_key = \<lambda>b. Ok (Some b), single_cert_ok = \<lambda>_ _. True\<rparr>"

theorem tls_keygen_then_accept_witness:
  "\<exists>fs'. generate_self_signed (Ok ()) (Some (''c'', ''k'')) oct644 (\<lambda>_. None) ''d'' = (Ok (), fs') \<and>
     is_ok (build_acceptor demo_pem fs' ''d/tls.crt'' ''d/tls.key'') \<and> map_option f_mode (fs' ''d/tls.key'') = Some oct600"
proof -
  define fs' where "fs' = snd (generate_self_signed (Ok ()) (Some (''c'', ''k'')) oct644 (\<lambda>_. None) ''d'')"
  have g: "generate_self_signed (Ok ()) (Some (''c'', ''k'')) oct644 (\<lambda>_. None) ''d'' = (Ok (), fs')"
    by (simp add: fs'_def generate_self_signed_def fs_write_def fs_set_mode_def path_join_def Let_def)
  from tls_keygen_then_accept [OF g, of demo_pem "[ascii ''c'']" "ascii ''k''"] g
  show ?thesis by (auto simp: demo_pem_def path_join_def)
qed

end
