(* ===== verification/Server.thy ===== *)
theory Server
  imports Session Admin Control_Plane Http_Relay Tls
begin

text \<open>
  The bridge as a whole, \<open>latticeshield-bridge/src/server.rs\<close>: what \<open>run\<close> loads and starts, the
  routing of a TLS connection (\<open>read_http_head_inplace\<close>, \<open>extract_vk_token\<close>, \<open>spawn_tls_listener\<close>),
  the connection task of \<open>spawn_ws_listener\<close>, the task that executes commands of the control plane, the
  handlers of the metrics server, and the draining of tasks at shutdown. The counting of connections
  per IP address is in \<open>Net\<close>, the accept loops are in \<open>Listeners\<close>.

  Outcomes of the operating system (binding a socket, a TLS handshake) are inputs. The HTTP request
  parser and the PEM reader are parameters, as in the theories this one builds on.
\<close>

section \<open>Start-up\<close>

datatype startup_error =
    StMetrics | StIdentity load_error | StClientVk identity_error | StTls tls_error
  | StAdminVk identity_error | StBind io_error | StPanic

record start_env =
  se_metrics_ok :: bool
  se_fs :: filesys
  se_pem :: pem_reader
  se_bind :: "io_error + unit"
  se_rendered :: string \<comment> \<open>what the Prometheus handle renders\<close>

datatype bridge_task =
    MetricsServer (task_addr: socket_addr) | QuicListener (task_addr: socket_addr)
  | TlsListener (task_addr: socket_addr) | AdminListener (task_addr: socket_addr)
  | WsListener (task_addr: socket_addr) | ControlPlaneTask

text \<open>\<open>Display\<close> of a socket address: dotted decimal for IPv4; for IPv6 lower-case groups in brackets with
  the longest run of zero groups shortened, and the scope when there is one.\<close>

definition hex_group :: "nat \<Rightarrow> string" where
  "hex_group g = (let ds = [hex_digit (g div 4096), hex_digit (g div 256 mod 16), hex_digit (g div 16 mod 16)]
     in dropWhile (\<lambda>c. c = CHR ''0'') ds @ [hex_digit (g mod 16)])"

fun join_with :: "string \<Rightarrow> string list \<Rightarrow> string" where
  "join_with sep [] = []"
| "join_with sep [s] = s"
| "join_with sep (s # t # ss) = s @ sep @ join_with sep (t # ss)"

fun longest_zeros :: "nat \<Rightarrow> nat \<times> nat \<Rightarrow> nat \<times> nat \<Rightarrow> nat list \<Rightarrow> nat \<times> nat" where
  "longest_zeros i cur best [] = best"
| "longest_zeros i cur best (g # gs) =
    (if g = 0
     then (let cur' = (if snd cur = 0 then i else fst cur, Suc (snd cur))
           in longest_zeros (Suc i) cur' (if snd best < snd cur' then cur' else best) gs)
     else longest_zeros (Suc i) (0, 0) best gs)"

definition show_ipv4 :: "nat \<Rightarrow> string" where
  "show_ipv4 a = join_with ''.'' (map (\<lambda>i. dec (a div 256 ^ i mod 256)) [3, 2, 1, 0])"

definition show_ipv6 :: "nat \<Rightarrow> string" where
  "show_ipv6 a =
    (let groups = map (\<lambda>i. a div 65536 ^ i mod 65536) [7, 6, 5, 4, 3, 2, 1, 0];
         (start, len) = longest_zeros 0 (0, 0) (0, 0) groups;
         sl = (\<lambda>gs. join_with '':'' (map hex_group gs))
     in if a div 65536 ^ 2 = 65535 then ''::ffff:'' @ show_ipv4 (a mod 65536 ^ 2)
        else if 1 < len then sl (take start groups) @ ''::'' @ sl (drop (start + len) groups)
        else sl groups)"

definition show_socket_addr :: "socket_addr \<Rightarrow> string" where
  "show_socket_addr a = (case addr_ip a of
      IpV4 v \<Rightarrow> show_ipv4 (unat v) @ '':'' @ dec (unat (addr_port a))
    | IpV6 v \<Rightarrow> ''['' @ show_ipv6 (unat v) @ (if addr_scope a = 0 then [] else ''%'' @ dec (unat (addr_scope a))) @
        '']:'' @ dec (unat (addr_port a)))"

text \<open>The client's key; \<open>expect\<close> on a missing path is the panic.\<close>

definition load_client_vk :: "filesys \<Rightarrow> valid_config \<Rightarrow> startup_error + verifying_key option" where
  "load_client_vk fs cfg = (if vc_client_auth_enabled cfg
     then (case vc_client_vk_path cfg of
         None \<Rightarrow> Err StPanic
       | Some path \<Rightarrow> map_err StClientVk (case client_verifying_identity_load fs path of Err e \<Rightarrow> Err e | Ok vk \<Rightarrow> Ok (Some vk)))
     else Ok None)"

text \<open>The acceptor of the TLS listener, when it is enabled.\<close>

definition start_tls :: "start_env \<Rightarrow> valid_config \<Rightarrow> startup_error + tls_server_config option" where
  "start_tls E cfg = (if vc_tls_enabled cfg
     then map_err StTls (case build_acceptor (se_pem E) (se_fs E) (vc_tls_cert_path cfg) (vc_tls_key_path cfg) of
         Err e \<Rightarrow> Err e | Ok a \<Rightarrow> Ok (Some a))
     else Ok None)"

text \<open>The services of the admin listener, when it is enabled.\<close>

definition start_admin :: "start_env \<Rightarrow> valid_config \<Rightarrow> identity \<Rightarrow> startup_error + admin_services option" where
  "start_admin E cfg ident = (if vc_admin_enabled cfg
     then (case vc_admin_control_plane_vk_path cfg of
         None \<Rightarrow> Err StPanic
       | Some path \<Rightarrow> (case control_plane_verifying_identity_load (se_fs E) path of
           Err e \<Rightarrow> Err (StAdminVk e)
         | Ok cp_vk \<Rightarrow> Ok (Some \<lparr>as_identity = ident, as_cp_vk = cp_vk, as_vk_store = new_store,
             as_metrics = metrics_state_new, as_rotate = 0, as_prometheus = se_rendered E,
             as_tls_base_url = ''https://'' @ show_socket_addr (vc_tls_listen_addr cfg), as_cmd_seq = 0,
             as_max_tokens = vc_vk_share_max_tokens cfg\<rparr>)))
     else Ok None)"

record bridge =
  br_identity :: identity
  br_client_vk :: "verifying_key option"
  br_tls :: "tls_server_config option"
  br_admin :: "admin_services option"
  br_tasks :: "bridge_task list"

text \<open>\<open>run\<close> up to its accept loop: every failure leaves the function, in the order of the code. The tasks
  are listed in the order they are spawned.\<close>

definition bridge_start :: "start_env \<Rightarrow> valid_config \<Rightarrow> startup_error + bridge" where
  "bridge_start E cfg =
    (if \<not> se_metrics_ok E then Err StMetrics
     else and_then (map_err StIdentity (server_identity_load (se_fs E) (vc_signing_key_path cfg))) (\<lambda>ident.
     and_then (load_client_vk (se_fs E) cfg) (\<lambda>client_vk.
     and_then (start_tls E cfg) (\<lambda>acceptor.
     and_then (start_admin E cfg ident) (\<lambda>services.
     and_then (map_err StBind (se_bind E)) (\<lambda>_.
     Ok \<lparr>br_identity = ident, br_client_vk = client_vk, br_tls = acceptor, br_admin = services,
        br_tasks = [MetricsServer (vc_metrics_addr cfg)] @
          (if vc_quic_enabled cfg then [QuicListener (vc_quic_listen_addr cfg)] else []) @
          (if vc_tls_enabled cfg then [TlsListener (vc_tls_listen_addr cfg)] else []) @
          (if vc_admin_enabled cfg then [AdminListener (vc_admin_listen_addr cfg)] else []) @
          (if vc_ws_enabled cfg then [WsListener (vc_ws_listen_addr cfg)] else []) @
          (if vc_control_plane_enabled cfg \<and> vc_control_plane_endpoint cfg \<noteq> [] then [ControlPlaneTask] else [])\<rparr>))))))"

text \<open>The context that the TCP and the WebSocket listener give to every session.\<close>

definition session_context_of :: "bridge \<Rightarrow> session_context" where
  "session_context_of b = \<lparr>ctx_identity = br_identity b, ctx_client_auth = br_client_vk b\<rparr>"

section \<open>Commands of the control plane\<close>

text \<open>The task on the receiving end of the command channel: the rotation counter and the metrics.\<close>

fun bridge_command_step :: "bridge_command \<Rightarrow> u64 \<times> metrics_state \<Rightarrow> u64 \<times> metrics_state" where
  "bridge_command_step Rotate_Cmd (count, m) = (count + 1, m\<lparr>key_rotations_total := key_rotations_total m + 1\<rparr>)"
| "bridge_command_step Unknown_Cmd (count, m) = (count, m)"

section \<open>TLS connections\<close>

definition MAX_HEAD_BYTES :: nat where "MAX_HEAD_BYTES = 8 * 1024"

datatype head_result = HrPending | HrComplete bytes | HrTooLarge | HrEof

text \<open>\<open>buf.windows(4).any(|w| w == b"\r\n\r\n")\<close>.\<close>

fun has_blank_line :: "bytes \<Rightarrow> bool" where
  "has_blank_line (a # b # c # d # rest) \<longleftrightarrow> [a, b, c, d] = [13, 10, 13, 10] \<or> has_blank_line (b # c # d # rest)"
| "has_blank_line _ \<longleftrightarrow> False"

fun read_http_head_inplace :: "bytes \<Rightarrow> reads \<Rightarrow> head_result \<times> reads" where
  "read_http_head_inplace buf [] = (if MAX_HEAD_BYTES \<le> length buf then HrTooLarge else HrPending, [])"
| "read_http_head_inplace buf (r # rs) =
    (if MAX_HEAD_BYTES \<le> length buf then (HrTooLarge, r # rs)
     else (case r of
         Err _ \<Rightarrow> (HrEof, rs)
       | Ok chunk \<Rightarrow>
           if chunk = [] then (HrEof, rs)
           else (let buf' = buf @ chunk
                 in if MAX_HEAD_BYTES \<le> length buf'
                    then (if has_blank_line buf' then HrComplete buf' else HrTooLarge, rs)
                    else if has_blank_line buf' then (HrComplete buf', rs)
                    else read_http_head_inplace buf' rs)))"

definition strip_prefix :: "string \<Rightarrow> string \<Rightarrow> string option" where
  "strip_prefix p s = (if take (length p) s = p then Some (drop (length p) s) else None)"

definition extract_vk_token :: "httparse \<Rightarrow> bytes \<Rightarrow> string option" where
  "extract_vk_token parser buf = (case parser buf of
      Ok (Complete _ (Some m) (Some path)) \<Rightarrow> if m = ''GET'' then strip_prefix ''/vk/'' path else None
    | _ \<Rightarrow> None)"

text \<open>What a TLS connection brings: the outcome of the TLS handshake, the client's bytes and writer, the
  result of connecting to the backend, the schedule of the relay, and the clock.\<close>

record tls_conn =
  tc_accepted :: bool
  tc_reads :: reads
  tc_writer :: writer
  tc_backend :: "io_error + reads \<times> writer"
  tc_sched :: "bool list"
  tc_now :: nat

text \<open>The connection task of \<open>spawn_tls_listener\<close>: how it ended, the client's writer, the backend's
  writer when the backend was reached, the store, and the token that was asked for.\<close>

definition tls_connection ::
  "httparse \<Rightarrow> tls_conn \<Rightarrow> vk_share_store \<Rightarrow>
   http_relay_status \<times> writer \<times> writer option \<times> vk_share_store \<times> string option" where
  "tls_connection parser conn store =
    (if \<not> tc_accepted conn then (RelayDone, tc_writer conn, None, store, None)
     else (case read_http_head_inplace [] (tc_reads conn) of
         (HrPending, _) \<Rightarrow> (RelayRunning, tc_writer conn, None, store, None)
       | (HrTooLarge, _) \<Rightarrow> (RelayDone, snd (write_all bad_request (tc_writer conn)), None, store, None)
       | (HrEof, _) \<Rightarrow> (RelayDone, tc_writer conn, None, store, None)
       | (HrComplete head_bytes, rest) \<Rightarrow> (case extract_vk_token parser head_bytes of
           Some token \<Rightarrow> (case vk_response token (tc_now conn) store of
             (response, store') \<Rightarrow>
               (RelayDone, snd (write_all (ascii response) (tc_writer conn)), None, store', Some token))
         | None \<Rightarrow> (case handle_with_preread (tc_backend conn) (tc_sched conn) head_bytes rest (tc_writer conn) of
             (s, cw, bw) \<Rightarrow> (s, cw, bw, store, None)))))"

section \<open>WebSocket connections\<close>

datatype ws_outcome = WsTlsFailed | WsUpgradeFailed | WsSession loop_status

text \<open>The connection task of \<open>spawn_ws_listener\<close>, after the connection was admitted: TLS, the upgrade with
  the origin check, then the session on the bytes of the WebSocket. \<open>upgrade_ok\<close> says that the request
  was a valid upgrade; \<open>origin\<close> is its origin header.\<close>

definition ws_connection ::
  "sym_prims \<Rightarrow> sig_prims \<Rightarrow> ('r, 'x, 'dk, 'ek) kex_prims \<Rightarrow> (string \<Rightarrow> url option) \<Rightarrow> bridge \<Rightarrow> valid_config \<Rightarrow>
   bool \<Rightarrow> bool \<Rightarrow> string option \<Rightarrow> bool \<Rightarrow> io_error + writer \<Rightarrow> session_event list \<Rightarrow> bytes \<Rightarrow> writer \<Rightarrow> bridge_metrics \<Rightarrow>
   'r \<Rightarrow> ws_outcome \<times> bridge_metrics" where
  "ws_connection S G K url_parse b cfg tls_ok upgrade_ok origin elapsed backend evs client_in client_w m r =
    (if \<not> tls_ok then (WsTlsFailed, m)
     else if \<not> (upgrade_ok \<and> on_request url_parse (vc_ws_allowed_origins cfg) origin) then (WsUpgradeFailed, m)
     else (case handle_with_handshake_timeout S G K (session_context_of b) cfg elapsed backend evs client_in client_w m r of
         (status, m') \<Rightarrow> (WsSession status, m')))"

section \<open>Metrics server\<close>

record http_reply =
  rp_headers :: "(string \<times> string) list"
  rp_body :: string

definition metrics_handler :: "string \<Rightarrow> http_reply" where
  "metrics_handler rendered = \<lparr>rp_headers = [
     (''content-type'', ''text/plain; version=0.0.4; charset=utf-8''),
     (''x-content-type-options'', ''nosniff''),
     (''x-frame-options'', ''DENY''),
     (''cache-control'', ''no-store''),
     (''content-security-policy'', ''default-src '' @ [CHR 0x27] @ ''none'' @ [CHR 0x27])], rp_body = rendered\<rparr>"

definition healthz_handler :: http_reply where
  "healthz_handler = \<lparr>rp_headers = [(''content-type'', ''application/json''), (''cache-control'', ''no-store'')],
     rp_body = ''{'' @ dq @ ''status'' @ dq @ '':'' @ dq @ ''ok'' @ dq @ ''}''\<rparr>"

text \<open>The routes of the router, all for GET.\<close>

definition metrics_app :: "string \<Rightarrow> (string \<times> http_reply) list" where
  "metrics_app rendered = [(''/metrics'', metrics_handler rendered), (''/healthz'', healthz_handler)]"

section \<open>Shutdown\<close>

text \<open>The drain phase: the tasks are awaited one after the other, each with a timeout of its own. A task
  is given by the time at which it ends (\<open>None\<close>: never); the result is the time at which the phase is
  over. All times are counted from the start of the phase.\<close>

fun drain :: "nat \<Rightarrow> nat \<Rightarrow> nat option list \<Rightarrow> nat" where
  "drain timeout t [] = t"
| "drain timeout t (None # hs) = drain timeout (t + timeout) hs"
| "drain timeout t (Some e # hs) = drain timeout (max t (min e (t + timeout))) hs"

definition shutdown_drain ::
  "valid_config \<Rightarrow> nat option list \<Rightarrow> nat option option \<Rightarrow> nat option option \<Rightarrow> nat option option \<Rightarrow> nat option option \<Rightarrow>
   nat option option \<Rightarrow> nat option \<Rightarrow> nat" where
  "shutdown_drain cfg sessions th qh ah wh ch mh =
    (let opt = (\<lambda>h. case h of None \<Rightarrow> [] | Some t \<Rightarrow> [t])
     in drain (vc_shutdown_timeout cfg) 0 (sessions @ opt th @ opt qh @ opt ah @ opt wh @ opt ch @ [mh]))"

end
