(* ===== verification/Server_Props.thy ===== *)
theory Server_Props
  imports Server
begin

text \<open>
  Properties of the bridge as a whole: start-up follows the validated configuration and enforces client
  authentication, TLS connections are routed exactly, download tokens are single-use across the admin
  and the TLS listener, and the drain phase is bounded.
\<close>

section \<open>Start-up\<close>

lemma and_then_Err: "and_then r f = Err e \<longleftrightarrow> r = Err e \<or> (\<exists>x. r = Ok x \<and> f x = Err e)"
  by (cases r) (auto simp: and_then_def)

lemma bridge_start_OkE:
  assumes "bridge_start E cfg = Ok b"
  obtains ident cvk tc adm where "server_identity_load (se_fs E) (vc_signing_key_path cfg) = Ok ident"
    "load_client_vk (se_fs E) cfg = Ok cvk" "start_tls E cfg = Ok tc" "start_admin E cfg ident = Ok adm"
    "br_identity b = ident" "br_client_vk b = cvk" "br_tls b = tc" "br_admin b = adm"
    "br_tasks b = [MetricsServer (vc_metrics_addr cfg)] @ (if vc_quic_enabled cfg then [QuicListener (vc_quic_listen_addr cfg)] else []) @
      (if vc_tls_enabled cfg then [TlsListener (vc_tls_listen_addr cfg)] else []) @
      (if vc_admin_enabled cfg then [AdminListener (vc_admin_listen_addr cfg)] else []) @
      (if vc_ws_enabled cfg then [WsListener (vc_ws_listen_addr cfg)] else []) @
      (if vc_control_plane_enabled cfg \<and> vc_control_plane_endpoint cfg \<noteq> [] then [ControlPlaneTask] else [])"
    "map task_addr (filter (\<lambda>t. t \<noteq> ControlPlaneTask) (br_tasks b)) =
      [vc_metrics_addr cfg] @ (if vc_quic_enabled cfg then [vc_quic_listen_addr cfg] else []) @
      (if vc_tls_enabled cfg then [vc_tls_listen_addr cfg] else []) @
      (if vc_admin_enabled cfg then [vc_admin_listen_addr cfg] else []) @
      (if vc_ws_enabled cfg then [vc_ws_listen_addr cfg] else [])"
  using assms by (auto simp: bridge_start_def split: if_splits)

lemma load_client_vk_Ok:
  assumes "load_client_vk fs cfg = Ok cvk"
  shows "cvk \<noteq> None \<longleftrightarrow> vc_client_auth_enabled cfg"
    "cvk = Some vk \<Longrightarrow> \<exists>p. vc_client_vk_path cfg = Some p \<and> fs_read fs p = Ok (vk_to_bytes vk)"
  using assms by (auto simp: load_client_vk_def client_verifying_identity_load_def vk_from_bytes_def
      split: if_splits option.splits sum.splits)

lemma start_admin_Ok:
  assumes "start_admin E cfg ident = Ok adm"
  shows "(adm \<noteq> None) = vc_admin_enabled cfg"
    "adm = Some svc \<Longrightarrow> as_identity svc = ident \<and> as_vk_store svc = new_store \<and> as_cmd_seq svc = 0 \<and>
       as_max_tokens svc = vc_vk_share_max_tokens cfg \<and>
       (\<exists>p. vc_admin_control_plane_vk_path cfg = Some p \<and> fs_read (se_fs E) p = Ok (vk_to_bytes (as_cp_vk svc)))"
  using assms by (auto simp: start_admin_def control_plane_verifying_identity_load_def vk_from_bytes_def
      split: if_splits option.splits sum.splits)

lemma start_tls_Ok:
  assumes "start_tls E cfg = Ok tc"
  shows "(tc \<noteq> None) = vc_tls_enabled cfg"
    "tc = Some a \<Longrightarrow> build_acceptor (se_pem E) (se_fs E) (vc_tls_cert_path cfg) (vc_tls_key_path cfg) = Ok a"
  using assms by (auto simp: start_tls_def split: if_splits sum.splits)

lemma server_identity_load_files:
  assumes "server_identity_load fs p = Ok ident"
  shows "\<exists>t u. fs_read fs p = Ok (sk_to_bytes (signing_key ident) @ t) \<and> fs_read fs (vk_path_from p) = Ok (vk_to_bytes (verifying_key ident) @ u)"
  using assms by (auto simp: server_identity_load_def Let_def sk_from_bytes_def vk_from_bytes_def dest!: read_exact_SomeD
      split: option.splits if_splits sum.splits)

lemma bridge_start_no_panic:
  assumes "vc_client_auth_enabled cfg \<Longrightarrow> vc_client_vk_path cfg \<noteq> None"
    and "vc_admin_enabled cfg \<Longrightarrow> vc_admin_control_plane_vk_path cfg \<noteq> None"
  shows "bridge_start E cfg \<noteq> Err StPanic"
proof -
  have "load_client_vk (se_fs E) cfg \<noteq> Err StPanic"
    using assms(1) by (auto simp: load_client_vk_def map_err_Err_iff split: option.splits)
  moreover have "start_tls E cfg \<noteq> Err StPanic" by (auto simp: start_tls_def map_err_Err_iff)
  moreover have "start_admin E cfg ident \<noteq> Err StPanic" for ident
    using assms(2) by (auto simp: start_admin_def split: option.splits sum.splits)
  ultimately show ?thesis by (auto simp: bridge_start_def and_then_Err map_err_Err_iff)
qed

text \<open>The facts about validation that start-up needs.\<close>

lemma validate_start:
  assumes "validate P env c = Ok cfg"
  shows "vc_client_auth_enabled cfg = auth_require_client_auth (auth c)" "vc_client_vk_path cfg = auth_client_vk_path (auth c)"
    "vc_client_auth_enabled cfg \<Longrightarrow> vc_client_vk_path cfg \<noteq> None" "vc_admin_enabled cfg = adm_enabled (admin c)"
    "vc_admin_enabled cfg \<Longrightarrow> vc_admin_control_plane_vk_path cfg \<noteq> None"
    "vc_signing_key_path cfg = crypto_signing_key_path c"
  using assms by (auto simp: validate_def dest!: validate_auth_Ok dest: validate_admin_Ok)

text \<open>The tasks and addresses that a configuration file asks for.\<close>

fun configured_task :: "config \<Rightarrow> bridge_task \<Rightarrow> bool" where
  "configured_task c (MetricsServer a) \<longleftrightarrow> parse_socket_addr (metrics_listen_addr c) = Some a"
| "configured_task c (QuicListener a) \<longleftrightarrow> quic_cfg_enabled (quic c) \<and> parse_socket_addr (quic_cfg_listen_addr (quic c)) = Some a"
| "configured_task c (TlsListener a) \<longleftrightarrow> tls_cfg_enabled (tls c) \<and> parse_socket_addr (tls_cfg_listen_addr (tls c)) = Some a"
| "configured_task c (AdminListener a) \<longleftrightarrow> adm_enabled (admin c) \<and> parse_socket_addr (adm_listen_addr (admin c)) = Some a"
| "configured_task c (WsListener a) \<longleftrightarrow> ws_cfg_enabled (websocket c) \<and> parse_socket_addr (ws_cfg_listen_addr (websocket c)) = Some a"
| "configured_task c ControlPlaneTask \<longleftrightarrow> cp_enabled (control_plane c) \<and> cp_endpoint (control_plane c) \<noteq> []"

lemma parse_addr_Ok: "parse_addr s x = Ok a \<Longrightarrow> parse_socket_addr x = Some a"
  by (simp add: parse_addr_def split: option.splits)

lemma validate_addrs:
  assumes "validate P env c = Ok cfg"
  shows "parse_socket_addr (srv_listen_addr (server c)) = Some (vc_listen_addr cfg)"
    "parse_socket_addr (metrics_listen_addr c) = Some (vc_metrics_addr cfg)"
    "parse_socket_addr (tls_cfg_listen_addr (tls c)) = Some (vc_tls_listen_addr cfg)"
    "parse_socket_addr (quic_cfg_listen_addr (quic c)) = Some (vc_quic_listen_addr cfg)"
    "parse_socket_addr (adm_listen_addr (admin c)) = Some (vc_admin_listen_addr cfg)"
    "parse_socket_addr (ws_cfg_listen_addr (websocket c)) = Some (vc_ws_listen_addr cfg)"
  using assms
  by (auto simp: validate_server_def validate_tls_def validate_quic_def validate_admin_def validate_websocket_def dest!: parse_addr_Ok
      elim!: validate_OkE)

lemma validate_flags:
  assumes "validate P env c = Ok cfg"
  shows "vc_tls_enabled cfg = tls_cfg_enabled (tls c)" "vc_quic_enabled cfg = quic_cfg_enabled (quic c)"
    "vc_ws_enabled cfg = ws_cfg_enabled (websocket c)" "vc_control_plane_enabled cfg = cp_enabled (control_plane c)"
    "vc_control_plane_endpoint cfg = cp_endpoint (control_plane c)" "vc_vk_share_max_tokens cfg = resolve_token_max env"
    "vc_admin_control_plane_vk_path cfg = adm_control_plane_vk_path (admin c)"
    "vc_tls_cert_path cfg = tls_cfg_cert_path (tls c)" "vc_tls_key_path cfg = tls_cfg_key_path (tls c)"
  using assms by (auto simp: validate_def)

lemma started_tasks:
  assumes "validate P env c = Ok cfg" "bridge_start E cfg = Ok b"
  shows "distinct (br_tasks b)" "t \<in> set (br_tasks b) \<longleftrightarrow> configured_task c t"
proof -
  note v = validate_start(4) [OF assms(1)] validate_flags [OF assms(1)] validate_addrs [OF assms(1)]
  from assms(2) show "distinct (br_tasks b)" by (rule bridge_start_OkE) auto
  from assms(2) show "t \<in> set (br_tasks b) \<longleftrightarrow> configured_task c t" by (rule bridge_start_OkE) (cases t; use v in auto)
qed

lemma started_addresses:
  assumes "validate P env c = Ok cfg" "bridge_start E cfg = Ok b"
  shows "distinct (map task_addr (filter (\<lambda>t. t \<noteq> ControlPlaneTask) (br_tasks b)))"
    "t \<in> set (br_tasks b) \<Longrightarrow> t \<noteq> ControlPlaneTask \<Longrightarrow> \<forall>a. t \<noteq> MetricsServer a \<Longrightarrow> task_addr t \<noteq> vc_listen_addr cfg"
proof -
  have d: "distinct (vc_listen_addr cfg # optional_listeners cfg)" "distinct (vc_metrics_addr cfg # optional_listeners cfg)"
    using validated_addresses [OF assms(1)] by blast+
  from assms(2) show "distinct (map task_addr (filter (\<lambda>t. t \<noteq> ControlPlaneTask) (br_tasks b)))"
    by (rule bridge_start_OkE) (use d(2) in \<open>auto simp: optional_listeners_def\<close>)
  assume "t \<in> set (br_tasks b)" "t \<noteq> ControlPlaneTask" "\<forall>a. t \<noteq> MetricsServer a"
  then show "task_addr t \<noteq> vc_listen_addr cfg"
    using assms(2) by (elim bridge_start_OkE) (use d(1) in \<open>auto simp: optional_listeners_def split: if_splits\<close>)
qed

text \<open>C24. Start-up follows the configuration file. With a validated configuration none of the \<open>expect\<close> calls
  of \<open>run\<close> can panic. A bridge that has started has as its identity the keys in the configured signing key file and
  the file beside it; a client key exactly when \<open>require_client_auth\<close> is set, read from the configured file;
  a TLS acceptor exactly when TLS is enabled, built from the configured certificate and key; the admin services
  exactly when the admin channel is enabled, with the bridge's identity, the configured control plane key,
  an empty token store and counter 0. It runs exactly the tasks that the file enables, each once,
  on the addresses in the file; their addresses are pairwise different, and different from the proxy's except that the
  metrics server's is not compared with it.\<close>

theorem started_bridge_follows_config:
  assumes "validate P env c = Ok cfg"
  shows "bridge_start E cfg \<noteq> Err StPanic \<and> (\<forall>b. bridge_start E cfg = Ok b \<longrightarrow>
    (\<exists>t u. fs_read (se_fs E) (crypto_signing_key_path c) = Ok (sk_to_bytes (signing_key (br_identity b)) @ t) \<and>
      fs_read (se_fs E) (vk_path_from (crypto_signing_key_path c)) = Ok (vk_to_bytes (verifying_key (br_identity b)) @ u)) \<and>
    (br_client_vk b \<noteq> None) = auth_require_client_auth (auth c) \<and>
    (\<forall>vk. br_client_vk b = Some vk \<longrightarrow> (\<exists>p. auth_client_vk_path (auth c) = Some p \<and> fs_read (se_fs E) p = Ok (vk_to_bytes vk))) \<and>
    (br_tls b \<noteq> None) = tls_cfg_enabled (tls c) \<and>
    (\<forall>a. br_tls b = Some a \<longrightarrow> build_acceptor (se_pem E) (se_fs E) (tls_cfg_cert_path (tls c)) (tls_cfg_key_path (tls c)) = Ok a) \<and>
    (br_admin b \<noteq> None) = adm_enabled (admin c) \<and>
    (\<forall>svc. br_admin b = Some svc \<longrightarrow> as_identity svc = br_identity b \<and> as_vk_store svc = new_store \<and> as_cmd_seq svc = 0 \<and>
      as_max_tokens svc = resolve_token_max env \<and>
      (\<exists>p. adm_control_plane_vk_path (admin c) = Some p \<and> fs_read (se_fs E) p = Ok (vk_to_bytes (as_cp_vk svc)))) \<and>
    distinct (br_tasks b) \<and> (\<forall>t. t \<in> set (br_tasks b) \<longleftrightarrow> configured_task c t) \<and>
    distinct (map task_addr (filter (\<lambda>t. t \<noteq> ControlPlaneTask) (br_tasks b))) \<and>
    (\<forall>t \<in> set (br_tasks b). t \<noteq> ControlPlaneTask \<and> (\<forall>a. t \<noteq> MetricsServer a) \<longrightarrow>
      parse_socket_addr (srv_listen_addr (server c)) \<noteq> Some (task_addr t)))"
proof (intro conjI allI impI)
  note v = validate_start [OF assms] and f = validate_flags [OF assms]
  show "bridge_start E cfg \<noteq> Err StPanic" by (rule bridge_start_no_panic) (fact v)+
  fix b assume b: "bridge_start E cfg = Ok b"
  then show "\<exists>t u. fs_read (se_fs E) (crypto_signing_key_path c) = Ok (sk_to_bytes (signing_key (br_identity b)) @ t) \<and>
      fs_read (se_fs E) (vk_path_from (crypto_signing_key_path c)) = Ok (vk_to_bytes (verifying_key (br_identity b)) @ u)"
    by (rule bridge_start_OkE) (use v(6) server_identity_load_files in metis)
  from b show "(br_client_vk b \<noteq> None) = auth_require_client_auth (auth c)"
    by (rule bridge_start_OkE) (use v(1) load_client_vk_Ok(1) in blast)
  from b show "(br_tls b \<noteq> None) = tls_cfg_enabled (tls c)"
    by (rule bridge_start_OkE) (use f(1) start_tls_Ok(1) in blast)
  from b show "(br_admin b \<noteq> None) = adm_enabled (admin c)"
    by (rule bridge_start_OkE) (use v(4) start_admin_Ok(1) in blast)
  show "distinct (br_tasks b)" "t \<in> set (br_tasks b) \<longleftrightarrow> configured_task c t" for t by (fact started_tasks [OF assms b])+
  show "distinct (map task_addr (filter (\<lambda>t. t \<noteq> ControlPlaneTask) (br_tasks b)))" by (fact started_addresses(1) [OF assms b])
  show "\<forall>t \<in> set (br_tasks b). t \<noteq> ControlPlaneTask \<and> (\<forall>a. t \<noteq> MetricsServer a) \<longrightarrow>
      parse_socket_addr (srv_listen_addr (server c)) \<noteq> Some (task_addr t)"
    using started_addresses(2) [OF assms b] validate_addrs(1) [OF assms] by (metis option.inject)
next
  fix b vk assume "bridge_start E cfg = Ok b" "br_client_vk b = Some vk"
  then show "\<exists>p. auth_client_vk_path (auth c) = Some p \<and> fs_read (se_fs E) p = Ok (vk_to_bytes vk)"
    by (metis bridge_start_OkE load_client_vk_Ok(2) validate_start(2) [OF assms])
next
  fix b a assume "bridge_start E cfg = Ok b" "br_tls b = Some a"
  then show "build_acceptor (se_pem E) (se_fs E) (tls_cfg_cert_path (tls c)) (tls_cfg_key_path (tls c)) = Ok a"
    by (metis bridge_start_OkE start_tls_Ok(2) validate_flags(8,9) [OF assms])
next
  fix b svc assume "bridge_start E cfg = Ok b" and s: "br_admin b = Some svc"
  then have "start_admin E cfg (br_identity b) = Ok (Some svc)" by (auto elim: bridge_start_OkE)
  from start_admin_Ok(2) [OF this refl] validate_flags(6,7) [OF assms]
  show "as_identity svc = br_identity b" "as_vk_store svc = new_store" "as_cmd_seq svc = 0" "as_max_tokens svc = resolve_token_max env"
    "\<exists>p. adm_control_plane_vk_path (admin c) = Some p \<and> fs_read (se_fs E) p = Ok (vk_to_bytes (as_cp_vk svc))" by simp_all
qed

definition demo_env :: "signing_key \<Rightarrow> verifying_key \<Rightarrow> verifying_key \<Rightarrow> start_env" where
  "demo_env sk vk cvk = \<lparr>se_metrics_ok = True,
     se_fs = [''./keys/server.sk'' \<mapsto> \<lparr>f_mode = oct600, f_data = sk_to_bytes sk, f_open = True\<rparr>,
       ''./keys/server.vk'' \<mapsto> \<lparr>f_mode = oct644, f_data = vk_to_bytes vk, f_open = True\<rparr>,
       ''c.vk'' \<mapsto> \<lparr>f_mode = oct644, f_data = vk_to_bytes cvk, f_open = True\<rparr>],
     se_pem = demo_pem, se_bind = Ok (), se_rendered = []\<rparr>"

lemma demo_starts:
  assumes "length (sk_to_bytes sk) = SIGNING_KEY_LEN" "length (vk_to_bytes vk) = VERIFYING_KEY_LEN"
    "length (vk_to_bytes cvk) = VERIFYING_KEY_LEN"
  obtains b where "bridge_start (demo_env sk vk cvk) demo_valid = Ok b"
    "session_context_of b = \<lparr>ctx_identity = \<lparr>signing_key = sk, verifying_key = vk\<rparr>, ctx_client_auth = Some cvk\<rparr>"
proof -
  let ?E = "demo_env sk vk cvk"
  note v = validate_start [OF demo_validates, unfolded demo_config_def default_defs, simplified]
  have "server_identity_load (se_fs ?E) ''./keys/server.sk'' = Ok \<lparr>signing_key = sk, verifying_key = vk\<rparr>"
    by (rule server_identity_load_ok [where f = "\<lparr>f_mode = oct600, f_data = sk_to_bytes sk, f_open = True\<rparr>"
          and sk_tail = "[]" and vk_tail = "[]" and g = "\<lparr>f_mode = oct644, f_data = vk_to_bytes vk, f_open = True\<rparr>"])
      (simp_all add: vk_path_from_def with_extension_def Let_def oct_defs demo_env_def assms)
  moreover have "load_client_vk (se_fs ?E) demo_valid = Ok (Some cvk)"
    using v assms(3) by (simp add: load_client_vk_def client_verifying_identity_load_def demo_env_def fs_read_def vk_from_bytes_def)
  moreover have "start_tls ?E demo_valid = Ok None"
    by (rule validate_OkE [OF demo_validates]) (simp add: start_tls_def demo_config_def default_defs)
  moreover have "start_admin ?E demo_valid i = Ok None" for i
    using v by (simp add: start_admin_def)
  moreover have "se_metrics_ok ?E" "se_bind ?E = Ok ()" by (simp_all add: demo_env_def)
  ultimately have "\<exists>b. bridge_start ?E demo_valid = Ok b \<and> session_context_of b =
      \<lparr>ctx_identity = \<lparr>signing_key = sk, verifying_key = vk\<rparr>, ctx_client_auth = Some cvk\<rparr>"
    using v by (simp add: bridge_start_def session_context_of_def)
  with that show ?thesis by blast
qed

theorem started_bridge_follows_config_witness:
  "\<exists>(E :: start_env) (b :: bridge) vk. bridge_start E demo_valid = Ok b \<and> br_client_vk b = Some vk \<and>
     fs_read (se_fs E) ''c.vk'' = Ok (vk_to_bytes vk) \<and> br_tls b = None \<and>
     MetricsServer \<lparr>addr_ip = IpV4 0, addr_port = 8444, addr_scope = 0\<rparr> \<in> set (br_tasks b) \<and> ControlPlaneTask \<notin> set (br_tasks b)"
proof -
  let ?k = "VerifyingKey (replicate 1952 1)" and ?m = "\<lparr>addr_ip = IpV4 0, addr_port = 8444, addr_scope = 0\<rparr>"
  let ?E = "demo_env (SigningKey (replicate 4032 1)) ?k ?k"
  obtain b where b: "bridge_start ?E demo_valid = Ok b"
    by (rule demo_starts [of "SigningKey (replicate 4032 1)" ?k ?k]) (simp_all add: layout_defs)
  note all = started_bridge_follows_config [OF demo_validates, THEN conjunct2, rule_format, OF b]
  from all have "br_client_vk b \<noteq> None" "\<forall>vk. br_client_vk b = Some vk \<longrightarrow> fs_read (se_fs ?E) ''c.vk'' = Ok (vk_to_bytes vk)" "br_tls b = None"
    by (auto simp: demo_config_def default_defs)
  moreover from all have "\<forall>t. t \<in> set (br_tasks b) \<longleftrightarrow> configured_task demo_config t" by blast
  then have "MetricsServer ?m \<in> set (br_tasks b)" "ControlPlaneTask \<notin> set (br_tasks b)"
    by (simp_all add: demo_config_def default_defs demo_addrs)
  ultimately show ?thesis using b by blast
qed

text \<open>A completed handshake of a session that requires client authentication was signed by the client.\<close>

lemma handshake_phase_signed:
  assumes "handshake_phase S G K ctx cin w r = (Ok key, rest, w', r')" "ctx_client_auth ctx = Some vk"
  obtains hs r1 buf where "server_handshake_new K r = (hs, r1)" "cin = buf @ rest"
    "length buf = CLIENT_RESPONSE_SIGNED_LEN"
    "verify G vk (take CLIENT_RESPONSE_LEN buf @ server_hello_raw hs) (Signature (drop CLIENT_RESPONSE_LEN buf)) = Ok ()"
proof -
  obtain hs r1 where hs: "server_handshake_new K r = (hs, r1)" by fastforce
  with assms obtain buf where b: "read_exact CLIENT_RESPONSE_SIGNED_LEN cin = Some (buf, rest)"
    "complete_from_wire_signed S G K hs buf vk = Ok key"
    by (auto simp: handshake_phase_def split: prod.splits sum.splits option.splits)
  from read_exact_SomeD [OF b(1)] have l: "cin = buf @ rest" "length buf = CLIENT_RESPONSE_SIGNED_LEN" by auto
  from b(2) have "verify G vk (take CLIENT_RESPONSE_LEN buf @ server_hello_raw hs)
      (Signature (drop CLIENT_RESPONSE_LEN buf)) = Ok ()"
    unfolding complete_from_wire_signed_iff [OF l(2)] by (simp split: if_splits)
  with that hs l show ?thesis by blast
qed

text \<open>C6. Required client authentication is enforced from the configuration file to the wire: when
  \<open>require_client_auth\<close> is set, no session of the started bridge, over TCP or WebSocket, gets a session
  key unless the client's response is signed, together with this connection's ServerHello, under the key
  in the configured file.\<close>

theorem required_client_auth_enforced:
  assumes "validate P env c = Ok cfg" "auth_require_client_auth (auth c)" "bridge_start E cfg = Ok b"
    and "handshake_phase S G K (session_context_of b) cin w r = (Ok key, rest, w', r')"
  shows "\<exists>path vk hs r1 buf. auth_client_vk_path (auth c) = Some path \<and> fs_read (se_fs E) path = Ok (vk_to_bytes vk) \<and>
    server_handshake_new K r = (hs, r1) \<and> cin = buf @ rest \<and> length buf = CLIENT_RESPONSE_SIGNED_LEN \<and>
    verify G vk (take CLIENT_RESPONSE_LEN buf @ server_hello_raw hs) (Signature (drop CLIENT_RESPONSE_LEN buf)) = Ok ()"
proof -
  note v = validate_start [OF assms(1)]
  from assms(3) obtain cvk where cvk: "load_client_vk (se_fs E) cfg = Ok cvk" "br_client_vk b = cvk"
    by (rule bridge_start_OkE) blast
  with load_client_vk_Ok(1) [OF cvk(1)] v(1) assms(2) obtain vk where vk: "br_client_vk b = Some vk" by auto
  from load_client_vk_Ok(2) [OF cvk(1)] cvk vk v(2) obtain path where
    "auth_client_vk_path (auth c) = Some path" "fs_read (se_fs E) path = Ok (vk_to_bytes vk)" by auto
  moreover from vk have "ctx_client_auth (session_context_of b) = Some vk" by (simp add: session_context_of_def)
  from handshake_phase_signed [OF assms(4) this] obtain hs r1 buf where "server_handshake_new K r = (hs, r1)"
    "cin = buf @ rest" "length buf = CLIENT_RESPONSE_SIGNED_LEN"
    "verify G vk (take CLIENT_RESPONSE_LEN buf @ server_hello_raw hs) (Signature (drop CLIENT_RESPONSE_LEN buf)) = Ok ()" .
  ultimately show ?thesis by blast
qed

theorem required_client_auth_enforced_witness:
  "\<exists>(E :: start_env) (b :: bridge) cin key w' r' vk hs r1 buf. bridge_start E demo_valid = Ok b \<and>
     handshake_phase toy_sym toy_sig toy_kex (session_context_of b) cin open_writer 3 = (Ok key, [], w', r') \<and>
     fs_read (se_fs E) ''c.vk'' = Ok (vk_to_bytes vk) \<and> server_handshake_new toy_kex 3 = (hs, r1) \<and>
     verify toy_sig vk (take CLIENT_RESPONSE_LEN buf @ server_hello_raw hs) (Signature (drop CLIENT_RESPONSE_LEN buf)) = Ok ()"
proof -
  obtain ssk svk a where kp1: "generate_keypair toy_sig toy_kex 1 = ((ssk, svk), a)" by (metis prod.exhaust)
  obtain csk cvk c where kp2: "generate_keypair toy_sig toy_kex 2 = ((csk, cvk), c)" by (metis prod.exhaust)
  obtain hs r1 where hs: "server_handshake_new toy_kex 3 = (hs, r1)" by (metis prod.exhaust)
  note wf = server_handshake_new_wf [OF toy_kex_laws(1) hs]
  obtain hello r2 where h: "server_hello_signed_bytes toy_sig toy_kex hs ssk r1 = (Ok hello, r2)"
    using wf by (rule toy_server_hello_signed)
  obtain resp key q1 where cr: "client_respond toy_sym toy_kex (server_client_hello toy_kex hs) 8 = (Ok (resp, key), q1)"
    using toy_kex_laws(2) toy_sym_laws(4) by (rule client_respond_total)
  obtain wire q2 where w: "serialize_client_response_signed toy_sig toy_kex resp csk (server_hello_raw hs) q1 = (Ok wire, q2)"
    using wf cr by (rule toy_response_signed)
  note acc = signed_response_accepted [OF toy_sig_laws(1) toy_kex_laws(1) kp2 wf cr w]
  obtain b where b: "bridge_start (demo_env ssk svk cvk) demo_valid = Ok b" "session_context_of b =
      \<lparr>ctx_identity = \<lparr>signing_key = ssk, verifying_key = svk\<rparr>, ctx_client_auth = Some cvk\<rparr>"
    using generate_keypair_lengths [OF toy_sig_laws(1) toy_kex_laws(1) kp1]
      generate_keypair_lengths [OF toy_sig_laws(1) toy_kex_laws(1) kp2] by (metis demo_starts)
  have p: "handshake_phase toy_sym toy_sig toy_kex (session_context_of b) wire open_writer 3 =
      (Ok key, [], open_writer\<lparr>w_sent := hello\<rparr>, r2)"
    using hs h acc by (simp add: b(2) handshake_phase_def write_flush_open open_writer_def read_exact_def)
  have "auth_require_client_auth (auth demo_config)" "auth_client_vk_path (auth demo_config) = Some ''c.vk''"
    by (simp_all add: demo_config_def)
  with required_client_auth_enforced [OF demo_validates _ b(1) p] obtain vk hs' r1' buf where
    "server_handshake_new toy_kex 3 = (hs', r1')" "fs_read (se_fs (demo_env ssk svk cvk)) ''c.vk'' = Ok (vk_to_bytes vk)"
    "verify toy_sig vk (take CLIENT_RESPONSE_LEN buf @ server_hello_raw hs')
       (Signature (drop CLIENT_RESPONSE_LEN buf)) = Ok ()" by auto
  with b(1) p show ?thesis by (intro exI conjI) assumption+
qed

section \<open>Routing of TLS connections\<close>

lemma read_http_head_complete:
  "read_http_head_inplace buf rs = (HrComplete head, rest) \<Longrightarrow> buf @ data_of rs = head @ data_of rest"
proof (induction buf rs rule: read_http_head_inplace.induct)
  case (2 buf r rs)
  then show ?case by (cases r) (auto simp: Let_def split: if_splits)
qed (simp split: if_splits)

text \<open>The head of a request, in terms of what the client sends: the chunks up to and with the first one that completes
  a blank line, each read while the buffer was below the limit.\<close>

definition head_chunks :: "bytes list \<Rightarrow> reads \<Rightarrow> reads \<Rightarrow> bool" where
  "head_chunks chunks rest rs \<longleftrightarrow> rs = map Inr chunks @ rest \<and> [] \<notin> set chunks \<and> has_blank_line (concat chunks) \<and>
     (\<forall>cs. strict_prefix cs chunks \<longrightarrow> \<not> has_blank_line (concat cs) \<and> length (concat cs) < MAX_HEAD_BYTES)"

lemma read_http_head_chunks:
  assumes "\<forall>cs. strict_prefix cs chunks \<longrightarrow> \<not> has_blank_line (buf @ concat cs) \<and> length (buf @ concat cs) < MAX_HEAD_BYTES"
    and "[] \<notin> set chunks" "has_blank_line (buf @ concat chunks)" "chunks \<noteq> []"
  shows "read_http_head_inplace buf (map Inr chunks @ rest) = (HrComplete (buf @ concat chunks), rest)"
  using assms
proof (induction chunks arbitrary: buf)
  case (Cons c chunks)
  have buf: "length buf < MAX_HEAD_BYTES" "c \<noteq> []" using Cons.prems(1) [rule_format, of "[]"] Cons.prems(2) by auto
  show ?case
  proof (cases "chunks = []")
    case True
    with buf Cons.prems(2,3) show ?thesis by (simp add: Let_def)
  next
    case False
    have pre: "\<not> has_blank_line ((buf @ c) @ concat cs) \<and> length ((buf @ c) @ concat cs) < MAX_HEAD_BYTES" if "strict_prefix cs chunks" for cs
      using Cons.prems(1) [rule_format, of "c # cs"] that by simp
    with False have "\<not> has_blank_line (buf @ c)" "length (buf @ c) < MAX_HEAD_BYTES" using pre [of "[]"] by (simp_all add: strict_prefix_def)
    with buf Cons.prems(2) Cons.IH [of "buf @ c"] pre Cons.prems(3) False show ?thesis by (simp add: Let_def not_le)
  qed
qed simp

lemma head_chunks_complete:
  assumes "head_chunks chunks rest rs"
  shows "read_http_head_inplace [] rs = (HrComplete (concat chunks), rest)"
proof -
  have "chunks \<noteq> []" using assms by (auto simp: head_chunks_def)
  with assms show ?thesis using read_http_head_chunks [of chunks "[]" rest] by (auto simp: head_chunks_def)
qed

lemma complete_head_chunks:
  assumes "read_http_head_inplace buf rs = (HrComplete head, rest)" "\<not> has_blank_line buf"
  shows "\<exists>chunks. rs = map Inr chunks @ rest \<and> head = buf @ concat chunks \<and> [] \<notin> set chunks \<and> has_blank_line head \<and>
    (\<forall>cs. strict_prefix cs chunks \<longrightarrow> \<not> has_blank_line (buf @ concat cs) \<and> length (buf @ concat cs) < MAX_HEAD_BYTES)"
  using assms
proof (induction buf rs rule: read_http_head_inplace.induct)
  case (2 buf r rs)
  then obtain c where r: "r = Inr c" and c: "c \<noteq> []" and l: "length buf < MAX_HEAD_BYTES" by (cases r) (auto split: if_splits)
  show ?case
  proof (cases "has_blank_line (buf @ c)")
    case True
    with "2.prems" r c l show ?thesis
      by (intro exI [of _ "[c]"]) (auto simp: Let_def strict_prefix_def prefix_Cons split: if_splits)
  next
    case False
    with "2.prems"(1) r c l have small: "length (buf @ c) < MAX_HEAD_BYTES" and rec: "read_http_head_inplace (buf @ c) rs = (HrComplete head, rest)"
      by (auto simp: Let_def split: if_splits)
    have "\<exists>chunks. rs = map Inr chunks @ rest \<and> head = (buf @ c) @ concat chunks \<and> [] \<notin> set chunks \<and> has_blank_line head \<and>
        (\<forall>cs. strict_prefix cs chunks \<longrightarrow> \<not> has_blank_line ((buf @ c) @ concat cs) \<and> length ((buf @ c) @ concat cs) < MAX_HEAD_BYTES)"
      by (rule "2.IH" [OF _ r c refl _ False rec False]) (use l small in auto)
    then obtain chunks where k: "rs = map Inr chunks @ rest" "head = (buf @ c) @ concat chunks" "[] \<notin> set chunks" "has_blank_line head"
      "\<forall>cs. strict_prefix cs chunks \<longrightarrow> \<not> has_blank_line ((buf @ c) @ concat cs) \<and> length ((buf @ c) @ concat cs) < MAX_HEAD_BYTES" by blast
    have "\<not> has_blank_line (buf @ concat cs) \<and> length (buf @ concat cs) < MAX_HEAD_BYTES" if "strict_prefix cs (c # chunks)" for cs
      using that k(5) l "2.prems"(2) by (cases cs) (auto simp: strict_prefix_def)
    with k r c show ?thesis by (intro exI [of _ "c # chunks"]) simp
  qed
qed (simp split: if_splits)

text \<open>Copying while both sides only send: each turn moves the next chunk.\<close>

lemma copy_select_moves:
  assumes "[] \<notin> set cs" "[] \<notin> set bs" "count_list sched True \<le> length cs" "count_list sched False \<le> length bs"
    and "w_budget w = None" "w_budget v = None"
  shows "copy_select sched \<lparr>cp_reads = map Inr cs @ x, cp_w = w\<rparr> \<lparr>cp_reads = map Inr bs @ y, cp_w = v\<rparr> =
    (Copying, \<lparr>cp_reads = map Inr (drop (count_list sched True) cs) @ x, cp_w = w\<lparr>w_sent := w_sent w @ concat (take (count_list sched True) cs)\<rparr>\<rparr>,
       \<lparr>cp_reads = map Inr (drop (count_list sched False) bs) @ y, cp_w = v\<lparr>w_sent := w_sent v @ concat (take (count_list sched False) bs)\<rparr>\<rparr>)"
  using assms
proof (induction sched arbitrary: cs bs w v)
  case (Cons first sched)
  show ?case
  proof (cases first)
    case True
    with Cons.prems obtain c cs' where "cs = c # cs'" by (cases cs) auto
    moreover with Cons.prems(1) have "c \<noteq> []" by auto
    ultimately show ?thesis using True Cons by (simp add: copy_step_def write_all_unbounded)
  next
    case False
    with Cons.prems obtain c bs' where "bs = c # bs'" by (cases bs) auto
    moreover with Cons.prems(2) have "c \<noteq> []" by auto
    ultimately show ?thesis using False Cons by (simp add: copy_step_def write_all_unbounded)
  qed
qed simp

lemma relay_moves:
  assumes "w_budget bw = None" "w_budget cw = None" "[] \<notin> set cs" "[] \<notin> set bs"
    and "count_list sched True \<le> length cs" "count_list sched False \<le> length bs"
  shows "handle_with_preread (Ok (map Inr bs @ y, bw)) sched head (map Inr cs @ x) cw =
    (RelayRunning, cw\<lparr>w_sent := w_sent cw @ concat (take (count_list sched False) bs)\<rparr>,
       Some (bw\<lparr>w_sent := w_sent bw @ head @ concat (take (count_list sched True) cs)\<rparr>))"
  using assms copy_select_moves [of cs bs sched "bw\<lparr>w_sent := w_sent bw @ head\<rparr>" cw x y]
  by (simp add: handle_with_preread_def write_all_unbounded)

text \<open>C15. Routing on the TLS listener is exact. When the client's bytes complete a request head: if it is a
  \<open>GET /vk/\<close> request, the client gets exactly the answer of the token store, the store takes the step
  of that answer, and the backend is not contacted; otherwise the store is untouched, and the backend gets the
  client's bytes from the very beginning, head first: a prefix of them always, and while both sides send, exactly the head and one more chunk for
  every turn of the client's direction, as the client gets one chunk of the backend's for every turn of the other
  (a backend that cannot be reached makes a 502 answer). Without a complete head, or
  without TLS, no token is consulted and the backend is not contacted; the client gets at most a 400 answer.\<close>

theorem tls_connection_routed:
  assumes "w_budget (tc_writer conn) = None"
  shows "(\<forall>chunks rest token. tc_accepted conn \<and> head_chunks chunks rest (tc_reads conn) \<and> extract_vk_token parser (concat chunks) = Some token \<longrightarrow>
      tls_connection parser conn store = (RelayDone, (tc_writer conn)\<lparr>w_sent := w_sent (tc_writer conn) @ ascii (fst (vk_response token (tc_now conn) store))\<rparr>,
        None, snd (vk_response token (tc_now conn) store), Some token)) \<and>
    (\<forall>chunks rest. tc_accepted conn \<and> head_chunks chunks rest (tc_reads conn) \<and> extract_vk_token parser (concat chunks) = None \<longrightarrow>
      (\<forall>e. tc_backend conn = Err e \<longrightarrow>
        tls_connection parser conn store = (RelayDone, (tc_writer conn)\<lparr>w_sent := w_sent (tc_writer conn) @ bad_gateway\<rparr>, None, store, None)) \<and>
      (\<forall>br bw. tc_backend conn = Ok (br, bw) \<longrightarrow> (\<exists>status cw w d e. tls_connection parser conn store = (status, cw, Some w, store, None) \<and>
        w_sent w = w_sent bw @ d \<and> prefix d (data_of (tc_reads conn)) \<and> w_sent cw = w_sent (tc_writer conn) @ e \<and> prefix e (data_of br))) \<and>
      (\<forall>cs x bs y bw. rest = map Inr cs @ x \<and> tc_backend conn = Ok (map Inr bs @ y, bw) \<and> w_budget bw = None \<and> [] \<notin> set cs \<and> [] \<notin> set bs \<and>
          count_list (tc_sched conn) True \<le> length cs \<and> count_list (tc_sched conn) False \<le> length bs \<longrightarrow>
        tls_connection parser conn store =
          (RelayRunning, (tc_writer conn)\<lparr>w_sent := w_sent (tc_writer conn) @ concat (take (count_list (tc_sched conn) False) bs)\<rparr>,
           Some (bw\<lparr>w_sent := w_sent bw @ concat chunks @ concat (take (count_list (tc_sched conn) True) cs)\<rparr>), store, None))) \<and>
    ((\<nexists>chunks rest. tc_accepted conn \<and> head_chunks chunks rest (tc_reads conn)) \<longrightarrow>
      (\<exists>status cw. tls_connection parser conn store = (status, cw, None, store, None) \<and>
         w_sent cw \<in> {w_sent (tc_writer conn), w_sent (tc_writer conn) @ bad_request}))"
proof (intro conjI allI impI; (elim conjE)?)
  fix chunks rest token
  assume "tc_accepted conn" "head_chunks chunks rest (tc_reads conn)" "extract_vk_token parser (concat chunks) = Some token"
  then show "tls_connection parser conn store = (RelayDone, (tc_writer conn)\<lparr>w_sent := w_sent (tc_writer conn) @ ascii (fst (vk_response token (tc_now conn) store))\<rparr>,
      None, snd (vk_response token (tc_now conn) store), Some token)"
    using assms by (simp add: tls_connection_def head_chunks_complete write_all_unbounded split: prod.splits)
next
  fix chunks rest e
  assume "tc_accepted conn" "head_chunks chunks rest (tc_reads conn)" "extract_vk_token parser (concat chunks) = None" "tc_backend conn = Err e"
  then show "tls_connection parser conn store = (RelayDone, (tc_writer conn)\<lparr>w_sent := w_sent (tc_writer conn) @ bad_gateway\<rparr>, None, store, None)"
    using assms by (simp add: tls_connection_def head_chunks_complete handle_with_preread_def write_all_unbounded)
next
  fix chunks rest br bw
  assume h: "tc_accepted conn" "head_chunks chunks rest (tc_reads conn)" "extract_vk_token parser (concat chunks) = None" "tc_backend conn = Ok (br, bw)"
  note c = head_chunks_complete [OF h(2)]
  obtain status cw w where r: "handle_with_preread (Ok (br, bw)) (tc_sched conn) (concat chunks) rest (tc_writer conn) = (status, cw, Some w)"
    by (cases "handle_with_preread (Ok (br, bw)) (tc_sched conn) (concat chunks) rest (tc_writer conn)")
      (auto simp: handle_with_preread_def split: prod.splits sum.splits)
  have "data_of (tc_reads conn) = concat chunks @ data_of rest" using read_http_head_complete [OF c] by simp
  with h c r relay_delivers [OF r] show "\<exists>status cw w d e. tls_connection parser conn store = (status, cw, Some w, store, None) \<and>
      w_sent w = w_sent bw @ d \<and> prefix d (data_of (tc_reads conn)) \<and> w_sent cw = w_sent (tc_writer conn) @ e \<and> prefix e (data_of br)"
    by (simp add: tls_connection_def)
next
  fix chunks rest cs x bs y bw
  assume "tc_accepted conn" "head_chunks chunks rest (tc_reads conn)" "extract_vk_token parser (concat chunks) = None"
    "rest = map Inr cs @ x" "tc_backend conn = Ok (map Inr bs @ y, bw)" "w_budget bw = None" "[] \<notin> set cs" "[] \<notin> set bs"
    "count_list (tc_sched conn) True \<le> length cs" "count_list (tc_sched conn) False \<le> length bs"
  then show "tls_connection parser conn store =
      (RelayRunning, (tc_writer conn)\<lparr>w_sent := w_sent (tc_writer conn) @ concat (take (count_list (tc_sched conn) False) bs)\<rparr>,
       Some (bw\<lparr>w_sent := w_sent bw @ concat chunks @ concat (take (count_list (tc_sched conn) True) cs)\<rparr>), store, None)"
    using assms by (simp add: tls_connection_def head_chunks_complete relay_moves)
next
  assume no: "\<nexists>chunks rest. tc_accepted conn \<and> head_chunks chunks rest (tc_reads conn)"
  have "\<exists>chunks. head_chunks chunks rest (tc_reads conn)" if "read_http_head_inplace [] (tc_reads conn) = (HrComplete head, rest)" for head rest
    using complete_head_chunks [OF that] unfolding head_chunks_def by auto
  with no have "\<not> tc_accepted conn \<or> (\<nexists>head rest. read_http_head_inplace [] (tc_reads conn) = (HrComplete head, rest))" by blast
  with assms show "\<exists>status cw. tls_connection parser conn store = (status, cw, None, store, None) \<and>
      w_sent cw \<in> {w_sent (tc_writer conn), w_sent (tc_writer conn) @ bad_request}"
    by (auto simp: tls_connection_def write_all_unbounded split: prod.splits head_result.splits)
qed

definition demo_parser :: httparse where
  "demo_parser b = (if has_blank_line b then Ok (Complete (length b) (Some ''GET'') (Some (if hd b = 1 then ''/vk/t'' else ''/''))) else Ok Partial)"

definition demo_tls_conn :: "byte \<Rightarrow> tls_conn" where
  "demo_tls_conn b = \<lparr>tc_accepted = True, tc_reads = [Ok [b, 13, 10], Ok [13, 10, 9], Ok [8]],
     tc_writer = open_writer, tc_backend = Ok ([Ok [7]], open_writer), tc_sched = [True, False], tc_now = 0\<rparr>"

theorem tls_connection_routed_witness:
  "tls_connection demo_parser (demo_tls_conn 2) new_store =
     (RelayRunning, open_writer\<lparr>w_sent := [7]\<rparr>, Some (open_writer\<lparr>w_sent := [2, 13, 10, 13, 10, 9, 8]\<rparr>), new_store, None) \<and>
   tls_connection demo_parser (demo_tls_conn 1) new_store =
     (RelayDone, open_writer\<lparr>w_sent := ascii (fst (vk_response ''t'' 0 new_store))\<rparr>, None, snd (vk_response ''t'' 0 new_store), Some ''t'')"
proof -
  have hc: "head_chunks [[b, 13, 10], [13, 10, 9]] [Ok [8]] (tc_reads (demo_tls_conn b))" for b
    by (auto simp: head_chunks_def demo_tls_conn_def MAX_HEAD_BYTES_def strict_prefix_def prefix_Cons)
  have tok: "extract_vk_token demo_parser (concat [[2, 13, 10], [13, 10, 9]]) = None"
    "extract_vk_token demo_parser (concat [[1, 13, 10], [13, 10, 9]]) = Some ''t''"
    by (simp_all add: extract_vk_token_def demo_parser_def strip_prefix_def)
  have w: "w_budget (tc_writer (demo_tls_conn b)) = None" for b by (simp add: demo_tls_conn_def open_writer_def)
  note r = tls_connection_routed [OF w, THEN conjunct2, THEN conjunct1, rule_format, THEN conjunct2, THEN conjunct2, rule_format]
    tls_connection_routed [OF w, THEN conjunct1, rule_format]
  have sel [simp]: "tc_writer (demo_tls_conn b) = open_writer" "tc_sched (demo_tls_conn b) = [True, False]" "tc_now (demo_tls_conn b) = 0"
    "tc_accepted (demo_tls_conn b)" "tc_backend (demo_tls_conn b) = Ok ([Ok [7]], open_writer)" for b by (simp_all add: demo_tls_conn_def)
  have p: "tc_accepted (demo_tls_conn 2) \<and> head_chunks [[2, 13, 10], [13, 10, 9]] [Ok [8]] (tc_reads (demo_tls_conn 2)) \<and>
      extract_vk_token demo_parser (concat [[2, 13, 10], [13, 10, 9]]) = None"
    "tc_accepted (demo_tls_conn 1) \<and> head_chunks [[1, 13, 10], [13, 10, 9]] [Ok [8]] (tc_reads (demo_tls_conn 1)) \<and>
      extract_vk_token demo_parser (concat [[1, 13, 10], [13, 10, 9]]) = Some ''t''"
    using hc [of 2] hc [of 1] tok by simp_all
  show ?thesis
    using r(1) [OF p(1), of "[[8]]" "[]" "[[7]]" "[]" open_writer new_store] r(2) [OF p(2), of new_store]
    by (simp add: open_writer_def [symmetric])
qed

section \<open>Tokens across the listeners\<close>

text \<open>Connections of the admin and of the TLS listener work on the same store. A history of both, with the
  tokens it created and the tokens it answered with status 200.\<close>

datatype bridge_event = TlsEvent tls_conn | AdminEvent admin_conn

fun bridge_event_step ::
  "sym_prims \<Rightarrow> sig_prims \<Rightarrow> ('r, 'x, 'dk, 'ek) kex_prims \<Rightarrow> admin_codec \<Rightarrow> httparse \<Rightarrow> bridge_event \<Rightarrow> admin_services \<Rightarrow> 'r \<Rightarrow>
   admin_services \<times> string list \<times> string list \<times> 'r" where
  "bridge_event_step S G K J parser (TlsEvent conn) svc r =
    (case tls_connection parser conn (as_vk_store svc) of (_, _, _, store', asked) \<Rightarrow>
       (svc\<lparr>as_vk_store := store'\<rparr>, [],
        case asked of None \<Rightarrow> []
        | Some t \<Rightarrow> if is_200 (fst (vk_response t (tc_now conn) (as_vk_store svc))) then [t] else [], r))"
| "bridge_event_step S G K J parser (AdminEvent conn) svc r =
    (case handle_admin_connection S G K J conn svc r of (_, executed, svc', r') \<Rightarrow>
       (svc', case executed of None \<Rightarrow> []
        | Some f \<Rightarrow> if frame_cmd f = GetVkToken
            then (case create_token S (ac_uuid conn) (ac_now conn) (as_vk_store svc)
                    (vk_to_bytes (verifying_key (as_identity svc))) (DEFAULT_TOKEN_TTL_SECS * 10 ^ 9) (as_max_tokens svc) of
                 (Ok (token, _), _) \<Rightarrow> [token] | (Err _, _) \<Rightarrow> [])
            else [], [], r'))"

fun bridge_history ::
  "sym_prims \<Rightarrow> sig_prims \<Rightarrow> ('r, 'x, 'dk, 'ek) kex_prims \<Rightarrow> admin_codec \<Rightarrow> httparse \<Rightarrow> bridge_event list \<Rightarrow> admin_services \<Rightarrow> 'r \<Rightarrow>
   admin_services \<times> string list \<times> string list" where
  "bridge_history S G K J parser [] svc r = (svc, [], [])"
| "bridge_history S G K J parser (ev # evs) svc r =
    (case bridge_event_step S G K J parser ev svc r of (svc1, c1, g1, r1) \<Rightarrow>
       (case bridge_history S G K J parser evs svc1 r1 of (svc2, c2, g2) \<Rightarrow> (svc2, c1 @ c2, g1 @ g2)))"

lemma store_run_append:
  "store_run S s (xs @ ys) = (case store_run S s xs of (s1, c1, g1) \<Rightarrow>
     (case store_run S s1 ys of (s2, c2, g2) \<Rightarrow> (s2, c1 @ c2, g1 @ g2)))"
  by (induction xs arbitrary: s) (auto split: prod.splits)

text \<open>Each connection is at most one operation of the store.\<close>

lemma tls_connection_store:
  assumes "tls_connection parser conn s = (st, cw, bw, s', asked)"
  shows "\<exists>ops. store_run S s ops =
    (s', [], case asked of None \<Rightarrow> [] | Some t \<Rightarrow> if is_200 (fst (vk_response t (tc_now conn) s)) then [t] else [])"
proof (cases asked)
  case None
  with assms have "s' = s"
    by (auto simp: tls_connection_def split: if_splits prod.splits head_result.splits option.splits)
  with None show ?thesis by (intro exI [of _ "[]"]) simp
next
  case (Some t)
  with assms have "s' = snd (vk_response t (tc_now conn) s)"
    by (auto simp: tls_connection_def split: if_splits prod.splits head_result.splits option.splits)
  with Some show ?thesis by (intro exI [of _ "[Get t (tc_now conn)]"]) (simp split: prod.splits)
qed

lemma admin_executed_store:
  assumes "handle_admin_connection S G K J conn svc r = (st, Some f, svc', r')"
  shows "as_vk_store svc' = (if frame_cmd f = GetVkToken
    then snd (create_token S (ac_uuid conn) (ac_now conn) (as_vk_store svc) (vk_to_bytes (verifying_key (as_identity svc)))
      (DEFAULT_TOKEN_TTL_SECS * 10 ^ 9) (as_max_tokens svc)) else as_vk_store svc)"
proof -
  from assms obtain ch w w' where "admin_execute S J conn f ch w svc = (st, w', svc')"
    by (auto simp: handle_admin_connection_def split: prod.splits option.splits if_splits)
  then have "svc' = snd (dispatch S (ac_uuid conn) (ac_now conn) (frame_cmd f) (raise_seq svc (frame_seq f)))"
    by (auto simp: execute_defs Let_def split: prod.splits option.splits sum.splits)
  then show ?thesis
    by (cases "frame_cmd f") (auto simp: dispatch_def handle_rotate_def handle_get_vk_token_def raise_seq_def
        split: prod.splits sum.splits vk_share_error.splits)
qed

lemma create_token_name: "create_token S t now s vk ttl m = (Ok (t', fpr), s') \<Longrightarrow> t' = t"
  by (auto simp: create_token_def Let_def split: if_splits)

lemma bridge_event_store:
  assumes "bridge_event_step S G K J parser ev svc r = (svc', c, g, r')"
  shows "\<exists>ops. store_run S (as_vk_store svc) ops = (as_vk_store svc', c, g)"
proof (cases ev)
  case (TlsEvent conn)
  obtain st cw bw s' asked where t: "tls_connection parser conn (as_vk_store svc) = (st, cw, bw, s', asked)"
    by (metis prod.exhaust)
  with assms TlsEvent tls_connection_store [OF t, of S] show ?thesis by auto
next
  case (AdminEvent conn)
  obtain st ex where h: "handle_admin_connection S G K J conn svc r = (st, ex, svc', r')"
    using assms AdminEvent by (auto split: prod.splits)
  let ?ct = "create_token S (ac_uuid conn) (ac_now conn) (as_vk_store svc) (vk_to_bytes (verifying_key (as_identity svc)))
    (DEFAULT_TOKEN_TTL_SECS * 10 ^ 9) (as_max_tokens svc)"
  show ?thesis
  proof (cases "\<exists>f. ex = Some f \<and> frame_cmd f = GetVkToken")
    case True
    then obtain f where f: "ex = Some f" "frame_cmd f = GetVkToken" by blast
    obtain res s' where ct: "?ct = (res, s')" by fastforce
    from admin_executed_store [OF h [unfolded f(1)]] f(2) ct have "as_vk_store svc' = s'" by simp
    with assms AdminEvent h f ct show ?thesis
      by (intro exI [of _ "[Create (ac_uuid conn) (vk_to_bytes (verifying_key (as_identity svc)))
            (DEFAULT_TOKEN_TTL_SECS * 10 ^ 9) (as_max_tokens svc) (ac_now conn)]"])
        (auto dest: create_token_name split: sum.splits)
  next
    case False
    have "as_vk_store svc' = as_vk_store svc"
    proof (cases ex)
      case None
      with h show ?thesis by (auto simp: handle_admin_connection_def split: prod.splits option.splits if_splits)
    next
      case (Some f)
      with False admin_executed_store [OF h [unfolded Some]] show ?thesis by simp
    qed
    with assms AdminEvent h False show ?thesis by (intro exI [of _ "[]"]) (auto split: option.splits)
  qed
qed

lemma bridge_history_store:
  "bridge_history S G K J parser evs svc r = (svc', c, g) \<Longrightarrow> \<exists>ops. store_run S (as_vk_store svc) ops = (as_vk_store svc', c, g)"
proof (induction evs arbitrary: svc r c g)
  case Nil
  then show ?case by (intro exI [of _ "[]"]) simp
next
  case (Cons ev evs)
  obtain svc1 c1 g1 r1 where st: "bridge_event_step S G K J parser ev svc r = (svc1, c1, g1, r1)" by (metis prod.exhaust)
  obtain c2 g2 where run: "bridge_history S G K J parser evs svc1 r1 = (svc', c2, g2)" "c = c1 @ c2" "g = g1 @ g2"
    using Cons.prems st by (auto split: prod.splits)
  from bridge_event_store [OF st] Cons.IH [OF run(1)] obtain o1 o2 where
    "store_run S (as_vk_store svc) o1 = (as_vk_store svc1, c1, g1)" "store_run S (as_vk_store svc1) o2 = (as_vk_store svc', c2, g2)"
    by blast
  with run show ?case by (intro exI [of _ "o1 @ o2"]) (simp add: store_run_append)
qed

text \<open>C8. Download tokens are single-use over the whole bridge: in every history of admin and TLS connections,
  whatever the peers send, each token is answered with the key at most once, and only a token that an
  admin command created is ever answered, provided the generated tokens are different.\<close>

theorem bridge_tokens_single_use:
  assumes "bridge_history S G K J parser evs svc r = (svc', created, served)" "as_vk_store svc = new_store" "distinct created"
  shows "distinct served \<and> set served \<subseteq> set created"
  using bridge_history_store [OF assms(1)] assms(2,3) store_run_single_use by metis

definition token_codec :: admin_codec where
  "token_codec = \<lparr>command_from_json = (\<lambda>_. Some \<lparr>frame_seq = 5, frame_cmd = GetVkToken\<rparr>), response_to_json = (\<lambda>_. Some [2])\<rparr>"

definition token_request :: "string \<Rightarrow> httparse" where
  "token_request t = (\<lambda>b. Ok (Complete (length b) (Some ''GET'') (Some (''/vk/'' @ t))))"

theorem bridge_tokens_single_use_witness:
  "\<exists>(svc :: admin_services) (conn :: admin_conn) (get :: tls_conn) svc' token.
     bridge_history toy_sym toy_sig toy_kex token_codec (token_request token) [AdminEvent conn, TlsEvent get, TlsEvent get] svc 3 =
       (svc', [token], [token]) \<and> distinct [token]"
proof -
  obtain svc :: admin_services and conn :: admin_conn and r2 hs r1 hello b cp_sk b' q resp key q1 wire q2 ch fw where
    d: "server_handshake_new toy_kex 3 = (hs, r1)"
    "server_hello_signed_bytes toy_sig toy_kex hs (signing_key (as_identity svc)) r1 = (Ok hello, r2)"
    "generate_keypair toy_sig toy_kex b = ((cp_sk, as_cp_vk svc), b')"
    "client_respond toy_sym toy_kex (server_client_hello toy_kex hs) q = (Ok (resp, key), q1)"
    "serialize_client_response_signed toy_sig toy_kex resp cp_sk (server_hello_raw hs) q1 = (Ok wire, q2)"
    "write_frame toy_sym (channel_new (key_as_bytes key) 65536) open_writer [1] = (Ok (), ch, fw)"
    and e: "ac_stream conn = wire @ w_sent fw" "\<not> ac_elapsed conn" "w_budget (ac_writer conn) = None"
    and z: "as_cmd_seq svc = 4" "as_vk_store svc = new_store" "as_max_tokens svc = 1000" by (rule demo_admin) blast
  let ?f = "\<lparr>frame_seq = 5, frame_cmd = GetVkToken\<rparr>" and ?t = "ac_uuid conn"
  have j: "length [1 :: byte] \<le> 64 * 1024" "command_from_json token_codec [1] = Some ?f" by (simp_all add: token_codec_def)
  obtain ch' w' where rc: "admin_receive toy_sym toy_sig toy_kex token_codec svc conn 3 = (Some (?f, ch', w'), r2)"
    using toy_sig_laws(1) toy_kex_laws(1) toy_sym_laws(1) d j e by (rule admin_receive_honest) blast
  have adm: "admin_admit svc 5" by (simp add: admin_admit_def is_seq_valid_def z word_less_nat_alt)
  obtain st w2 svc1 where ex: "admin_execute toy_sym token_codec conn ?f ch' w' svc = (st, w2, svc1)" by (metis prod.exhaust)
  have h: "handle_admin_connection toy_sym toy_sig toy_kex token_codec conn svc 3 = (st, Some ?f, svc1, r2)"
    using rc adm ex by (simp add: handle_admin_connection_def)
  define ent where "ent = (let vk = vk_to_bytes (verifying_key (as_identity svc)) in
    \<lparr>vk_hex = hex_encode vk, vk_fingerprint = sha256_hex toy_sym vk, expires_at = ac_now conn + DEFAULT_TOKEN_TTL_SECS * 10 ^ 9, used = False\<rparr>)"
  have ct: "create_token toy_sym ?t (ac_now conn) (as_vk_store svc) (vk_to_bytes (verifying_key (as_identity svc)))
      (DEFAULT_TOKEN_TTL_SECS * 10 ^ 9) (as_max_tokens svc) = (Ok (?t, vk_fingerprint ent), [(?t, ent)])"
    by (simp add: create_token_def z new_store_def ent_def Let_def)
  from admin_executed_store [OF h] ct have s1: "as_vk_store svc1 = [(?t, ent)]" by simp
  let ?get = "\<lparr>tc_accepted = True, tc_reads = [Ok [13, 10, 13, 10]], tc_writer = open_writer,
    tc_backend = Err ConnectionRefused, tc_sched = [], tc_now = ac_now conn\<rparr>"
  have g1: "vk_response ?t (ac_now conn) [(?t, ent)] = (http_json_response 200 (vk_body ent), [(?t, ent\<lparr>used := True\<rparr>)])"
    by (simp add: vk_response_def ent_def Let_def)
  have g2: "vk_response ?t (ac_now conn) [(?t, ent\<lparr>used := True\<rparr>)] =
      (http_json_response 410 (json_error ''token already used''), [(?t, ent\<lparr>used := True\<rparr>)])"
    by (simp add: vk_response_def ent_def Let_def)
  have tls: "tls_connection (token_request ?t) ?get s =
      (RelayDone, snd (write_all (ascii (fst (vk_response ?t (ac_now conn) s))) open_writer), None, snd (vk_response ?t (ac_now conn) s), Some ?t)" for s
    by (simp add: tls_connection_def MAX_HEAD_BYTES_def extract_vk_token_def token_request_def strip_prefix_def split: prod.splits)
  obtain svc' where bh: "bridge_history toy_sym toy_sig toy_kex token_codec (token_request ?t)
      [AdminEvent conn, TlsEvent ?get, TlsEvent ?get] svc 3 = (svc', [?t], [?t])"
    using h ct s1 g1 g2 by (simp add: tls is_200_response)
  from bridge_tokens_single_use [OF bh z(2)] bh show ?thesis
    by (intro exI [of _ svc] exI [of _ conn] exI [of _ ?get] exI [of _ svc'] exI [of _ ?t]) simp
qed

section \<open>Shutdown\<close>

lemma drain_bound: "drain timeout t hs \<le> t + length hs * timeout"
proof (induction timeout t hs rule: drain.induct)
  case (3 timeout t e hs)
  have "max t (min e (t + timeout)) \<le> t + timeout" by simp
  with 3 show ?case by simp
qed simp_all

lemma drain_stuck: "drain timeout t (replicate n None @ hs) = drain timeout (t + n * timeout) hs"
  by (induction n arbitrary: t) (simp_all add: add.assoc)

lemma drain_finished: "\<forall>h \<in> set hs. \<exists>e. h = Some e \<and> e \<le> t \<Longrightarrow> drain timeout t hs = t"
  by (induction hs) (auto simp: max_absorb1 min.coboundedI1)

text \<open>The drain phase ends, and how long it can take: at most one \<open>shutdown_timeout\<close> for each session and
  for each of the at most six other tasks. The bound grows with the number of sessions: with \<open>n\<close> sessions
  that do not end and everything else over, the phase takes exactly \<open>n\<close> timeouts.\<close>

theorem drain_takes_a_timeout_per_session:
  "shutdown_drain cfg sessions th qh ah wh ch mh \<le> (length sessions + 6) * vc_shutdown_timeout cfg \<and>
   shutdown_drain cfg (replicate n None) None None None None None (Some 0) = n * vc_shutdown_timeout cfg"
proof
  let ?opt = "\<lambda>h. case h of None \<Rightarrow> [] | Some t \<Rightarrow> [t :: nat option]"
  let ?hs = "sessions @ ?opt th @ ?opt qh @ ?opt ah @ ?opt wh @ ?opt ch @ [mh]"
  have "length (?opt h) \<le> 1" for h by (simp split: option.splits)
  then have "length ?hs \<le> length sessions + 6"
    using add_mono [OF add_mono [OF add_mono [OF add_mono]]] by (auto simp: add.assoc split: option.splits)
  then have "length ?hs * vc_shutdown_timeout cfg \<le> (length sessions + 6) * vc_shutdown_timeout cfg"
    by (rule mult_le_mono1)
  with drain_bound [of "vc_shutdown_timeout cfg" 0 ?hs]
  show "shutdown_drain cfg sessions th qh ah wh ch mh \<le> (length sessions + 6) * vc_shutdown_timeout cfg"
    unfolding shutdown_drain_def Let_def add_0 by (rule le_trans)
  show "shutdown_drain cfg (replicate n None) None None None None None (Some 0) = n * vc_shutdown_timeout cfg"
    by (simp add: shutdown_drain_def drain_stuck)
qed

end
