(* ===== verification/Cli.thy ===== *)
theory Cli
  imports Admin Client_Session Tls
begin

text \<open>
  The programs around the bridge and the client proxy: the key management tool,
  \<open>latticeshield-cli/src/main.rs\<close> (\<open>keygen\<close>, \<open>vk-info\<close>, \<open>vk-share\<close> with \<open>run_admin_command\<close>, the
  client of the admin channel), the subcommands of \<open>latticeshield-bridge/src/main.rs\<close>
  (\<open>admin_keygen\<close>), and the start-up and accept loop of the client proxy, \<open>main.rs\<close> and \<open>server.rs\<close> of
  \<open>latticeshield-client\<close>. What a program prints is its result; argument parsing belongs to \<open>clap\<close>.
\<close>

section \<open>The admin client\<close>

text \<open>The tool's own copies of the protocol types. Its \<open>CommandFrame\<close> has the command's name as a string; of the responses
  it knows two, and every other tag is \<open>Unknown\<close>. An internally tagged enum can also come as an array, tag first.\<close>

datatype cli_response = CliVkToken string string | CliError string | CliUnknown

definition cli_command_json :: "u64 \<Rightarrow> string \<Rightarrow> json" where
  "cli_command_json seq cmd = JObj [(''seq'', JUInt seq), (''cmd'', JStr cmd)]"

fun json_string :: "json option \<Rightarrow> string option" where
  "json_string (Some (JStr s)) = Some s"
| "json_string _ = None"

definition cli_variant :: "string \<Rightarrow> (string \<times> json) list \<Rightarrow> cli_response option" where
  "cli_variant tag kvs =
    (if tag = ''VkToken'' then Option.bind (json_string (json_field ''token'' kvs)) (\<lambda>token.
       map_option (CliVkToken token) (json_string (json_field ''url'' kvs)))
     else if tag = ''Error'' then map_option CliError (json_string (json_field ''message'' kvs))
     else Some CliUnknown)"

definition cli_variant_seq :: "string \<Rightarrow> json list \<Rightarrow> cli_response option" where
  "cli_variant_seq tag vs =
    (if tag = ''VkToken'' then (case vs of [JStr token, JStr url] \<Rightarrow> Some (CliVkToken token url) | _ \<Rightarrow> None)
     else if tag = ''Error'' then (case vs of [JStr message] \<Rightarrow> Some (CliError message) | _ \<Rightarrow> None)
     else if vs = [] then Some CliUnknown else None)"

fun cli_response_of_json :: "json \<Rightarrow> cli_response option" where
  "cli_response_of_json (JObj kvs) = Option.bind (json_string (json_field ''type'' kvs)) (\<lambda>tag.
     cli_variant tag (filter (\<lambda>kv. fst kv \<noteq> ''type'') kvs))"
| "cli_response_of_json (JArr (JStr tag # vs)) = cli_variant_seq tag vs"
| "cli_response_of_json _ = None"

datatype cli_error =
    CliConnect io_error | CliHello io_error | CliBridgeAuth | CliRespond handshake_error | CliSign handshake_error
  | CliWriteResponse io_error | CliWriteFrame frame_error | CliReadFrame frame_error
  | CliKeyRotate | CliParse | CliAdmin string | CliUnexpected | CliTimeout
  | CliLoadVk vk_load_error | CliLoadSk load_error

text \<open>\<open>run_admin_command\<close> on a connected stream: the bytes the bridge delivers and the writer to it;
  \<open>micros\<close> is the clock in microseconds. Serialising the command cannot fail.\<close>

definition run_admin_command ::
  "sym_prims \<Rightarrow> sig_prims \<Rightarrow> ('r, 'x, 'dk, 'ek) kex_prims \<Rightarrow> json_text \<Rightarrow> verifying_key \<Rightarrow> identity \<Rightarrow> u64 \<Rightarrow> bytes \<Rightarrow> writer \<Rightarrow> 'r \<Rightarrow>
   (cli_error + string \<times> string) \<times> writer \<times> 'r" where
  "run_admin_command S G K T bridge_vk admin_identity micros stream w r =
    (case read_exact SERVER_HELLO_SIGNED_LEN stream of
       None \<Rightarrow> (Err (CliHello UnexpectedEof), w, r)
     | Some (hello_buf, stream1) \<Rightarrow>
        (let hello_raw = take SERVER_HELLO_LEN hello_buf
         in case parse_server_hello_signed G K hello_buf bridge_vk of
              Err _ \<Rightarrow> (Err CliBridgeAuth, w, r)
            | Ok hello \<Rightarrow> (case client_respond S K hello r of
                (Err e, r1) \<Rightarrow> (Err (CliRespond e), w, r1)
              | (Ok (response, key), r1) \<Rightarrow>
                 (case serialize_client_response_signed G K response (signing_key admin_identity) hello_raw r1 of
                    (Err e, r2) \<Rightarrow> (Err (CliSign e), w, r2)
                  | (Ok signed_resp, r2) \<Rightarrow> (case write_all signed_resp w of
                      (Err e, w1) \<Rightarrow> (Err (CliWriteResponse e), w1, r2)
                    | (Ok _, w1) \<Rightarrow>
                       (let cmd = json_to_vec T (cli_command_json micros ''GetVkToken'')
                        in case write_frame S (channel_new (key_as_bytes key) (64 * 1024)) w1 cmd of
                          (Err e, _, w2) \<Rightarrow> (Err (CliWriteFrame e), w2, r2)
                        | (Ok _, ch, w2) \<Rightarrow> (case read_frame S ch stream1 of
                            (Err e, _, _) \<Rightarrow> (Err (CliReadFrame e), w2, r2)
                          | (Ok (KeyRotate _), _, _) \<Rightarrow> (Err CliKeyRotate, w2, r2)
                          | (Ok (Data resp_bytes), _, _) \<Rightarrow> (case Option.bind (json_from_slice T resp_bytes) cli_response_of_json of
                              None \<Rightarrow> (Err CliParse, w2, r2)
                            | Some (CliVkToken token url) \<Rightarrow> (Ok (token, url), w2, r2)
                            | Some (CliError message) \<Rightarrow> (Err (CliAdmin message), w2, r2)
                            | Some CliUnknown \<Rightarrow> (Err CliUnexpected, w2, r2)))))))))"

text \<open>\<open>cmd_vk_share\<close>: both keys are loaded first; \<open>elapsed\<close> says that the timeout fired, \<open>connect\<close> is the
  result of connecting.\<close>

definition cmd_vk_share ::
  "sym_prims \<Rightarrow> sig_prims \<Rightarrow> ('r, 'x, 'dk, 'ek) kex_prims \<Rightarrow> json_text \<Rightarrow> filesys \<Rightarrow> string \<Rightarrow> string \<Rightarrow> bool \<Rightarrow>
   io_error + bytes \<times> writer \<Rightarrow> u64 \<Rightarrow> 'r \<Rightarrow> cli_error + string \<times> string" where
  "cmd_vk_share S G K T fs bridge_vk_path admin_sk_path elapsed connect micros r =
    and_then (map_err CliLoadVk (load_verifying_key fs bridge_vk_path)) (\<lambda>bridge_vk.
    and_then (map_err CliLoadSk (server_identity_load fs admin_sk_path)) (\<lambda>admin_identity.
    if elapsed then Err CliTimeout
    else (case connect of
        Err e \<Rightarrow> Err (CliConnect e)
      | Ok (stream, w) \<Rightarrow> fst (run_admin_command S G K T bridge_vk admin_identity micros stream w r))))"

section \<open>Keys\<close>

text \<open>\<open>admin_keygen\<close>.\<close>

definition admin_keygen ::
  "sig_prims \<Rightarrow> ('r, 'x, 'dk, 'ek) kex_prims \<Rightarrow> (io_error + unit) \<Rightarrow> filesys \<Rightarrow> string \<Rightarrow> 'r \<Rightarrow>
   (io_error + unit) \<times> filesys \<times> 'r" where
  "admin_keygen G K mkdir fs dir r = (case mkdir of
      Err e \<Rightarrow> (Err e, fs, r)
    | Ok _ \<Rightarrow>
        (let ((sk, vk), r') = generate_keypair G K r;
             (res, fs') = save_pair fs (path_join dir ''admin.sk'') (path_join dir ''admin.vk'') sk vk
         in (res, fs', r')))"

text \<open>\<open>vk-info\<close>: the size of the key and its fingerprint.\<close>

definition vk_info :: "sym_prims \<Rightarrow> filesys \<Rightarrow> string \<Rightarrow> vk_load_error + nat \<times> string" where
  "vk_info S fs path = and_then (load_verifying_key fs path) (\<lambda>vk. Ok (length (vk_to_bytes vk), fingerprint S vk))"

section \<open>The client proxy\<close>

datatype client_start_error = CsConfig client_config_error | CsVk vk_load_error | CsSk load_error

text \<open>\<open>main\<close> of the client up to \<open>server::run\<close>, after the configuration was loaded.\<close>

definition client_start ::
  "filesys \<Rightarrow> client_config_error + valid_client_config \<Rightarrow> client_start_error + valid_client_config \<times> verifying_key \<times> identity option" where
  "client_start fs config =
    and_then (map_err CsConfig config) (\<lambda>cfg.
    and_then (map_err CsVk (load_verifying_key fs (vcc_server_vk_path cfg))) (\<lambda>vk.
    and_then (case vcc_client_sk_path cfg of
        None \<Rightarrow> Ok None
      | Some sk_path \<Rightarrow> map_err CsSk (case client_identity_load fs sk_path of Err e \<Rightarrow> Err e | Ok i \<Rightarrow> Ok (Some i))) (\<lambda>ident.
    Ok (cfg, vk, ident))))"

datatype client_server_event = ClientAccept "io_error + socket_addr" | ClientSignal

text \<open>The accept loop of the client's \<open>run\<close>: how it ended (\<open>None\<close>: still running), the peers a session
  was spawned for, and the pool. An error of \<open>accept\<close> leaves the function.\<close>

fun client_accept_loop :: "client_server_event list \<Rightarrow> 'c pool \<Rightarrow> (io_error + unit) option \<times> socket_addr list \<times> 'c pool" where
  "client_accept_loop [] p = (None, [], p)"
| "client_accept_loop (ClientAccept (Ok peer) # evs) p =
    (case client_accept_loop evs p of (res, peers, p') \<Rightarrow> (res, peer # peers, p'))"
| "client_accept_loop (ClientAccept (Err e) # evs) p = (Some (Err e), [], p)"
| "client_accept_loop (ClientSignal # evs) p = (Some (Ok ()), [], pool_shutdown p)"

section \<open>Properties\<close>

text \<open>Admin keys work on both sides: on a directory without admin keys \<open>admin-keygen\<close> succeeds, the tool
  loads the generated pair from \<open>admin.sk\<close>, and the bridge loads the same verifying key from
  \<open>admin.vk\<close>.\<close>

theorem admin_keygen_then_load:
  assumes "sig_laws G" "kex_laws K" "generate_keypair G K r = ((sk, vk), r')"
    and "fs (path_join dir ''admin.sk'') = None" "fs (path_join dir ''admin.vk'') = None"
  shows "\<exists>fs'. admin_keygen G K (Ok ()) fs dir r = (Ok (), fs', r') \<and>
     server_identity_load fs' (path_join dir ''admin.sk'') = Ok \<lparr>signing_key = sk, verifying_key = vk\<rparr> \<and>
     control_plane_verifying_identity_load fs' (path_join dir ''admin.vk'') = Ok vk"
proof -
  let ?fs = "saved_pair fs (path_join dir ''admin.sk'') sk vk"
  note ne = key_paths_distinct(3) [of dir]
  have "admin_keygen G K (Ok ()) fs dir r = (Ok (), ?fs, r')"
    using assms(3-5) save_pair_fresh [OF _ _ ne] by (simp add: admin_keygen_def key_paths)
  with saved_pair_loads [OF generate_keypair_lengths [OF assms(1-3)] ne, of fs] show ?thesis by (simp add: key_paths)
qed

theorem admin_keygen_then_load_witness:
  "\<exists>sk vk r' fs'. admin_keygen toy_sig toy_kex (Ok ()) (\<lambda>_. None) ''k'' 4 = (Ok (), fs', r') \<and>
     server_identity_load fs' ''k/admin.sk'' = Ok \<lparr>signing_key = sk, verifying_key = vk\<rparr>"
proof -
  obtain sk vk r' where kp: "generate_keypair toy_sig toy_kex 4 = ((sk, vk), r')" by (metis prod.exhaust)
  from admin_keygen_then_load [OF toy_sig_laws(1) toy_kex_laws(1) kp, of "\<lambda>_. None" "''k''"]
  show ?thesis by (auto simp: path_join_def)
qed

text \<open>The tool's command is what the bridge decodes, the bridge's answers are what the tool decodes.\<close>

lemma command_decodes:
  assumes "json_text_laws T"
  shows "command_from_json (serde_codec T) (json_to_vec T (cli_command_json n ''GetVkToken'')) = Some \<lparr>frame_seq = n, frame_cmd = GetVkToken\<rparr>"
proof -
  have "json_from_slice T (json_to_vec T (cli_command_json n ''GetVkToken'')) = Some (cli_command_json n ''GetVkToken'')"
    using assms by (auto simp: json_text_laws_def cli_command_json_def)
  then show ?thesis by (simp add: serde_codec_def cli_command_json_def json_field_def command_of_tag_def)
qed

definition cli_view :: "admin_response \<Rightarrow> cli_response" where
  "cli_view resp = (case resp of VkToken t u \<Rightarrow> CliVkToken t u | Error m \<Rightarrow> CliError m | _ \<Rightarrow> CliUnknown)"

lemma response_decodes:
  assumes "json_text_laws T"
  shows "Option.bind (json_from_slice T (json_to_vec T (response_json resp))) cli_response_of_json = Some (cli_view resp)"
proof -
  have "json_from_slice T (json_to_vec T (response_json resp)) = Some (response_json resp)"
    using assms by (cases resp) (auto simp: json_text_laws_def)
  then show ?thesis by (cases resp) (simp_all add: json_field_def cli_variant_def cli_view_def)
qed

lemma write_frame_keeps:
  assumes "write_frame S ch w d = (Ok (), ch', w')"
  shows "cipher ch' = cipher ch" "recv_initialized ch' = recv_initialized ch" "max_frame_size ch' = max_frame_size ch"
  using assms by (auto elim: write_frame_OkE)

lemma write_frame_fresh_writer:
  assumes "write_frame S ch w d = (Ok (), ch', w')"
  obtains fw where "write_frame S ch open_writer d = (Ok (), ch', fw)" "w_sent w' = w_sent w @ w_sent fw"
  using assms by (rule write_frame_OkE) (auto simp: open_writer_def dest!: write_frame_open [where w = open_writer] intro: that)

text \<open>What the tool prints for a response.\<close>

fun cli_result :: "cli_response \<Rightarrow> cli_error + string \<times> string" where
  "cli_result (CliVkToken t u) = Ok (t, u)"
| "cli_result (CliError m) = Err (CliAdmin m)"
| "cli_result CliUnknown = Err CliUnexpected"

text \<open>What the tool has sent when it starts to wait for the response does not depend on the response.\<close>

lemma run_admin_command_waits:
  assumes "sig_laws G" "kex_laws K" "generate_keypair G K a = ((bridge_sk, bridge_vk), a')"
    and "server_handshake_new K r = (hs, r1)" "server_hello_signed_bytes G K hs bridge_sk r1 = (Ok hello, r2)"
    and "run_admin_command S G K T bridge_vk admin_identity micros hello open_writer q = (Err (CliReadFrame e), w, q')"
  obtains resp key q1 wire ch fw where
    "client_respond S K (server_client_hello K hs) q = (Ok (resp, key), q1)"
    "serialize_client_response_signed G K resp (signing_key admin_identity) (server_hello_raw hs) q1 = (Ok wire, q')"
    "write_frame S (channel_new (key_as_bytes key) (64 * 1024)) open_writer (json_to_vec T (cli_command_json micros ''GetVkToken'')) = (Ok (), ch, fw)"
    "w_sent w = wire @ w_sent fw"
    "\<And>x d rest ch' v. read_frame S ch x = (Ok (Data d), ch', rest) \<Longrightarrow> Option.bind (json_from_slice T d) cli_response_of_json = Some v \<Longrightarrow>
      run_admin_command S G K T bridge_vk admin_identity micros (hello @ x) open_writer q = (cli_result v, w, q')"
proof -
  let ?cmd = "json_to_vec T (cli_command_json micros ''GetVkToken'')"
  note wf = server_handshake_new_wf [OF assms(2,4)]
  note own = parse_own_server_hello [OF assms(1-3) wf assms(5)]
  have re: "read_exact SERVER_HELLO_SIGNED_LEN (hello @ x) = Some (hello, x)" for x using own(3) by (simp add: io_simps)
  from assms(6) own re [of "[]"] obtain resp key q1 wire w1 ch where
    c: "client_respond S K (server_client_hello K hs) q = (Ok (resp, key), q1)"
    and s: "serialize_client_response_signed G K resp (signing_key admin_identity) (server_hello_raw hs) q1 = (Ok wire, q')"
    and w1: "write_all wire open_writer = (Ok (), w1)"
    and f: "write_frame S (channel_new (key_as_bytes key) (64 * 1024)) w1 ?cmd = (Ok (), ch, w)"
    by (auto simp: run_admin_command_def Let_def split: sum.splits prod.splits option.splits frame_result.splits cli_response.splits)
  from w1 have w1': "w1 = open_writer\<lparr>w_sent := wire\<rparr>" by (simp add: io_simps open_writer_def)
  from f obtain fw where "write_frame S (channel_new (key_as_bytes key) (64 * 1024)) open_writer ?cmd = (Ok (), ch, fw)"
    "w_sent w = w_sent w1 @ w_sent fw" by (rule write_frame_fresh_writer)
  then have "write_frame S (channel_new (key_as_bytes key) (64 * 1024)) open_writer ?cmd = (Ok (), ch, fw)"
    "w_sent w = wire @ w_sent fw" by (simp_all add: w1')
  moreover have "run_admin_command S G K T bridge_vk admin_identity micros (hello @ x) open_writer q = (cli_result v, w, q')"
    if "read_frame S ch x = (Ok (Data d), ch', rest)" "Option.bind (json_from_slice T d) cli_response_of_json = Some v" for x d rest ch' v
    using that own re c s w1 f by (cases v) (simp_all add: run_admin_command_def Let_def)
  ultimately show ?thesis using that c s by blast
qed

text \<open>The bridge's answer, once the command was received: it is sent, and the tool reads it.\<close>

lemma answer_read_back:
  assumes "prim_laws S" "json_text_laws T" "length (cipher ch') = 32"
    and "cipher ch = cipher ch'" "\<not> recv_initialized ch" "max_frame_size ch = 64 * 1024"
    and "length (json_to_vec T (response_json resp)) \<le> 64 * 1024" "w_budget w1 = None" "w_flush_ok w1"
  obtains ch2 w2 frame rch where "write_frame S ch' w1 (json_to_vec T (response_json resp)) = (Ok (), ch2, w2)"
    "w_sent w2 = w_sent w1 @ frame" "read_frame S ch frame = (Ok (Data (json_to_vec T (response_json resp))), rch, [])"
proof -
  let ?b = "json_to_vec T (response_json resp)"
  have laws: "aead_laws S" "aead_total S" using assms(1) by (simp_all add: prim_laws_def)
  have "length (data_nonce ch') = 12" "length (u64_to_be (send_seq ch')) = 8" by (simp_all add: data_nonce_def)
  then obtain c t where "gcm_encrypt S (cipher ch') (data_nonce ch') (u64_to_be (send_seq ch')) ?b = Some (c, t)"
    using laws(2) assms(3,7) by (elim aead_totalE [of S "cipher ch'" "data_nonce ch'" "u64_to_be (send_seq ch')" ?b]) simp_all
  from write_frame_open [OF this assms(8,9)] obtain ch2 w2 where wf: "write_frame S ch' w1 ?b = (Ok (), ch2, w2)" by blast
  have "\<exists>frame. w_sent w2 = w_sent w1 @ frame \<and> length frame = 41 + length ?b \<and>
      read_frame S ch (frame @ []) = (Ok (Data ?b), ch\<lparr>recv_seq := send_seq ch', recv_initialized := True\<rparr>, [])"
    by (rule write_frame_reads_back [OF laws(1) wf assms(4)]) (use assms(5-7) in simp_all)
  with that wf show ?thesis by auto
qed

text \<open>C25. \<open>vk-share\<close> obtains a token. The tool has the bridge's key and the bridge the tool's. What the tool sends until it
  waits for the response is, for the bridge, the command \<open>GetVkToken\<close> with the tool's clock as its number. When the
  number is above the bridge's counter, the bridge executes the command, raises the counter, keeps the new token
  in its store and answers; and the tool, given that answer, prints exactly the new token and its URL, or that
  the store is full. Otherwise the bridge closes the connection and its state is unchanged.\<close>

theorem vk_share_obtains_token:
  assumes "sig_laws G" "kex_laws K" "prim_laws S" "json_text_laws T"
    and "length (json_to_vec T (cli_command_json micros ''GetVkToken'')) \<le> 64 * 1024"
    and "generate_keypair G K a = ((signing_key (as_identity svc), bridge_vk), a')"
    and "generate_keypair G K b = ((signing_key admin_identity, as_cp_vk svc), b')"
    and "server_handshake_new K r = (hs, r1)"
    and "server_hello_signed_bytes G K hs (signing_key (as_identity svc)) r1 = (Ok hello, r2)"
    and "run_admin_command S G K T bridge_vk admin_identity micros hello open_writer q = (Err (CliReadFrame e), w, q')"
    and "ac_stream conn = w_sent w" "\<not> ac_elapsed conn" "ac_writer conn = open_writer"
    and "create_token S (ac_uuid conn) (ac_now conn) (as_vk_store svc) (vk_to_bytes (verifying_key (as_identity svc)))
      (DEFAULT_TOKEN_TTL_SECS * 10 ^ 9) (as_max_tokens svc) = (res, store)"
    and "reply = (case res of Ok (token, _) \<Rightarrow> VkToken token (as_tls_base_url svc @ ''/vk/'' @ token)
      | Err _ \<Rightarrow> Error ''vk share token store full'')"
    and "length (json_to_vec T (response_json reply)) \<le> 64 * 1024"
  shows "if as_cmd_seq svc < micros
    then (\<exists>answer. admin_sched S G K (serde_codec T) [0, 0, 0, 0] [AdminReceiving conn] svc r =
        ([AdminAnswered (Replied reply) \<lparr>frame_seq = micros, frame_cmd = GetVkToken\<rparr> answer],
         svc\<lparr>as_cmd_seq := micros, as_vk_store := store\<rparr>, r2) \<and>
      run_admin_command S G K T bridge_vk admin_identity micros (w_sent answer) open_writer q =
        (case res of Ok (token, _) \<Rightarrow> Ok (token, as_tls_base_url svc @ ''/vk/'' @ token)
         | Err _ \<Rightarrow> Err (CliAdmin ''vk share token store full''), w, q'))
    else admin_sched S G K (serde_codec T) [0, 0, 0, 0] [AdminReceiving conn] svc r = ([AdminClosed], svc, r2)"
proof -
  have laws: "aead_laws S" "hkdf_laws S" using assms(3) by (simp_all add: prim_laws_def)
  obtain resp key q1 wire ch fw where
    c: "client_respond S K (server_client_hello K hs) q = (Ok (resp, key), q1)"
    and s: "serialize_client_response_signed G K resp (signing_key admin_identity) (server_hello_raw hs) q1 = (Ok wire, q')"
    and f: "write_frame S (channel_new (key_as_bytes key) (64 * 1024)) open_writer (json_to_vec T (cli_command_json micros ''GetVkToken'')) = (Ok (), ch, fw)"
    and w: "w_sent w = wire @ w_sent fw"
    and tool: "\<And>x d rest ch' v. read_frame S ch x = (Ok (Data d), ch', rest) \<Longrightarrow> Option.bind (json_from_slice T d) cli_response_of_json = Some v \<Longrightarrow>
      run_admin_command S G K T bridge_vk admin_identity micros (hello @ x) open_writer q = (cli_result v, w, q')"
    using assms(1,2,6,8,9,10) by (rule run_admin_command_waits) blast
  let ?f = "\<lparr>frame_seq = micros, frame_cmd = GetVkToken\<rparr>" and ?J = "serde_codec T"
  have io: "ac_stream conn = wire @ w_sent fw" "w_budget (ac_writer conn) = None" using w assms(11,13) by (simp_all add: open_writer_def)
  obtain ch' w1 where rc: "admin_receive S G K ?J svc conn r = (Some (?f, ch', w1), r2)"
    and w1: "w1 = (ac_writer conn)\<lparr>w_sent := w_sent (ac_writer conn) @ hello\<rparr>"
    and ch': "cipher ch' = cipher (channel_new (key_as_bytes key) (64 * 1024))"
    using assms(1,2) laws(1) assms(8,9,7) c s f assms(5) command_decodes [OF assms(4)] io(1) assms(12) io(2) by (rule admin_receive_honest)
  have "length (key_as_bytes key) = 32" using c derive_session_key_ok [OF laws(2)] by (elim client_respond_OkE) (metis sum.inject(2))
  then have k: "length (cipher ch') = 32" "cipher ch = cipher ch'" "\<not> recv_initialized ch" "max_frame_size ch = 64 * 1024"
    using write_frame_keeps [OF f] ch' by (simp_all add: channel_new_def)
  have "w_budget w1 = None" "w_flush_ok w1" "w_sent w1 = hello" using w1 assms(13) by (simp_all add: open_writer_def)
  with answer_read_back [OF assms(3,4) k assms(16)] obtain ch2 w2 frame rch where
    a: "write_frame S ch' w1 (json_to_vec T (response_json reply)) = (Ok (), ch2, w2)" "w_sent w2 = hello @ frame"
    "read_frame S ch frame = (Ok (Data (json_to_vec T (response_json reply))), rch, [])" by metis
  have d: "dispatch S (ac_uuid conn) (ac_now conn) GetVkToken (svc\<lparr>as_cmd_seq := n\<rparr>) = (reply, svc\<lparr>as_cmd_seq := n, as_vk_store := store\<rparr>)" for n
    using assms(14,15) by (cases res) (auto simp: dispatch_def handle_get_vk_token_def split: vk_share_error.splits)
  have "cli_result (cli_view reply) = (case res of Ok (token, _) \<Rightarrow> Ok (token, as_tls_base_url svc @ ''/vk/'' @ token)
      | Err _ \<Rightarrow> Err (CliAdmin ''vk share token store full''))"
    using assms(15) by (auto simp: cli_view_def split: sum.splits)
  with tool [OF a(3) response_decodes [OF assms(4)]] a(1,2) rc d [of micros] show ?thesis
    by (simp add: admin_admit_def is_seq_valid_def raise_seq_def max_absorb2 admin_respond_def serde_codec_def)
qed

text \<open>A text format for the values the two programs write: lengths in unary, then the characters.\<close>

definition toy_string :: "string \<Rightarrow> bytes" where
  "toy_string x = replicate (length x) 1 @ [0] @ map (\<lambda>c. word_of_nat (of_char c)) x"

definition toy_unstring :: "bytes \<Rightarrow> string \<times> bytes" where
  "toy_unstring b = (let n = length (takeWhile (\<lambda>y. y = 1) b); r = drop (Suc n) b
     in (map (\<lambda>y. char_of (unat y :: nat)) (take n r), drop n r))"

fun toy_value :: "json \<Rightarrow> bytes" where
  "toy_value (JUInt n) = 0 # u64_to_be n"
| "toy_value (JStr x) = 1 # toy_string x"
| "toy_value _ = [2]"

fun toy_unvalue :: "bytes \<Rightarrow> (json \<times> bytes) option" where
  "toy_unvalue [] = None"
| "toy_unvalue (k # b) = (if k = 0 then Some (JUInt (u64_from_be (take 8 b)), drop 8 b)
     else if k = 1 then (case toy_unstring b of (x, r) \<Rightarrow> Some (JStr x, r)) else None)"

definition toy_entries :: "(string \<times> json) list \<Rightarrow> bytes" where
  "toy_entries kvs = concat (map (\<lambda>kv. 1 # toy_string (fst kv) @ toy_value (snd kv)) kvs) @ [0]"

fun toy_unentries :: "nat \<Rightarrow> bytes \<Rightarrow> (string \<times> json) list option" where
  "toy_unentries 0 b = None"
| "toy_unentries (Suc n) [] = None"
| "toy_unentries (Suc n) (k # b) = (if k = 0 then Some [] else (case toy_unstring b of (x, r) \<Rightarrow> (case toy_unvalue r of
      None \<Rightarrow> None | Some (v, r') \<Rightarrow> map_option (Cons (x, v)) (toy_unentries n r'))))"

definition toy_json :: json_text where
  "toy_json = \<lparr>json_to_vec = (\<lambda>v. case v of JObj kvs \<Rightarrow> toy_entries kvs | _ \<Rightarrow> []),
     json_from_slice = (\<lambda>b. map_option JObj (toy_unentries (length b) b))\<rparr>"

lemma toy_string_back: "toy_unstring (toy_string x @ r) = (x, r)"
proof -
  have "takeWhile (\<lambda>y. y = 1) (toy_string x @ r) = replicate (length x) 1"
    unfolding toy_string_def by (subst append.assoc, subst takeWhile_append2) auto
  moreover have "unat (word_of_nat (of_char c) :: byte) = of_char c" for c :: char
    by (simp add: unat_of_nat)
  ultimately show ?thesis by (simp add: toy_unstring_def toy_string_def comp_def)
qed

lemma toy_value_back: "json_plain v \<Longrightarrow> toy_unvalue (toy_value v @ r) = Some (v, r)"
  by (cases v) (simp_all add: toy_string_back)

lemma toy_entries_back:
  "\<forall>kv \<in> set kvs. json_plain (snd kv) \<Longrightarrow> length kvs < n \<Longrightarrow> toy_unentries n (toy_entries kvs) = Some kvs"
proof (induction kvs arbitrary: n)
  case Nil
  then show ?case by (cases n) (simp_all add: toy_entries_def)
next
  case (Cons kv kvs)
  then obtain m where n: "n = Suc m" "length kvs < m" by (cases n) auto
  have "toy_entries (kv # kvs) = 1 # toy_string (fst kv) @ toy_value (snd kv) @ toy_entries kvs" by (simp add: toy_entries_def)
  with Cons n show ?case by (simp add: toy_string_back toy_value_back)
qed

lemma length_toy_entries: "length kvs < length (toy_entries kvs)"
  by (induction kvs) (auto simp: toy_entries_def)

lemma toy_json_laws: "json_text_laws toy_json"
  using toy_entries_back length_toy_entries by (auto simp: json_text_laws_def toy_json_def)

theorem vk_share_obtains_token_witness:
  "\<exists>bridge_vk (admin_identity :: identity) (svc :: admin_services) (conn :: admin_conn) answer r2 svc' w q'.
     admin_sched toy_sym toy_sig toy_kex (serde_codec toy_json) [0, 0, 0, 0] [AdminReceiving conn] svc 3 =
       ([AdminAnswered (Replied (VkToken ''u'' ''https://bridge:8440/vk/u'')) \<lparr>frame_seq = 7, frame_cmd = GetVkToken\<rparr> answer], svc', r2) \<and>
     as_cmd_seq svc = 4 \<and> as_cmd_seq svc' = 7 \<and>
     run_admin_command toy_sym toy_sig toy_kex toy_json bridge_vk admin_identity 7 (w_sent answer) open_writer 8 =
       (Ok (''u'', ''https://bridge:8440/vk/u''), w, q')"
proof -
  obtain ssk svk a where kp1: "generate_keypair toy_sig toy_kex 1 = ((ssk, svk), a)" by (metis prod.exhaust)
  obtain ask avk b where kp2: "generate_keypair toy_sig toy_kex 2 = ((ask, avk), b)" by (metis prod.exhaust)
  let ?svc = "demo_services ssk svk avk" and ?adm = "\<lparr>signing_key = ask, verifying_key = avk\<rparr>"
  let ?cmd = "json_to_vec toy_json (cli_command_json 7 ''GetVkToken'')"
  obtain hs r1 where hs: "server_handshake_new toy_kex 3 = (hs, r1)" by (metis prod.exhaust)
  note wf = server_handshake_new_wf [OF toy_kex_laws(1) hs]
  obtain hello r2 where h: "server_hello_signed_bytes toy_sig toy_kex hs ssk r1 = (Ok hello, r2)"
    using wf by (rule toy_server_hello_signed)
  note own = parse_own_server_hello [OF toy_sig_laws(1) toy_kex_laws(1) kp1 wf h]
  obtain resp key q1 where c: "client_respond toy_sym toy_kex (server_client_hello toy_kex hs) 8 = (Ok (resp, key), q1)"
    using toy_kex_laws(2) toy_sym_laws(4) by (rule client_respond_total)
  obtain wire q2 where s: "serialize_client_response_signed toy_sig toy_kex resp ask (server_hello_raw hs) q1 = (Ok wire, q2)"
    using wf c by (rule toy_response_signed)
  obtain ch w where f: "write_frame toy_sym (channel_new (key_as_bytes key) (64 * 1024)) (open_writer\<lparr>w_sent := wire\<rparr>) ?cmd = (Ok (), ch, w)"
    by (simp add: write_frame_def toy_sym_def Let_def io_simps open_writer_def)
  obtain e where "read_frame toy_sym ch [] = (Err e, ch, [])" by (simp add: read_frame_def read_exact_def)
  then have run: "run_admin_command toy_sym toy_sig toy_kex toy_json svk ?adm 7 hello open_writer 8 = (Err (CliReadFrame e), w, q2)"
    using own c s f by (simp add: run_admin_command_def read_exact_def io_simps open_writer_def Let_def)
  let ?conn = "\<lparr>ac_stream = w_sent w, ac_writer = open_writer, ac_elapsed = False, ac_now = 0, ac_uuid = ''u''\<rparr>"
  let ?url = "as_tls_base_url ?svc @ ''/vk/'' @ ''u''"
  have kp: "generate_keypair toy_sig toy_kex 1 = ((signing_key (as_identity ?svc), svk), a)"
    "generate_keypair toy_sig toy_kex 2 = ((signing_key ?adm, as_cp_vk ?svc), b)"
    "server_hello_signed_bytes toy_sig toy_kex hs (signing_key (as_identity ?svc)) r1 = (Ok hello, r2)"
    using kp1 kp2 h by (simp_all add: demo_services_def)
  have len: "length ?cmd \<le> 64 * 1024" "length (json_to_vec toy_json (response_json (VkToken ''u'' ?url))) \<le> 64 * 1024"
    by (simp_all add: toy_json_def cli_command_json_def toy_entries_def toy_string_def demo_services_def)
  obtain fp store where ct: "create_token toy_sym ''u'' 0 (as_vk_store ?svc) (vk_to_bytes (verifying_key (as_identity ?svc)))
      (DEFAULT_TOKEN_TTL_SECS * 10 ^ 9) (as_max_tokens ?svc) = (Ok (''u'', fp), store)"
    by (simp add: create_token_def demo_services_def new_store_def Let_def)
  have conn: "ac_stream ?conn = w_sent w" "\<not> ac_elapsed ?conn" "ac_writer ?conn = open_writer" by simp_all
  have lt: "as_cmd_seq ?svc < 7" "as_cmd_seq ?svc = 4" "?url = ''https://bridge:8440/vk/u''"
    by (simp_all add: demo_services_def word_less_nat_alt)
  have reply: "VkToken ''u'' ?url = (case Ok (''u'', fp) :: vk_share_error + string \<times> string of
      Ok (token, _) \<Rightarrow> VkToken token (as_tls_base_url ?svc @ ''/vk/'' @ token) | Err _ \<Rightarrow> Error ''vk share token store full'')" by simp
  from vk_share_obtains_token [OF toy_sig_laws(1) toy_kex_laws(1) demo_laws toy_json_laws len(1) kp(1,2) hs kp(3) run conn, of "Ok (''u'', fp)" store, OF _ reply len(2)] ct lt(1)
  obtain answer where "admin_sched toy_sym toy_sig toy_kex (serde_codec toy_json) [0, 0, 0, 0] [AdminReceiving ?conn] ?svc 3 =
      ([AdminAnswered (Replied (VkToken ''u'' ?url)) \<lparr>frame_seq = 7, frame_cmd = GetVkToken\<rparr> answer], ?svc\<lparr>as_cmd_seq := 7, as_vk_store := store\<rparr>, r2)"
    "run_admin_command toy_sym toy_sig toy_kex toy_json svk ?adm 7 (w_sent answer) open_writer 8 = (Ok (''u'', ?url), w, q2)"
    by (auto simp only: ac_simps admin_conn.select_convs if_True sum.case prod.case simp_thms)
  moreover have "as_cmd_seq (?svc\<lparr>as_cmd_seq := 7, as_vk_store := store\<rparr>) = 7" by simp
  ultimately show ?thesis using lt(2,3) by metis
qed

end
