(* ===== verification/Config_File.thy ===== *)
theory Config_File
  imports Bridge_Config "HOL-Library.Monad_Syntax"
begin

text \<open>
  From a TOML document to the bridge's \<open>Config\<close>: the default functions of
  \<open>latticeshield-bridge/src/config.rs\<close> and the decoding that serde derives from the attributes of the
  section types. The text syntax of TOML is a parameter; a document is a table. A key that is
  absent takes the value of its default function (\<open>#[serde(default = ...)]\<close>), an absent section the
  \<open>Default\<close> of its type, a key that no field has is ignored, and a value of the wrong type or out of range
  is an error. A section is usually a table; the derived code also takes an array, whose elements are the fields in
  the order of the declaration, missing ones at their defaults and further ones ignored, and a date-time,
  which is presented as a table with one private key. TOML integers are 64-bit signed.
\<close>

named_theorems default_fns \<open>the default functions of the configuration\<close>

named_theorems section_fields \<open>the fields of the sections\<close>

section \<open>Default functions\<close>

definition default_listen_addr :: string where [default_fns]: "default_listen_addr = ''0.0.0.0:8443''"
definition default_backend_addr :: string where [default_fns]: "default_backend_addr = ''127.0.0.1:8080''"
definition default_max_frame_size :: nat where [default_fns]: "default_max_frame_size = 64 * 1024"
definition default_signing_key_path :: string where [default_fns]: "default_signing_key_path = ''./keys/server.sk''"
definition default_metrics_addr :: string where [default_fns]: "default_metrics_addr = ''0.0.0.0:8444''"
definition default_log_level :: string where [default_fns]: "default_log_level = ''info''"
definition default_cp_enabled :: bool where [default_fns]: "default_cp_enabled = False"
definition default_cp_endpoint :: string where [default_fns]: "default_cp_endpoint = []"
definition default_cp_agent_name :: string where [default_fns]: "default_cp_agent_name = []"
definition default_cp_interval :: u64 where [default_fns]: "default_cp_interval = 30"
definition default_kr_enabled :: bool where [default_fns]: "default_kr_enabled = False"
definition default_kr_max_bytes :: u64 where [default_fns]: "default_kr_max_bytes = 10737418240"
definition default_kr_max_seconds :: u64 where [default_fns]: "default_kr_max_seconds = 86400"
definition default_tls_enabled :: bool where [default_fns]: "default_tls_enabled = False"
definition default_tls_listen_addr :: string where [default_fns]: "default_tls_listen_addr = ''0.0.0.0:8440''"
definition default_tls_cert_path :: string where [default_fns]: "default_tls_cert_path = ''./keys/tls.crt''"
definition default_tls_key_path :: string where [default_fns]: "default_tls_key_path = ''./keys/tls.key''"
definition default_quic_enabled :: bool where [default_fns]: "default_quic_enabled = False"
definition default_quic_listen_addr :: string where [default_fns]: "default_quic_listen_addr = ''0.0.0.0:8441''"
definition default_admin_enabled :: bool where [default_fns]: "default_admin_enabled = False"
definition default_admin_listen_addr :: string where [default_fns]: "default_admin_listen_addr = ''127.0.0.1:8445''"
definition default_admin_rate_limit :: u32 where [default_fns]: "default_admin_rate_limit = 5"
definition default_admin_handshake_timeout :: u64 where [default_fns]: "default_admin_handshake_timeout = 10"
definition default_require_client_auth :: bool where [default_fns]: "default_require_client_auth = True"
definition default_ws_enabled :: bool where [default_fns]: "default_ws_enabled = False"
definition default_ws_listen_addr :: string where [default_fns]: "default_ws_listen_addr = ''0.0.0.0:8446''"
definition default_ws_handshake_timeout_secs :: u64 where [default_fns]: "default_ws_handshake_timeout_secs = 10"
definition default_ws_max_connections_per_ip :: u32 where [default_fns]: "default_ws_max_connections_per_ip = 100"
definition default_handshake_timeout_secs :: u64 where [default_fns]: "default_handshake_timeout_secs = 10"
definition default_max_connections_per_ip :: u32 where [default_fns]: "default_max_connections_per_ip = 50"

section \<open>TOML values and field decoders\<close>

datatype toml = TBool bool | TInt int | TFloat string | TStr string | TDatetime string | TArr "toml list" | TTable "(string \<times> toml) list"

type_synonym table = "(string \<times> toml) list"

fun as_bool :: "toml \<Rightarrow> bool option" where
  "as_bool (TBool b) = Some b"
| "as_bool _ = None"

fun as_str :: "toml \<Rightarrow> string option" where
  "as_str (TStr s) = Some s"
| "as_str _ = None"

fun as_strs :: "toml \<Rightarrow> string list option" where
  "as_strs (TArr vs) = those (map as_str vs)"
| "as_strs _ = None"

fun as_u64 :: "toml \<Rightarrow> u64 option" where
  "as_u64 (TInt i) = (if 0 \<le> i \<and> i < 2 ^ 64 then Some (word_of_int i) else None)"
| "as_u64 _ = None"

fun as_u32 :: "toml \<Rightarrow> u32 option" where
  "as_u32 (TInt i) = (if 0 \<le> i \<and> i < 2 ^ 32 then Some (word_of_int i) else None)"
| "as_u32 _ = None"

fun as_usize :: "toml \<Rightarrow> nat option" where
  "as_usize (TInt i) = (if 0 \<le> i then Some (nat i) else None)"
| "as_usize _ = None"

text \<open>A field with a default, an optional field, and a section.\<close>

definition field :: "(toml \<Rightarrow> 'a option) \<Rightarrow> table \<Rightarrow> string \<Rightarrow> 'a \<Rightarrow> 'a option" where
  "field conv t k d = (case map_of t k of None \<Rightarrow> Some d | Some v \<Rightarrow> conv v)"

definition opt_field :: "table \<Rightarrow> string \<Rightarrow> string option option" where
  "opt_field t k = field (map_option Some \<circ> as_str) t k None"

text \<open>What the derived visitor of a struct with these fields gets from a value: \<open>visit_map\<close> for a table and a date-time
  (the private key is no field), \<open>visit_seq\<close> for an array.\<close>

fun section_table :: "string list \<Rightarrow> toml \<Rightarrow> table option" where
  "section_table names (TTable s) = Some s"
| "section_table names (TArr vs) = Some (zip names vs)"
| "section_table names (TDatetime _) = Some []"
| "section_table names _ = None"

definition sect :: "string list \<Rightarrow> (table \<Rightarrow> 'a option) \<Rightarrow> table \<Rightarrow> string \<Rightarrow> 'a \<Rightarrow> 'a option" where
  "sect names conv t k d = (case map_of t k of None \<Rightarrow> Some d | Some v \<Rightarrow> Option.bind (section_table names v) conv)"

section \<open>Sections\<close>

text \<open>The fields of the sections, in the order of the declarations.\<close>

definition server_fields :: "string list" where [section_fields]: "server_fields = [''listen_addr'', ''backend_addr'', ''max_frame_size'', ''handshake_timeout_secs'', ''max_connections_per_ip'']"
definition crypto_fields :: "string list" where [section_fields]: "crypto_fields = [''signing_key_path'']"
definition metrics_fields :: "string list" where [section_fields]: "metrics_fields = [''listen_addr'']"
definition logging_fields :: "string list" where [section_fields]: "logging_fields = [''level'']"
definition control_plane_fields :: "string list" where [section_fields]: "control_plane_fields = [''enabled'', ''endpoint'', ''agent_name'', ''heartbeat_interval_secs'', ''install_token'', ''cloud_vk_path'']"
definition key_rotation_fields :: "string list" where [section_fields]: "key_rotation_fields = [''enabled'', ''max_bytes_per_key'', ''max_seconds_per_key'']"
definition tls_fields :: "string list" where [section_fields]: "tls_fields = [''enabled'', ''listen_addr'', ''cert_path'', ''key_path'']"
definition quic_fields :: "string list" where [section_fields]: "quic_fields = [''enabled'', ''listen_addr'', ''cert_path'', ''key_path'']"
definition auth_fields :: "string list" where [section_fields]: "auth_fields = [''client_vk_path'', ''require_client_auth'']"
definition admin_fields :: "string list" where [section_fields]: "admin_fields = [''enabled'', ''listen_addr'', ''control_plane_vk_path'', ''rate_limit_per_second'', ''handshake_timeout_secs'']"
definition websocket_fields :: "string list" where [section_fields]: "websocket_fields = [''enabled'', ''listen_addr'', ''cert_path'', ''key_path'', ''allowed_origins'', ''handshake_timeout_secs'', ''max_connections_per_ip'']"

definition decode_server :: "table \<Rightarrow> server_config option" where
  "decode_server t = do {
     listen_addr \<leftarrow> field as_str t ''listen_addr'' default_listen_addr;
     backend_addr \<leftarrow> field as_str t ''backend_addr'' default_backend_addr;
     max_frame_size \<leftarrow> field as_usize t ''max_frame_size'' default_max_frame_size;
     handshake_timeout_secs \<leftarrow> field as_u64 t ''handshake_timeout_secs'' default_handshake_timeout_secs;
     max_connections_per_ip \<leftarrow> field as_u32 t ''max_connections_per_ip'' default_max_connections_per_ip;
     Some \<lparr>srv_listen_addr = listen_addr, srv_backend_addr = backend_addr, srv_max_frame_size = max_frame_size, srv_handshake_timeout_secs = handshake_timeout_secs, srv_max_connections_per_ip = max_connections_per_ip\<rparr> }"

definition decode_control_plane :: "table \<Rightarrow> control_plane_config option" where
  "decode_control_plane t = do {
     enabled \<leftarrow> field as_bool t ''enabled'' default_cp_enabled;
     endpoint \<leftarrow> field as_str t ''endpoint'' default_cp_endpoint;
     agent_name \<leftarrow> field as_str t ''agent_name'' default_cp_agent_name;
     heartbeat_interval_secs \<leftarrow> field as_u64 t ''heartbeat_interval_secs'' default_cp_interval;
     install_token \<leftarrow> opt_field t ''install_token'';
     cloud_vk_path \<leftarrow> opt_field t ''cloud_vk_path'';
     Some \<lparr>cp_enabled = enabled, cp_endpoint = endpoint, cp_agent_name = agent_name, cp_heartbeat_interval_secs = heartbeat_interval_secs, cp_install_token = install_token, cp_cloud_vk_path = cloud_vk_path\<rparr> }"

definition decode_key_rotation :: "table \<Rightarrow> key_rotation_config option" where
  "decode_key_rotation t = do {
     enabled \<leftarrow> field as_bool t ''enabled'' default_kr_enabled;
     max_bytes_per_key \<leftarrow> field as_u64 t ''max_bytes_per_key'' default_kr_max_bytes;
     max_seconds_per_key \<leftarrow> field as_u64 t ''max_seconds_per_key'' default_kr_max_seconds;
     Some \<lparr>kr_enabled = enabled, kr_max_bytes_per_key = max_bytes_per_key, kr_max_seconds_per_key = max_seconds_per_key\<rparr> }"

definition decode_tls :: "table \<Rightarrow> tls_config option" where
  "decode_tls t = do {
     enabled \<leftarrow> field as_bool t ''enabled'' default_tls_enabled;
     listen_addr \<leftarrow> field as_str t ''listen_addr'' default_tls_listen_addr;
     cert_path \<leftarrow> field as_str t ''cert_path'' default_tls_cert_path;
     key_path \<leftarrow> field as_str t ''key_path'' default_tls_key_path;
     Some \<lparr>tls_cfg_enabled = enabled, tls_cfg_listen_addr = listen_addr, tls_cfg_cert_path = cert_path, tls_cfg_key_path = key_path\<rparr> }"

definition decode_quic :: "table \<Rightarrow> quic_config option" where
  "decode_quic t = do {
     enabled \<leftarrow> field as_bool t ''enabled'' default_quic_enabled;
     listen_addr \<leftarrow> field as_str t ''listen_addr'' default_quic_listen_addr;
     cert_path \<leftarrow> opt_field t ''cert_path'';
     key_path \<leftarrow> opt_field t ''key_path'';
     Some \<lparr>quic_cfg_enabled = enabled, quic_cfg_listen_addr = listen_addr, quic_cfg_cert_path = cert_path, quic_cfg_key_path = key_path\<rparr> }"

definition decode_auth :: "table \<Rightarrow> auth_config option" where
  "decode_auth t = do {
     client_vk_path \<leftarrow> opt_field t ''client_vk_path'';
     require_client_auth \<leftarrow> field as_bool t ''require_client_auth'' default_require_client_auth;
     Some \<lparr>auth_client_vk_path = client_vk_path, auth_require_client_auth = require_client_auth\<rparr> }"

definition decode_admin :: "table \<Rightarrow> admin_config option" where
  "decode_admin t = do {
     enabled \<leftarrow> field as_bool t ''enabled'' default_admin_enabled;
     listen_addr \<leftarrow> field as_str t ''listen_addr'' default_admin_listen_addr;
     control_plane_vk_path \<leftarrow> opt_field t ''control_plane_vk_path'';
     rate_limit_per_second \<leftarrow> field as_u32 t ''rate_limit_per_second'' default_admin_rate_limit;
     handshake_timeout_secs \<leftarrow> field as_u64 t ''handshake_timeout_secs'' default_admin_handshake_timeout;
     Some \<lparr>adm_enabled = enabled, adm_listen_addr = listen_addr, adm_control_plane_vk_path = control_plane_vk_path, adm_rate_limit_per_second = rate_limit_per_second, adm_handshake_timeout_secs = handshake_timeout_secs\<rparr> }"

definition decode_websocket :: "table \<Rightarrow> ws_config option" where
  "decode_websocket t = do {
     enabled \<leftarrow> field as_bool t ''enabled'' default_ws_enabled;
     listen_addr \<leftarrow> field as_str t ''listen_addr'' default_ws_listen_addr;
     cert_path \<leftarrow> opt_field t ''cert_path'';
     key_path \<leftarrow> opt_field t ''key_path'';
     allowed_origins \<leftarrow> field as_strs t ''allowed_origins'' [];
     handshake_timeout_secs \<leftarrow> field as_u64 t ''handshake_timeout_secs'' default_ws_handshake_timeout_secs;
     max_connections_per_ip \<leftarrow> field as_u32 t ''max_connections_per_ip'' default_ws_max_connections_per_ip;
     Some \<lparr>ws_cfg_enabled = enabled, ws_cfg_listen_addr = listen_addr, ws_cfg_cert_path = cert_path, ws_cfg_key_path = key_path, ws_cfg_allowed_origins = allowed_origins, ws_cfg_handshake_timeout_secs = handshake_timeout_secs, ws_cfg_max_connections_per_ip = max_connections_per_ip\<rparr> }"

text \<open>The sections with one field.\<close>

definition decode_crypto :: "table \<Rightarrow> string option" where
  "decode_crypto t = field as_str t ''signing_key_path'' default_signing_key_path"

definition decode_metrics :: "table \<Rightarrow> string option" where
  "decode_metrics t = field as_str t ''listen_addr'' default_metrics_addr"

definition decode_logging :: "table \<Rightarrow> string option" where
  "decode_logging t = field as_str t ''level'' default_log_level"

text \<open>The root; \<open>toml::from_str\<close> is the parser followed by it.\<close>

definition decode_config :: "table \<Rightarrow> config option" where
  "decode_config t = do {
     server_s \<leftarrow> sect server_fields decode_server t ''server'' default_server_config;
     crypto_s \<leftarrow> sect crypto_fields decode_crypto t ''crypto'' default_signing_key_path;
     metrics_s \<leftarrow> sect metrics_fields decode_metrics t ''metrics'' default_metrics_addr;
     logging_s \<leftarrow> sect logging_fields decode_logging t ''logging'' default_log_level;
     control_plane_s \<leftarrow> sect control_plane_fields decode_control_plane t ''control_plane'' default_control_plane_config;
     key_rotation_s \<leftarrow> sect key_rotation_fields decode_key_rotation t ''key_rotation'' default_key_rotation_config;
     tls_s \<leftarrow> sect tls_fields decode_tls t ''tls'' default_tls_config;
     quic_s \<leftarrow> sect quic_fields decode_quic t ''quic'' default_quic_config;
     auth_s \<leftarrow> sect auth_fields decode_auth t ''auth'' default_auth_config;
     admin_s \<leftarrow> sect admin_fields decode_admin t ''admin'' default_admin_config;
     websocket_s \<leftarrow> sect websocket_fields decode_websocket t ''websocket'' default_ws_config;
     Some \<lparr>server = server_s, crypto_signing_key_path = crypto_s, metrics_listen_addr = metrics_s, logging_level = logging_s, control_plane = control_plane_s, key_rotation = key_rotation_s, tls = tls_s, quic = quic_s, auth = auth_s, admin = admin_s, websocket = websocket_s\<rparr> }"

definition toml_from_str :: "(string \<Rightarrow> table option) \<Rightarrow> string \<Rightarrow> config option" where
  "toml_from_str toml_parse s = Option.bind (toml_parse s) decode_config"

section \<open>Documents of a configuration\<close>

text \<open>The keys of a section with the value each has in a configuration, in the order of the fields; an optional
  field that is unset has none. A table spells a section out when each of these keys has its value in it, or
  is absent and holds the default there; a document spells a configuration out when each section has a value that
  is a table (or is taken as one) and spells it out, or is absent and holds the defaults. Other keys may be present.\<close>

type_synonym settings = "(string \<times> toml option) list"

definition spelt :: "table \<Rightarrow> string \<Rightarrow> toml option \<Rightarrow> toml option \<Rightarrow> bool" where
  "spelt t k v d \<longleftrightarrow> (case map_of t k of None \<Rightarrow> v = d | Some w \<Rightarrow> v = Some w)"

fun spells :: "table \<Rightarrow> settings \<Rightarrow> settings \<Rightarrow> bool" where
  "spells t ((k, v) # vs) ((_, d) # ds) \<longleftrightarrow> spelt t k v d \<and> spells t vs ds"
| "spells t [] [] \<longleftrightarrow> True"
| "spells t _ _ \<longleftrightarrow> False"

definition server_settings :: "server_config \<Rightarrow> settings" where
  "server_settings c = [(''listen_addr'', Some (TStr (srv_listen_addr c))),
     (''backend_addr'', Some (TStr (srv_backend_addr c))),
     (''max_frame_size'', Some (TInt (int (srv_max_frame_size c)))),
     (''handshake_timeout_secs'', Some (TInt (uint (srv_handshake_timeout_secs c)))),
     (''max_connections_per_ip'', Some (TInt (uint (srv_max_connections_per_ip c))))]"

definition control_plane_settings :: "control_plane_config \<Rightarrow> settings" where
  "control_plane_settings c = [(''enabled'', Some (TBool (cp_enabled c))),
     (''endpoint'', Some (TStr (cp_endpoint c))),
     (''agent_name'', Some (TStr (cp_agent_name c))),
     (''heartbeat_interval_secs'', Some (TInt (uint (cp_heartbeat_interval_secs c)))),
     (''install_token'', map_option TStr (cp_install_token c)),
     (''cloud_vk_path'', map_option TStr (cp_cloud_vk_path c))]"

definition key_rotation_settings :: "key_rotation_config \<Rightarrow> settings" where
  "key_rotation_settings c = [(''enabled'', Some (TBool (kr_enabled c))),
     (''max_bytes_per_key'', Some (TInt (uint (kr_max_bytes_per_key c)))),
     (''max_seconds_per_key'', Some (TInt (uint (kr_max_seconds_per_key c))))]"

definition tls_settings :: "tls_config \<Rightarrow> settings" where
  "tls_settings c = [(''enabled'', Some (TBool (tls_cfg_enabled c))),
     (''listen_addr'', Some (TStr (tls_cfg_listen_addr c))),
     (''cert_path'', Some (TStr (tls_cfg_cert_path c))),
     (''key_path'', Some (TStr (tls_cfg_key_path c)))]"

definition quic_settings :: "quic_config \<Rightarrow> settings" where
  "quic_settings c = [(''enabled'', Some (TBool (quic_cfg_enabled c))),
     (''listen_addr'', Some (TStr (quic_cfg_listen_addr c))),
     (''cert_path'', map_option TStr (quic_cfg_cert_path c)),
     (''key_path'', map_option TStr (quic_cfg_key_path c))]"

definition auth_settings :: "auth_config \<Rightarrow> settings" where
  "auth_settings c = [(''client_vk_path'', map_option TStr (auth_client_vk_path c)),
     (''require_client_auth'', Some (TBool (auth_require_client_auth c)))]"

definition admin_settings :: "admin_config \<Rightarrow> settings" where
  "admin_settings c = [(''enabled'', Some (TBool (adm_enabled c))),
     (''listen_addr'', Some (TStr (adm_listen_addr c))),
     (''control_plane_vk_path'', map_option TStr (adm_control_plane_vk_path c)),
     (''rate_limit_per_second'', Some (TInt (uint (adm_rate_limit_per_second c)))),
     (''handshake_timeout_secs'', Some (TInt (uint (adm_handshake_timeout_secs c))))]"

definition websocket_settings :: "ws_config \<Rightarrow> settings" where
  "websocket_settings c = [(''enabled'', Some (TBool (ws_cfg_enabled c))),
     (''listen_addr'', Some (TStr (ws_cfg_listen_addr c))),
     (''cert_path'', map_option TStr (ws_cfg_cert_path c)),
     (''key_path'', map_option TStr (ws_cfg_key_path c)),
     (''allowed_origins'', Some (TArr (map TStr (ws_cfg_allowed_origins c)))),
     (''handshake_timeout_secs'', Some (TInt (uint (ws_cfg_handshake_timeout_secs c)))),
     (''max_connections_per_ip'', Some (TInt (uint (ws_cfg_max_connections_per_ip c))))]"

definition crypto_settings :: "string \<Rightarrow> settings" where
  "crypto_settings v = [(''signing_key_path'', Some (TStr v))]"

definition metrics_settings :: "string \<Rightarrow> settings" where
  "metrics_settings v = [(''listen_addr'', Some (TStr v))]"

definition logging_settings :: "string \<Rightarrow> settings" where
  "logging_settings v = [(''level'', Some (TStr v))]"

definition section_spelt :: "table \<Rightarrow> string \<Rightarrow> settings \<Rightarrow> settings \<Rightarrow> bool" where
  "section_spelt t k vs ds \<longleftrightarrow> (case map_of t k of None \<Rightarrow> vs = ds
     | Some v \<Rightarrow> (case section_table (map fst vs) v of Some u \<Rightarrow> spells u vs ds | None \<Rightarrow> False))"

definition sections :: "config \<Rightarrow> (string \<times> settings) list" where
  "sections c = [(''server'', server_settings (server c)),
     (''crypto'', crypto_settings (crypto_signing_key_path c)),
     (''metrics'', metrics_settings (metrics_listen_addr c)),
     (''logging'', logging_settings (logging_level c)),
     (''control_plane'', control_plane_settings (control_plane c)),
     (''key_rotation'', key_rotation_settings (key_rotation c)),
     (''tls'', tls_settings (tls c)),
     (''quic'', quic_settings (quic c)),
     (''auth'', auth_settings (auth c)),
     (''admin'', admin_settings (admin c)),
     (''websocket'', websocket_settings (websocket c))]"

definition document_spelt :: "table \<Rightarrow> (string \<times> settings) list \<Rightarrow> (string \<times> settings) list \<Rightarrow> bool" where
  "document_spelt t ss ds \<longleftrightarrow> list_all2 (\<lambda>(s, v) (_, d). section_spelt t s v d) ss ds"

definition config_spelt :: "table \<Rightarrow> config \<Rightarrow> bool" where
  "config_spelt t c \<longleftrightarrow> document_spelt t (sections c) (sections default_config)"

section \<open>Decoding is reading what is spelt out\<close>

lemma word_of_int_iff:
  "0 \<le> i \<Longrightarrow> i < 2 ^ LENGTH('a) \<Longrightarrow> word_of_int i = (x :: 'a :: len word) \<longleftrightarrow> i = uint x"
  by (metis take_bit_int_eq_self uint_word_of_int_eq word_of_int_uint)

lemma scalar_iffs:
  "as_bool v = Some b \<longleftrightarrow> v = TBool b" "as_str v = Some s \<longleftrightarrow> v = TStr s" "as_usize v = Some n \<longleftrightarrow> v = TInt (int n)"
  by (cases v; auto)+

lemma as_u64_iff: "as_u64 v = Some x \<longleftrightarrow> v = TInt (uint x)"
  using word_of_int_iff [of _ x] unsigned_less [of x, where 'a = int] by (cases v) auto

lemma as_u32_iff: "as_u32 v = Some x \<longleftrightarrow> v = TInt (uint x)"
  using word_of_int_iff [of _ x] unsigned_less [of x, where 'a = int] by (cases v) auto

lemmas value_iffs = scalar_iffs as_u64_iff as_u32_iff

lemma those_strs: "those (map as_str vs) = Some ss \<longleftrightarrow> vs = map TStr ss"
  by (induction vs arbitrary: ss) (auto simp: value_iffs split: option.splits)

lemma as_strs_iff: "as_strs v = Some ss \<longleftrightarrow> v = TArr (map TStr ss)"
  by (cases v) (auto simp: those_strs)

lemma field_iff:
  assumes "\<And>w x. conv w = Some x \<longleftrightarrow> w = E x" "\<And>x y. E x = E y \<longleftrightarrow> x = y"
  shows "field conv t k d = Some v \<longleftrightarrow> spelt t k (Some (E v)) (Some (E d))"
  using assms by (auto simp: field_def spelt_def split: option.splits)

lemma opt_field_iff: "opt_field t k = Some v \<longleftrightarrow> spelt t k (map_option TStr v) None"
  by (cases v) (auto simp: opt_field_def field_def spelt_def value_iffs split: option.splits)

lemma map_TStr_same: "map TStr a = map TStr b \<longleftrightarrow> a = b"
  by (simp add: inj_map_eq_map inj_def)

lemma field_iffs:
  "field as_bool t k b = Some b' \<longleftrightarrow> spelt t k (Some (TBool b')) (Some (TBool b))"
  "field as_str t k s = Some s' \<longleftrightarrow> spelt t k (Some (TStr s')) (Some (TStr s))"
  "field as_u64 t k x = Some x' \<longleftrightarrow> spelt t k (Some (TInt (uint x'))) (Some (TInt (uint x)))"
  "field as_u32 t k y = Some y' \<longleftrightarrow> spelt t k (Some (TInt (uint y'))) (Some (TInt (uint y)))"
  "field as_usize t k n = Some n' \<longleftrightarrow> spelt t k (Some (TInt (int n'))) (Some (TInt (int n)))"
  "field as_strs t k ss = Some ss' \<longleftrightarrow> spelt t k (Some (TArr (map TStr ss'))) (Some (TArr (map TStr ss)))"
  by (rule field_iff; simp add: value_iffs as_strs_iff map_TStr_same word_uint_eq_iff)+

text \<open>The \<open>Default\<close> of every section has the values of the default functions of its fields.\<close>

lemma default_sections:
  "default_server_config = \<lparr>srv_listen_addr = default_listen_addr, srv_backend_addr = default_backend_addr, srv_max_frame_size = default_max_frame_size, srv_handshake_timeout_secs = default_handshake_timeout_secs, srv_max_connections_per_ip = default_max_connections_per_ip\<rparr>"
  "default_control_plane_config = \<lparr>cp_enabled = default_cp_enabled, cp_endpoint = default_cp_endpoint, cp_agent_name = default_cp_agent_name, cp_heartbeat_interval_secs = default_cp_interval, cp_install_token = None, cp_cloud_vk_path = None\<rparr>"
  "default_key_rotation_config = \<lparr>kr_enabled = default_kr_enabled, kr_max_bytes_per_key = default_kr_max_bytes, kr_max_seconds_per_key = default_kr_max_seconds\<rparr>"
  "default_tls_config = \<lparr>tls_cfg_enabled = default_tls_enabled, tls_cfg_listen_addr = default_tls_listen_addr, tls_cfg_cert_path = default_tls_cert_path, tls_cfg_key_path = default_tls_key_path\<rparr>"
  "default_quic_config = \<lparr>quic_cfg_enabled = default_quic_enabled, quic_cfg_listen_addr = default_quic_listen_addr, quic_cfg_cert_path = None, quic_cfg_key_path = None\<rparr>"
  "default_auth_config = \<lparr>auth_client_vk_path = None, auth_require_client_auth = default_require_client_auth\<rparr>"
  "default_admin_config = \<lparr>adm_enabled = default_admin_enabled, adm_listen_addr = default_admin_listen_addr, adm_control_plane_vk_path = None, adm_rate_limit_per_second = default_admin_rate_limit, adm_handshake_timeout_secs = default_admin_handshake_timeout\<rparr>"
  "default_ws_config = \<lparr>ws_cfg_enabled = default_ws_enabled, ws_cfg_listen_addr = default_ws_listen_addr, ws_cfg_cert_path = None, ws_cfg_key_path = None, ws_cfg_allowed_origins = [], ws_cfg_handshake_timeout_secs = default_ws_handshake_timeout_secs, ws_cfg_max_connections_per_ip = default_ws_max_connections_per_ip\<rparr>"
  by (simp_all add: default_defs default_fns)

text \<open>The contract of a section's decoder, and what a section of a document gives under it.\<close>

lemma spells_empty: "map fst vs = map fst ds \<Longrightarrow> spells [] vs ds \<longleftrightarrow> vs = ds"
  by (induction "[] :: table" vs ds rule: spells.induct) (auto simp: spelt_def)

locale section_decoder =
  fixes names :: "string list" and conv :: "table \<Rightarrow> 'a option" and settings :: "'a \<Rightarrow> settings" and dflt :: 'a
  assumes conv_iff: "conv t = Some x \<longleftrightarrow> spells t (settings x) (settings dflt)"
    and keys: "map fst (settings x) = names"
begin

lemma settings_default: "settings x = settings dflt \<longleftrightarrow> x = dflt"
  using conv_iff [of "[]" x] conv_iff [of "[]" dflt] spells_empty [of "settings x" "settings dflt"] spells_empty [of "settings dflt" "settings dflt"] keys by auto

lemma sect_iff: "sect names conv t k dflt = Some x \<longleftrightarrow> section_spelt t k (settings x) (settings dflt)"
  by (auto simp: sect_def section_spelt_def conv_iff settings_default keys bind_eq_Some_conv split: option.splits)

end

interpretation server_section: section_decoder server_fields decode_server server_settings default_server_config
proof
  show "decode_server t = Some c \<longleftrightarrow> spells t (server_settings c) (server_settings default_server_config)" for t c
    by (cases c) (simp add: decode_server_def server_settings_def bind_eq_Some_conv field_iffs opt_field_iff default_sections)
qed (simp add: server_settings_def section_fields)

interpretation control_plane_section: section_decoder control_plane_fields decode_control_plane control_plane_settings default_control_plane_config
proof
  show "decode_control_plane t = Some c \<longleftrightarrow> spells t (control_plane_settings c) (control_plane_settings default_control_plane_config)" for t c
    by (cases c) (simp add: decode_control_plane_def control_plane_settings_def bind_eq_Some_conv field_iffs opt_field_iff default_sections)
qed (simp add: control_plane_settings_def section_fields)

interpretation key_rotation_section: section_decoder key_rotation_fields decode_key_rotation key_rotation_settings default_key_rotation_config
proof
  show "decode_key_rotation t = Some c \<longleftrightarrow> spells t (key_rotation_settings c) (key_rotation_settings default_key_rotation_config)" for t c
    by (cases c) (simp add: decode_key_rotation_def key_rotation_settings_def bind_eq_Some_conv field_iffs opt_field_iff default_sections)
qed (simp add: key_rotation_settings_def section_fields)

interpretation tls_section: section_decoder tls_fields decode_tls tls_settings default_tls_config
proof
  show "decode_tls t = Some c \<longleftrightarrow> spells t (tls_settings c) (tls_settings default_tls_config)" for t c
    by (cases c) (simp add: decode_tls_def tls_settings_def bind_eq_Some_conv field_iffs opt_field_iff default_sections)
qed (simp add: tls_settings_def section_fields)

interpretation quic_section: section_decoder quic_fields decode_quic quic_settings default_quic_config
proof
  show "decode_quic t = Some c \<longleftrightarrow> spells t (quic_settings c) (quic_settings default_quic_config)" for t c
    by (cases c) (simp add: decode_quic_def quic_settings_def bind_eq_Some_conv field_iffs opt_field_iff default_sections)
qed (simp add: quic_settings_def section_fields)

interpretation auth_section: section_decoder auth_fields decode_auth auth_settings default_auth_config
proof
  show "decode_auth t = Some c \<longleftrightarrow> spells t (auth_settings c) (auth_settings default_auth_config)" for t c
    by (cases c) (simp add: decode_auth_def auth_settings_def bind_eq_Some_conv field_iffs opt_field_iff default_sections)
qed (simp add: auth_settings_def section_fields)

interpretation admin_section: section_decoder admin_fields decode_admin admin_settings default_admin_config
proof
  show "decode_admin t = Some c \<longleftrightarrow> spells t (admin_settings c) (admin_settings default_admin_config)" for t c
    by (cases c) (simp add: decode_admin_def admin_settings_def bind_eq_Some_conv field_iffs opt_field_iff default_sections)
qed (simp add: admin_settings_def section_fields)

interpretation websocket_section: section_decoder websocket_fields decode_websocket websocket_settings default_ws_config
proof
  show "decode_websocket t = Some c \<longleftrightarrow> spells t (websocket_settings c) (websocket_settings default_ws_config)" for t c
    by (cases c) (simp add: decode_websocket_def websocket_settings_def bind_eq_Some_conv field_iffs opt_field_iff default_sections)
qed (simp add: websocket_settings_def section_fields)

interpretation crypto_section: section_decoder crypto_fields decode_crypto crypto_settings default_signing_key_path
  by unfold_locales (simp_all add: decode_crypto_def crypto_settings_def field_iffs section_fields)

interpretation metrics_section: section_decoder metrics_fields decode_metrics metrics_settings default_metrics_addr
  by unfold_locales (simp_all add: decode_metrics_def metrics_settings_def field_iffs section_fields)

interpretation logging_section: section_decoder logging_fields decode_logging logging_settings default_log_level
  by unfold_locales (simp_all add: decode_logging_def logging_settings_def field_iffs section_fields)

lemmas sections_iff = server_section.sect_iff crypto_section.sect_iff metrics_section.sect_iff logging_section.sect_iff
  control_plane_section.sect_iff key_rotation_section.sect_iff tls_section.sect_iff quic_section.sect_iff
  auth_section.sect_iff admin_section.sect_iff websocket_section.sect_iff

lemma default_config_sections:
  "default_config = \<lparr>server = default_server_config, crypto_signing_key_path = default_signing_key_path,
     metrics_listen_addr = default_metrics_addr, logging_level = default_log_level,
     control_plane = default_control_plane_config, key_rotation = default_key_rotation_config,
     tls = default_tls_config, quic = default_quic_config, auth = default_auth_config,
     admin = default_admin_config, websocket = default_ws_config\<rparr>"
  by (simp add: default_config_def default_fns)

text \<open>Decoding a TOML document yields the configuration c exactly when the document spells c out. Keys that no field has make no
  difference, and a value of another type or out of range is spelt by no configuration, so it is an error.\<close>

lemma config_decoding_spec: "decode_config t = Some c \<longleftrightarrow> config_spelt t c"
  by (cases c) (simp add: decode_config_def bind_eq_Some_conv sections_iff config_spelt_def document_spelt_def sections_def
    default_config_sections)

section \<open>Writing a configuration down\<close>

text \<open>A document for a configuration: the sections \<open>whole\<close> selects, each with the keys \<open>keep\<close> selects of it. It has to
  have whatever differs from the defaults.\<close>

fun write_settings :: "(string \<Rightarrow> bool) \<Rightarrow> settings \<Rightarrow> table" where
  "write_settings keep [] = []"
| "write_settings keep ((k, v) # vs) = (case v of Some w \<Rightarrow> if keep k then [(k, w)] else [] | None \<Rightarrow> []) @ write_settings keep vs"

definition write_sections :: "(string \<Rightarrow> bool) \<Rightarrow> (string \<Rightarrow> string \<Rightarrow> bool) \<Rightarrow> (string \<times> settings) list \<Rightarrow> table" where
  "write_sections whole keep ss = map (\<lambda>(s, vs). (s, TTable (write_settings (keep s) vs))) (filter (\<lambda>(s, _). whole s) ss)"

definition write_config :: "(string \<Rightarrow> bool) \<Rightarrow> (string \<Rightarrow> string \<Rightarrow> bool) \<Rightarrow> config \<Rightarrow> table" where
  "write_config whole keep c = write_sections whole keep (sections c)"

definition writes_changes :: "(string \<Rightarrow> bool) \<Rightarrow> (string \<Rightarrow> string \<Rightarrow> bool) \<Rightarrow> config \<Rightarrow> bool" where
  "writes_changes whole keep c \<longleftrightarrow> list_all2 (\<lambda>(s, vs) (_, ds).
     if whole s then list_all2 (\<lambda>(k, v) (_, d). keep s k \<or> v = d) vs ds else vs = ds) (sections c) (sections default_config)"

lemma write_settings_other: "k \<notin> fst ` set vs \<Longrightarrow> map_of (write_settings keep vs) k = None"
  by (induction vs) (auto split: option.splits)

lemma write_settings_key:
  "distinct (map fst vs) \<Longrightarrow> (k, v) \<in> set vs \<Longrightarrow> map_of (write_settings keep vs) k = (if keep k then v else None)"
proof (induction vs)
  case (Cons x vs)
  obtain k' v' where x: "x = (k', v')" by fastforce
  show ?case
  proof (cases "k' = k")
    case True
    with Cons.prems x have "v' = v" "k \<notin> fst ` set vs" by (auto simp: image_iff)
    with x True write_settings_other [of k vs keep] show ?thesis by (auto split: option.splits)
  next
    case False
    with Cons x show ?thesis by (auto split: option.splits)
  qed
qed simp

lemma spells_all2: "list_all2 (\<lambda>(k, v) (_, d). spelt t k v d) vs ds \<Longrightarrow> spells t vs ds"
  by (induction vs ds rule: list_all2_induct) auto

text \<open>An unset optional field is unset by default.\<close>

definition unset_by_default :: "settings \<Rightarrow> settings \<Rightarrow> bool" where
  "unset_by_default vs ds \<longleftrightarrow> list_all2 (\<lambda>(_, v) (_, d). v = None \<longrightarrow> d = None) vs ds"

lemma write_settings_spells:
  assumes "distinct (map fst vs)" "unset_by_default vs ds" "list_all2 (\<lambda>(k, v) (_, d). keep k \<or> v = d) vs ds"
  shows "spells (write_settings keep vs) vs ds"
proof (rule spells_all2)
  show "list_all2 (\<lambda>(k, v) (_, d). spelt (write_settings keep vs) k v d) vs ds"
  proof (rule list_all2_all_nthI)
    show l: "length vs = length ds" using assms(3) by (rule list_all2_lengthD)
    fix i assume i: "i < length vs"
    obtain k v k' d where e: "vs ! i = (k, v)" "ds ! i = (k', d)" by (metis prod.exhaust)
    have "map_of (write_settings keep vs) k = (if keep k then v else None)"
      by (rule write_settings_key [OF assms(1)]) (use i e in \<open>metis nth_mem\<close>)
    moreover have "keep k \<or> v = d" "v = None \<longrightarrow> d = None"
      using list_all2_nthD [OF assms(3) i] list_all2_nthD [OF assms(2) [unfolded unset_by_default_def] i] e by simp_all
    ultimately show "(case vs ! i of (k, v) \<Rightarrow> \<lambda>(_, d). spelt (write_settings keep vs) k v d) (ds ! i)"
      using e by (auto simp: spelt_def split: option.splits)
  qed
qed

lemma write_sections_other: "s \<notin> fst ` set ss \<Longrightarrow> map_of (write_sections whole keep ss) s = None"
  by (induction ss) (auto simp: write_sections_def)

lemma write_sections_key:
  "distinct (map fst ss) \<Longrightarrow> (s, vs) \<in> set ss \<Longrightarrow>
   map_of (write_sections whole keep ss) s = (if whole s then Some (TTable (write_settings (keep s) vs)) else None)"
proof (induction ss)
  case (Cons x ss)
  obtain s' vs' where x: "x = (s', vs')" by fastforce
  have step: "write_sections whole keep (x # ss) =
      (if whole s' then [(s', TTable (write_settings (keep s') vs'))] else []) @ write_sections whole keep ss"
    by (simp add: write_sections_def x)
  show ?case
  proof (cases "s' = s")
    case True
    with Cons.prems x have "vs' = vs" "s \<notin> fst ` set ss" by (auto simp: image_iff)
    with x True step write_sections_other [of s ss whole keep] show ?thesis by simp
  next
    case False
    with Cons x step show ?thesis by auto
  qed
qed simp

lemma sections_shape:
  "distinct (map fst (sections c))" "(s, vs) \<in> set (sections c) \<Longrightarrow> distinct (map fst vs)"
  "list_all2 (\<lambda>(_, vs) (_, ds). unset_by_default vs ds) (sections c) (sections default_config)"
  by (auto simp: sections_def default_config_sections default_sections unset_by_default_def
    server_settings_def crypto_settings_def metrics_settings_def logging_settings_def control_plane_settings_def
    key_rotation_settings_def tls_settings_def quic_settings_def auth_settings_def admin_settings_def websocket_settings_def)

text \<open>C37. A configuration file is read back: for every configuration, a document that has its sections and keys with their values,
  and may leave out any section and any key that holds its default, decodes to exactly that configuration. Every default function, key and field of the
  eleven sections enters into it. (Integers from \<open>2 ^ 63\<close> on have no TOML text.)\<close>

theorem config_file_round_trip:
  assumes "writes_changes whole keep c"
  shows "decode_config (write_config whole keep c) = Some c"
proof -
  let ?ss = "sections c" and ?ds = "sections default_config" and ?t = "write_sections whole keep (sections c)"
  have "list_all2 (\<lambda>(s, v) (_, d). section_spelt ?t s v d) ?ss ?ds"
  proof (rule list_all2_all_nthI)
    show "length ?ss = length ?ds" by (simp add: sections_def)
    fix i assume i: "i < length ?ss"
    obtain s vs s' ds where e: "?ss ! i = (s, vs)" "?ds ! i = (s', ds)" by (metis prod.exhaust)
    have m: "(s, vs) \<in> set ?ss" using i e(1) by (metis nth_mem)
    have w: "if whole s then list_all2 (\<lambda>(k, v) (_, d). keep s k \<or> v = d) vs ds else vs = ds"
      using list_all2_nthD [OF assms [unfolded writes_changes_def] i] e by simp
    have u: "unset_by_default vs ds" using list_all2_nthD [OF sections_shape(3) i] e by simp
    have "section_spelt ?t s vs ds"
      using write_sections_key [OF sections_shape(1) m, of whole keep] w write_settings_spells [OF sections_shape(2) [OF m] u, of "keep s"]
      by (auto simp: section_spelt_def split: if_splits)
    with e show "(case ?ss ! i of (s, v) \<Rightarrow> \<lambda>(_, d). section_spelt ?t s v d) (?ds ! i)" by simp
  qed
  then show ?thesis unfolding config_decoding_spec config_spelt_def document_spelt_def write_config_def .
qed

theorem config_file_round_trip_witness:
  "write_config (\<lambda>s. s = ''auth'') (\<lambda>s k. k = ''client_vk_path'') demo_config = [(''auth'', TTable [(''client_vk_path'', TStr ''c.vk'')])] \<and>
   decode_config [(''auth'', TTable [(''client_vk_path'', TStr ''c.vk'')])] = Some demo_config"
proof -
  have w: "write_config (\<lambda>s. s = ''auth'') (\<lambda>s k. k = ''client_vk_path'') demo_config = [(''auth'', TTable [(''client_vk_path'', TStr ''c.vk'')])]"
    by (simp add: write_config_def write_sections_def sections_def demo_config_def auth_settings_def)
  have "writes_changes (\<lambda>s. s = ''auth'') (\<lambda>s k. k = ''client_vk_path'') demo_config"
    by (simp add: writes_changes_def sections_def demo_config_def default_config_sections auth_settings_def default_sections default_fns)
  from config_file_round_trip [OF this] w show ?thesis by simp
qed

section \<open>The printed configuration\<close>

text \<open>\<open>impl Debug for ValidConfig\<close>: the fields the formatter is given, in order. How a value is written is the
  standard library's; a duration is given in seconds.\<close>

datatype debug_value = DAddr socket_addr | DNat nat | DU64 u64 | DU32 u32 | DStr string | DBool bool
  | DOpt "string option" | DStrs "string list" | DDuration nat

definition valid_config_fmt :: "valid_config \<Rightarrow> (string \<times> debug_value) list" where
  "valid_config_fmt v = [
     (''listen_addr'', DAddr (vc_listen_addr v)),
     (''backend_addr'', DAddr (vc_backend_addr v)),
     (''metrics_addr'', DAddr (vc_metrics_addr v)),
     (''max_frame_size'', DNat (vc_max_frame_size v)),
     (''handshake_timeout_secs'', DU64 (vc_handshake_timeout_secs v)),
     (''max_connections_per_ip'', DU32 (vc_max_connections_per_ip v)),
     (''signing_key_path'', DStr (vc_signing_key_path v)),
     (''log_level'', DStr (vc_log_level v)),
     (''control_plane_enabled'', DBool (vc_control_plane_enabled v)),
     (''control_plane_endpoint'', DStr (vc_control_plane_endpoint v)),
     (''control_plane_agent_name'', DStr (vc_control_plane_agent_name v)),
     (''heartbeat_interval'', DDuration (unat (vc_heartbeat_interval v))),
     (''key_rotation_enabled'', DBool (vc_key_rotation_enabled v)),
     (''max_bytes_per_key'', DU64 (vc_max_bytes_per_key v)),
     (''key_rotation_interval'', DDuration (unat (vc_key_rotation_interval v))),
     (''tls_enabled'', DBool (vc_tls_enabled v)),
     (''tls_listen_addr'', DAddr (vc_tls_listen_addr v)),
     (''tls_cert_path'', DStr (vc_tls_cert_path v)),
     (''tls_key_path'', DStr (vc_tls_key_path v)),
     (''quic_enabled'', DBool (vc_quic_enabled v)),
     (''quic_listen_addr'', DAddr (vc_quic_listen_addr v)),
     (''quic_cert_path'', DStr (vc_quic_cert_path v)),
     (''quic_key_path'', DStr (vc_quic_key_path v)),
     (''client_auth_enabled'', DBool (vc_client_auth_enabled v)),
     (''client_vk_path'', DOpt (vc_client_vk_path v)),
     (''admin_enabled'', DBool (vc_admin_enabled v)),
     (''admin_listen_addr'', DAddr (vc_admin_listen_addr v)),
     (''admin_control_plane_vk_path'', DOpt (vc_admin_control_plane_vk_path v)),
     (''admin_rate_limit_per_second'', DU32 (vc_admin_rate_limit_per_second v)),
     (''admin_handshake_timeout_secs'', DU64 (vc_admin_handshake_timeout_secs v)),
     (''control_plane_install_token'', DOpt (map_option (\<lambda>_. ''[REDACTED]'') (vc_control_plane_install_token v))),
     (''cloud_vk_path'', DOpt (vc_cloud_vk_path v)),
     (''shutdown_timeout'', DDuration (vc_shutdown_timeout v)),
     (''ws_enabled'', DBool (vc_ws_enabled v)),
     (''ws_listen_addr'', DAddr (vc_ws_listen_addr v)),
     (''ws_cert_path'', DStr (vc_ws_cert_path v)),
     (''ws_key_path'', DStr (vc_ws_key_path v)),
     (''ws_allowed_origins'', DStrs (map normalized (vc_ws_allowed_origins v))),
     (''ws_handshake_timeout_secs'', DU64 (vc_ws_handshake_timeout_secs v)),
     (''ws_max_connections_per_ip'', DU32 (vc_ws_max_connections_per_ip v)),
     (''vk_share_max_tokens'', DNat (vc_vk_share_max_tokens v))]"

definition redacted :: "valid_config \<Rightarrow> valid_config" where
  "redacted v = v\<lparr>vc_control_plane_install_token := map_option (\<lambda>_. ''[REDACTED]'') (vc_control_plane_install_token v)\<rparr>"

lemma map_normalized_same: "map normalized a = map normalized b \<longleftrightarrow> a = b"
  by (simp add: inj_map_eq_map inj_def normalized_origin.expand)

text \<open>Printing a validated configuration hides the install token and nothing else: two configurations print the
  same exactly when they agree in every field, of the token only in whether there is one.\<close>

theorem debug_hides_only_token: "valid_config_fmt v = valid_config_fmt w \<longleftrightarrow> redacted v = redacted w"
  by (cases v; cases w) (simp add: valid_config_fmt_def redacted_def map_normalized_same word_unat_eq_iff [symmetric])

end
