(* ===== verification/Client_File.thy ===== *)
theory Client_File
  imports Config_File Client_Config
begin

text \<open>
  From a TOML document to the client proxy's \<open>ClientConfig\<close>: the default functions of
  \<open>latticeshield-client/src/config.rs\<close> and the decoding serde derives for its sections, and what
  \<open>Config::load\<close> and \<open>ClientConfig::load\<close> return for a file. The names of the default functions carry the
  prefix \<open>client\<close> where the bridge has one of the same name.
\<close>

section \<open>Default functions\<close>

definition client_default_listen_addr :: string where [default_fns]: "client_default_listen_addr = ''127.0.0.1:9090''"
definition default_bridge_addr :: string where [default_fns]: "default_bridge_addr = ''127.0.0.1:8443''"
definition default_server_vk_path :: string where [default_fns]: "default_server_vk_path = ''./keys/server.vk''"
definition client_default_max_frame_size :: nat where [default_fns]: "client_default_max_frame_size = 65536"
definition client_default_log_level :: string where [default_fns]: "client_default_log_level = ''info''"
definition default_pool_max_size :: nat where [default_fns]: "default_pool_max_size = 4"
definition default_pool_idle_timeout_secs :: u64 where [default_fns]: "default_pool_idle_timeout_secs = 30"
definition default_pool_warm_size :: nat where [default_fns]: "default_pool_warm_size = 2"
definition default_pool_warm_interval_secs :: u64 where [default_fns]: "default_pool_warm_interval_secs = 5"
definition default_reconnect_max_retries :: u32 where [default_fns]: "default_reconnect_max_retries = 0"
definition default_reconnect_base_delay_ms :: u64 where [default_fns]: "default_reconnect_base_delay_ms = 100"
definition default_reconnect_max_delay_ms :: u64 where [default_fns]: "default_reconnect_max_delay_ms = 30000"

section \<open>Sections\<close>

definition client_fields :: "string list" where [section_fields]: "client_fields = [''listen_addr'', ''bridge_addr'', ''server_vk_path'', ''max_frame_size'', ''client_sk_path'']"
definition pool_fields :: "string list" where [section_fields]: "pool_fields = [''max_size'', ''idle_timeout_secs'', ''warm_size'', ''warm_interval_secs'']"
definition reconnect_fields :: "string list" where [section_fields]: "reconnect_fields = [''max_retries'', ''base_delay_ms'', ''max_delay_ms'']"

definition decode_reconnect :: "table \<Rightarrow> reconnect_config option" where
  "decode_reconnect t = do {
     max_retries \<leftarrow> field as_u32 t ''max_retries'' default_reconnect_max_retries;
     base_delay_ms \<leftarrow> field as_u64 t ''base_delay_ms'' default_reconnect_base_delay_ms;
     max_delay_ms \<leftarrow> field as_u64 t ''max_delay_ms'' default_reconnect_max_delay_ms;
     Some \<lparr>rc_max_retries = max_retries, rc_base_delay_ms = base_delay_ms, rc_max_delay_ms = max_delay_ms\<rparr> }"

definition decode_client :: "table \<Rightarrow> client_section option" where
  "decode_client t = do {
     listen_addr \<leftarrow> field as_str t ''listen_addr'' client_default_listen_addr;
     bridge_addr \<leftarrow> field as_str t ''bridge_addr'' default_bridge_addr;
     server_vk_path \<leftarrow> field as_str t ''server_vk_path'' default_server_vk_path;
     max_frame_size \<leftarrow> field as_usize t ''max_frame_size'' client_default_max_frame_size;
     client_sk_path \<leftarrow> opt_field t ''client_sk_path'';
     Some \<lparr>cl_listen_addr = listen_addr, cl_bridge_addr = bridge_addr, cl_server_vk_path = server_vk_path,
       cl_max_frame_size = max_frame_size, cl_client_sk_path = client_sk_path\<rparr> }"

definition decode_pool :: "table \<Rightarrow> pool_config option" where
  "decode_pool t = do {
     max_size \<leftarrow> field as_usize t ''max_size'' default_pool_max_size;
     idle_timeout_secs \<leftarrow> field as_u64 t ''idle_timeout_secs'' default_pool_idle_timeout_secs;
     warm_size \<leftarrow> field as_usize t ''warm_size'' default_pool_warm_size;
     warm_interval_secs \<leftarrow> field as_u64 t ''warm_interval_secs'' default_pool_warm_interval_secs;
     Some \<lparr>pool_max_size = max_size, pool_idle_timeout_secs = idle_timeout_secs, pool_warm_size = warm_size,
       pool_warm_interval_secs = warm_interval_secs\<rparr> }"

definition decode_client_logging :: "table \<Rightarrow> string option" where
  "decode_client_logging t = field as_str t ''level'' client_default_log_level"

definition decode_client_config :: "table \<Rightarrow> client_config option" where
  "decode_client_config t = do {
     client_s \<leftarrow> sect client_fields decode_client t ''client'' default_client_section;
     logging_s \<leftarrow> sect logging_fields decode_client_logging t ''logging'' client_default_log_level;
     pool_s \<leftarrow> sect pool_fields decode_pool t ''pool'' default_pool_config;
     reconnect_s \<leftarrow> sect reconnect_fields decode_reconnect t ''reconnect'' default_reconnect_config;
     Some \<lparr>cc_client = client_s, cc_logging_level = logging_s, cc_pool = pool_s, cc_reconnect = reconnect_s\<rparr> }"

definition client_toml_from_str :: "(string \<Rightarrow> table option) \<Rightarrow> string \<Rightarrow> client_config option" where
  "client_toml_from_str toml_parse s = Option.bind (toml_parse s) decode_client_config"

section \<open>Documents of a client configuration\<close>

definition reconnect_settings :: "reconnect_config \<Rightarrow> settings" where
  "reconnect_settings c = [(''max_retries'', Some (TInt (uint (rc_max_retries c)))),
     (''base_delay_ms'', Some (TInt (uint (rc_base_delay_ms c)))), (''max_delay_ms'', Some (TInt (uint (rc_max_delay_ms c))))]"

definition client_settings :: "client_section \<Rightarrow> settings" where
  "client_settings c = [(''listen_addr'', Some (TStr (cl_listen_addr c))), (''bridge_addr'', Some (TStr (cl_bridge_addr c))),
     (''server_vk_path'', Some (TStr (cl_server_vk_path c))), (''max_frame_size'', Some (TInt (int (cl_max_frame_size c)))),
     (''client_sk_path'', map_option TStr (cl_client_sk_path c))]"

definition pool_settings :: "pool_config \<Rightarrow> settings" where
  "pool_settings c = [(''max_size'', Some (TInt (int (pool_max_size c)))),
     (''idle_timeout_secs'', Some (TInt (uint (pool_idle_timeout_secs c)))), (''warm_size'', Some (TInt (int (pool_warm_size c)))),
     (''warm_interval_secs'', Some (TInt (uint (pool_warm_interval_secs c))))]"

definition client_sections :: "client_config \<Rightarrow> (string \<times> settings) list" where
  "client_sections c = [(''client'', client_settings (cc_client c)), (''logging'', logging_settings (cc_logging_level c)),
     (''pool'', pool_settings (cc_pool c)), (''reconnect'', reconnect_settings (cc_reconnect c))]"

definition client_config_spelt :: "table \<Rightarrow> client_config \<Rightarrow> bool" where
  "client_config_spelt t c \<longleftrightarrow> document_spelt t (client_sections c) (client_sections default_client_config)"

section \<open>Loading a file\<close>

lemma default_client_sections:
  "default_reconnect_config = \<lparr>rc_max_retries = default_reconnect_max_retries,
     rc_base_delay_ms = default_reconnect_base_delay_ms, rc_max_delay_ms = default_reconnect_max_delay_ms\<rparr>"
  "default_client_section = \<lparr>cl_listen_addr = client_default_listen_addr, cl_bridge_addr = default_bridge_addr,
     cl_server_vk_path = default_server_vk_path, cl_max_frame_size = client_default_max_frame_size, cl_client_sk_path = None\<rparr>"
  "default_pool_config = \<lparr>pool_max_size = default_pool_max_size, pool_idle_timeout_secs = default_pool_idle_timeout_secs,
     pool_warm_size = default_pool_warm_size, pool_warm_interval_secs = default_pool_warm_interval_secs\<rparr>"
  by (simp_all add: default_reconnect_config_def default_client_section_def default_pool_config_def default_fns)

interpretation reconnect_section: section_decoder reconnect_fields decode_reconnect reconnect_settings default_reconnect_config
proof
  show "decode_reconnect t = Some c \<longleftrightarrow> spells t (reconnect_settings c) (reconnect_settings default_reconnect_config)" for t c
    by (cases c) (simp add: decode_reconnect_def reconnect_settings_def bind_eq_Some_conv field_iffs default_client_sections)
qed (simp add: reconnect_settings_def section_fields)

interpretation client_section_decoder: section_decoder client_fields decode_client client_settings default_client_section
proof
  show "decode_client t = Some c \<longleftrightarrow> spells t (client_settings c) (client_settings default_client_section)" for t c
    by (cases c) (simp add: decode_client_def client_settings_def bind_eq_Some_conv field_iffs opt_field_iff default_client_sections)
qed (simp add: client_settings_def section_fields)

interpretation pool_section: section_decoder pool_fields decode_pool pool_settings default_pool_config
proof
  show "decode_pool t = Some c \<longleftrightarrow> spells t (pool_settings c) (pool_settings default_pool_config)" for t c
    by (cases c) (simp add: decode_pool_def pool_settings_def bind_eq_Some_conv field_iffs default_client_sections)
qed (simp add: pool_settings_def section_fields)

interpretation client_logging_section: section_decoder logging_fields decode_client_logging logging_settings client_default_log_level
  by unfold_locales (simp_all add: decode_client_logging_def logging_settings_def field_iffs section_fields)

lemma client_decoding_spec: "decode_client_config t = Some c \<longleftrightarrow> client_config_spelt t c"
  by (cases c) (simp add: decode_client_config_def bind_eq_Some_conv client_config_spelt_def document_spelt_def
    client_sections_def default_client_config_def client_section_decoder.sect_iff client_logging_section.sect_iff
    pool_section.sect_iff reconnect_section.sect_iff client_default_log_level_def [symmetric])

text \<open>Loading the client's configuration succeeds exactly when the file can be read, is TOML, spells out a
  configuration (keys left out take their defaults) and that configuration validates; the result is the
  validated configuration.\<close>

theorem client_load_spec:
  "client_config_load (client_toml_from_str toml_parse) fs path = Ok v \<longleftrightarrow>
     (\<exists>s t c. read_to_string (fs_read fs path) = Ok s \<and> toml_parse s = Some t \<and> client_config_spelt t c \<and> client_validate c = Ok v)"
  by (auto simp: client_config_load_def client_toml_from_str_def client_decoding_spec [symmetric] bind_eq_Some_conv
    split: sum.splits option.splits)

end
