(* ===== verification/Deploy.thy ===== *)
theory Deploy
  imports End_To_End Server_Props Cli Client_File
begin

text \<open>
  The entry points of the programs and a deployment made with them: \<open>main\<close> of \<open>latticeshield-cli\<close>,
  \<open>latticeshield-bridge\<close> and \<open>latticeshield-client\<close>. A command line is the value \<open>clap\<close> parses it into; what a
  program prints is its result. Each run of a program has its own random source.
\<close>

section \<open>The key management tool\<close>

datatype keygen_target = KeygenServer string | KeygenClient string | KeygenTls string

datatype cli_command = Keygen keygen_target | VkInfo string
  | VkShare (vs_admin_addr: string) (vs_bridge_vk: string) (vs_admin_sk: string)

datatype cli_output = Banner | Generated | KeyInfo string nat string | ShareUrl string string

datatype cli_main_error = MainKeygen io_error | MainTls self_signed_error | MainVk vk_load_error | MainShare cli_error

text \<open>The world of one run: outcomes of the operating system, of \<open>rcgen\<close>, of connecting, and the clock.\<close>

record tool_env =
  te_mkdir :: "io_error + unit"
  te_rcgen :: "(string \<times> string) option"
  te_default_mode :: nat
  te_connect :: "string \<Rightarrow> io_error + bytes \<times> writer"
  te_elapsed :: bool
  te_micros :: u64

definition cli_main ::
  "sym_prims \<Rightarrow> sig_prims \<Rightarrow> ('r, 'x, 'dk, 'ek) kex_prims \<Rightarrow> json_text \<Rightarrow> tool_env \<Rightarrow> cli_command option \<Rightarrow> filesys \<Rightarrow> 'r \<Rightarrow>
   (cli_main_error + cli_output) \<times> filesys" where
  "cli_main S G K C T cmd fs r = (case cmd of
      None \<Rightarrow> (Ok Banner, fs)
    | Some (Keygen (KeygenServer dir)) \<Rightarrow> (case server_generate_and_save G K (te_mkdir T) fs dir r of
        (res, fs', _) \<Rightarrow> (and_then (map_err MainKeygen res) (\<lambda>_. Ok Generated), fs'))
    | Some (Keygen (KeygenClient dir)) \<Rightarrow> (case client_generate_and_save G K (te_mkdir T) fs dir r of
        (res, fs', _) \<Rightarrow> (and_then (map_err MainKeygen res) (\<lambda>_. Ok Generated), fs'))
    | Some (Keygen (KeygenTls dir)) \<Rightarrow> (case generate_self_signed (te_mkdir T) (te_rcgen T) (te_default_mode T) fs dir of
        (res, fs') \<Rightarrow> (and_then (map_err MainTls res) (\<lambda>_. Ok Generated), fs'))
    | Some (VkInfo path) \<Rightarrow> (and_then (map_err MainVk (vk_info S fs path)) (\<lambda>(n, fp). Ok (KeyInfo path n fp)), fs)
    | Some (VkShare admin_addr bridge_vk admin_sk) \<Rightarrow>
        (and_then (map_err MainShare (cmd_vk_share S G K C fs bridge_vk admin_sk (te_elapsed T) (te_connect T admin_addr) (te_micros T) r))
           (\<lambda>(token, url). Ok (ShareUrl token url)), fs))"

section \<open>The bridge and the client proxy\<close>

datatype bridge_cli_command = BridgeRun string | BridgeKeygen string | TlsKeygen string | AdminKeygen string

datatype bridge_main_error = BmConfig config_error | BmStart startup_error | BmKeygen io_error | BmTls self_signed_error

datatype bridge_outcome = Serving valid_config bridge | KeysWritten | FeatureDisabled

text \<open>\<open>main\<close> of the bridge, up to the accept loop of \<open>server::run\<close>; \<open>tls_keygen\<close> is the cargo feature.\<close>

definition bridge_main ::
  "sig_prims \<Rightarrow> ('r, 'x, 'dk, 'ek) kex_prims \<Rightarrow> (string \<Rightarrow> table option) \<Rightarrow> (string \<Rightarrow> url option) \<Rightarrow> (string \<Rightarrow> string option) \<Rightarrow>
   bool \<Rightarrow> tool_env \<Rightarrow> start_env \<Rightarrow> bridge_cli_command \<Rightarrow> 'r \<Rightarrow> (bridge_main_error + bridge_outcome) \<times> filesys" where
  "bridge_main G K toml_parse url_parse env tls_keygen T E cmd r = (case cmd of
      BridgeRun path \<Rightarrow> (and_then (map_err BmConfig (config_load (toml_from_str toml_parse) url_parse env (se_fs E) path)) (\<lambda>config.
        and_then (map_err BmStart (bridge_start E config)) (\<lambda>b. Ok (Serving config b))), se_fs E)
    | BridgeKeygen dir \<Rightarrow> (case server_generate_and_save G K (te_mkdir T) (se_fs E) dir r of
        (res, fs', _) \<Rightarrow> (and_then (map_err BmKeygen res) (\<lambda>_. Ok KeysWritten), fs'))
    | TlsKeygen dir \<Rightarrow> if tls_keygen
        then (case generate_self_signed (te_mkdir T) (te_rcgen T) (te_default_mode T) (se_fs E) dir of
          (res, fs') \<Rightarrow> (and_then (map_err BmTls res) (\<lambda>_. Ok KeysWritten), fs'))
        else (Ok FeatureDisabled, se_fs E)
    | AdminKeygen dir \<Rightarrow> (case admin_keygen G K (te_mkdir T) (se_fs E) dir r of
        (res, fs', _) \<Rightarrow> (and_then (map_err BmKeygen res) (\<lambda>_. Ok KeysWritten), fs')))"

definition client_main ::
  "(string \<Rightarrow> table option) \<Rightarrow> filesys \<Rightarrow> string \<Rightarrow> client_start_error + valid_client_config \<times> verifying_key \<times> identity option" where
  "client_main toml_parse fs path = client_start fs (client_config_load (client_toml_from_str toml_parse) fs path)"

section \<open>A deployment\<close>

text \<open>Files copied from one file system to another.\<close>

definition copied :: "filesys \<Rightarrow> string list \<Rightarrow> filesys \<Rightarrow> bool" where
  "copied fs ps fs' \<longleftrightarrow> (\<forall>p \<in> set ps. fs' p = fs p)"

lemma fs_read_copied: "fs' p = fs p \<Longrightarrow> fs_read fs' p = fs_read fs p"
  by (simp add: fs_read_def)

lemma identity_load_copied:
  assumes "fs' p = fs p" "fs' (vk_path_from p) = fs (vk_path_from p)"
  shows "server_identity_load fs' p = server_identity_load fs p"
  by (simp only: server_identity_load_def assms(1) fs_read_copied [where fs = fs and fs' = fs', OF assms(1)] fs_read_copied [where fs = fs and fs' = fs', OF assms(2)])

lemma vk_load_copied:
  assumes "fs' p = fs p"
  shows "load_verifying_key fs' p = load_verifying_key fs p"
    and "client_verifying_identity_load fs' p = client_verifying_identity_load fs p"
  by (simp_all only: load_verifying_key_def client_verifying_identity_load_def fs_read_copied [where fs = fs and fs' = fs', OF assms])

lemma saved_pair_elsewhere: "q \<noteq> p \<Longrightarrow> q \<noteq> vk_path_from p \<Longrightarrow> saved_pair fs p sk vk q = fs q"
  by (simp add: saved_pair_def)

text \<open>The keys of a directory after both generators ran.\<close>

definition deployed :: "sig_prims \<Rightarrow> ('r, 'x, 'dk, 'ek) kex_prims \<Rightarrow> filesys \<Rightarrow> string \<Rightarrow> 'r \<Rightarrow> 'r \<Rightarrow> filesys" where
  "deployed G K fs dir r q =
     (let (ssk, svk) = fst (generate_keypair G K r); (csk, cvk) = fst (generate_keypair G K q)
      in saved_pair (saved_pair fs (path_join dir ''server.sk'') ssk svk) (path_join dir ''client.sk'') csk cvk)"

lemma deployed_loads:
  assumes "sig_laws G" "kex_laws K" "generate_keypair G K r = ((ssk, svk), r')" "generate_keypair G K q = ((csk, cvk), q')"
  shows "server_identity_load (deployed G K fs dir r q) (path_join dir ''server.sk'') = Ok \<lparr>signing_key = ssk, verifying_key = svk\<rparr>"
    and "load_verifying_key (deployed G K fs dir r q) (path_join dir ''server.vk'') = Ok svk"
    and "server_identity_load (deployed G K fs dir r q) (path_join dir ''client.sk'') = Ok \<lparr>signing_key = csk, verifying_key = cvk\<rparr>"
    and "client_verifying_identity_load (deployed G K fs dir r q) (path_join dir ''client.vk'') = Ok cvk"
proof -
  note ne = key_paths_distinct [of dir]
  let ?s = "saved_pair fs (path_join dir ''server.sk'') ssk svk" and ?D = "deployed G K fs dir r q"
  have D: "?D = saved_pair ?s (path_join dir ''client.sk'') csk cvk" using assms(3,4) by (simp add: deployed_def)
  have far: "?D (path_join dir ''server.sk'') = ?s (path_join dir ''server.sk'')"
    "?D (path_join dir ''server.vk'') = ?s (path_join dir ''server.vk'')"
    unfolding D by (rule saved_pair_elsewhere; simp add: key_paths [symmetric] path_join_inject)+
  note s = saved_pair_loads [OF generate_keypair_lengths [OF assms(1-3)] ne(1), of fs, folded key_paths]
  note c = saved_pair_loads [OF generate_keypair_lengths [OF assms(1,2,4)] ne(2), of ?s, folded key_paths]
  show "server_identity_load ?D (path_join dir ''server.sk'') = Ok \<lparr>signing_key = ssk, verifying_key = svk\<rparr>"
    using identity_load_copied [where fs' = ?D and fs = ?s, OF far(1)] far(2) s(1) by (simp add: key_paths)
  show "load_verifying_key ?D (path_join dir ''server.vk'') = Ok svk" using vk_load_copied(1) [where fs' = ?D and fs = ?s, OF far(2)] s(3) by simp
  show "server_identity_load ?D (path_join dir ''client.sk'') = Ok \<lparr>signing_key = csk, verifying_key = cvk\<rparr>"
    "client_verifying_identity_load ?D (path_join dir ''client.vk'') = Ok cvk" using c(1,4) by (simp_all add: D)
qed

lemma keygen_deploys:
  assumes "te_mkdir T = Ok ()" "\<forall>f \<in> {''server.sk'', ''server.vk'', ''client.sk'', ''client.vk''}. fs (path_join dir f) = None"
  shows "\<exists>fs1. cli_main S G K C T (Some (Keygen (KeygenServer dir))) fs r = (Ok Generated, fs1) \<and>
    cli_main S G K C T (Some (Keygen (KeygenClient dir))) fs1 q = (Ok Generated, deployed G K fs dir r q)"
proof -
  obtain ssk svk r' csk cvk q' where kp: "generate_keypair G K r = ((ssk, svk), r')" "generate_keypair G K q = ((csk, cvk), q')"
    by (metis prod.exhaust)
  let ?s = "path_join dir ''server.sk''" and ?c = "path_join dir ''client.sk''"
  have n: "fs ?s = None" "fs (vk_path_from ?s) = None" "fs ?c = None" "fs (vk_path_from ?c) = None"
    using assms(2) by (simp_all add: key_paths [symmetric])
  have m: "saved_pair fs ?s ssk svk ?c = None" "saved_pair fs ?s ssk svk (vk_path_from ?c) = None"
    using n(3,4) by (simp_all add: saved_pair_def key_paths [symmetric] path_join_inject)
  note f1 = save_pair_fresh [of fs, OF n(1,2) key_paths_distinct(1)]
  note f2 = save_pair_fresh [of "saved_pair fs ?s ssk svk", OF m key_paths_distinct(2)]
  show ?thesis
    using assms(1) kp f1 f2
    by (simp add: cli_main_def server_generate_and_save_def client_generate_and_save_def key_paths deployed_def)
qed

text \<open>C16. A deployment made with the tools works: when a directory has no keys, \<open>keygen server\<close> and \<open>keygen client\<close>
  succeed. Copy the server's pair and the client's public key to the bridge and the client's pair and the
  server's public key to the client. A bridge that is configured with these files, with client
  authentication on and the optional TLS and admin listeners off, starts unless the metrics recorder or
  the listening socket fail; the client starts; and the two are paired, so their handshake completes.
  \<open>vk-info\<close> prints on the client's side the fingerprint of the key the bridge signs with.\<close>

theorem provisioned_deployment_pairs:
  assumes "sig_laws G" "kex_laws K" "te_mkdir T = Ok ()"
    and "\<forall>f \<in> {''server.sk'', ''server.vk'', ''client.sk'', ''client.vk''}. fs (path_join dir f) = None"
    and "cli_main S G K C T (Some (Keygen (KeygenServer dir))) fs r = (res1, fs1)"
    and "cli_main S G K C T (Some (Keygen (KeygenClient dir))) fs1 q = (res2, fs2)"
    and "copied fs2 (map (path_join dir) [''server.sk'', ''server.vk'', ''client.vk'']) (se_fs E)"
    and "copied fs2 (map (path_join dir) [''client.sk'', ''client.vk'', ''server.vk'']) cfs"
    and "config_load (toml_from_str P) U env (se_fs E) path = Ok cfg"
    and "vc_signing_key_path cfg = path_join dir ''server.sk''" "vc_client_auth_enabled cfg"
    and "vc_client_vk_path cfg = Some (path_join dir ''client.vk'')" "\<not> vc_tls_enabled cfg" "\<not> vc_admin_enabled cfg"
    and "se_metrics_ok E" "se_bind E = Ok ()"
    and "client_config_load (client_toml_from_str P) cfs cpath = Ok ccfg"
    and "vcc_server_vk_path ccfg = path_join dir ''server.vk''" "vcc_client_sk_path ccfg = Some (path_join dir ''client.sk'')"
  shows "\<exists>b vk i. res1 = Ok Generated \<and> res2 = Ok Generated \<and>
     bridge_main G K P U env feature T E (BridgeRun path) r = (Ok (Serving cfg b), se_fs E) \<and>
     client_main P cfs cpath = Ok (ccfg, vk, Some i) \<and> paired G K (session_context_of b) vk (Some i) \<and>
     cli_main S G K C T (Some (VkInfo (path_join dir ''server.vk''))) cfs q =
       (Ok (KeyInfo (path_join dir ''server.vk'') VERIFYING_KEY_LEN (fingerprint S (verifying_key (br_identity b)))), cfs)"
proof -
  obtain ssk svk r' csk cvk q' where kp: "generate_keypair G K r = ((ssk, svk), r')" "generate_keypair G K q = ((csk, cvk), q')"
    by (metis prod.exhaust)
  from keygen_deploys [OF assms(3,4), of S G K C r q] assms(5,6)
  have ok: "res1 = Ok Generated" "res2 = Ok Generated" "fs2 = deployed G K fs dir r q" by auto
  note d = deployed_loads [OF assms(1,2) kp, of fs dir, folded ok(3)]
  let ?s = "\<lparr>signing_key = ssk, verifying_key = svk\<rparr>" and ?c = "\<lparr>signing_key = csk, verifying_key = cvk\<rparr>"
  from assms(7,8) have files:
    "se_fs E (path_join dir ''server.sk'') = fs2 (path_join dir ''server.sk'')"
    "se_fs E (path_join dir ''server.vk'') = fs2 (path_join dir ''server.vk'')"
    "se_fs E (path_join dir ''client.vk'') = fs2 (path_join dir ''client.vk'')"
    "cfs (path_join dir ''client.sk'') = fs2 (path_join dir ''client.sk'')"
    "cfs (path_join dir ''client.vk'') = fs2 (path_join dir ''client.vk'')"
    "cfs (path_join dir ''server.vk'') = fs2 (path_join dir ''server.vk'')" by (simp_all add: copied_def)
  have bl: "server_identity_load (se_fs E) (path_join dir ''server.sk'') = Ok ?s"
    using identity_load_copied [where fs' = "se_fs E" and fs = fs2, OF files(1)] files(2) d(1) by (simp add: key_paths)
  have bc: "client_verifying_identity_load (se_fs E) (path_join dir ''client.vk'') = Ok cvk"
    using vk_load_copied(2) [where fs' = "se_fs E" and fs = fs2, OF files(3)] d(4) by simp
  have cl: "server_identity_load cfs (path_join dir ''client.sk'') = Ok ?c"
    using identity_load_copied [where fs' = cfs and fs = fs2, OF files(4)] files(5) d(3) by (simp add: key_paths)
  have cv: "load_verifying_key cfs (path_join dir ''server.vk'') = Ok svk"
    using vk_load_copied(1) [where fs' = cfs and fs = fs2, OF files(6)] d(2) by simp
  obtain b where b: "bridge_start E cfg = Ok b" "br_identity b = ?s" "br_client_vk b = Some cvk"
    using assms(10-16) bl bc by (simp add: bridge_start_def load_client_vk_def start_tls_def start_admin_def)
  moreover have "client_main P cfs cpath = Ok (ccfg, svk, Some ?c)"
    using assms(17-19) cl cv by (simp add: client_main_def client_start_def client_identity_load_def)
  moreover have "paired G K (session_context_of b) svk (Some ?c)" using b kp by (auto simp: paired_def session_context_of_def)
  ultimately show ?thesis using ok assms(9) cv generate_keypair_lengths(2) [OF assms(1,2) kp(1)]
    by (auto simp: bridge_main_def cli_main_def vk_info_def)
qed

text \<open>Two files and a parser that reads them: the bridge's file names the client's key, the client's file its own.\<close>

definition demo_toml :: "string \<Rightarrow> table option" where
  "demo_toml s = (if s = ''b'' then Some [(''auth'', TTable [(''client_vk_path'', TStr ''./keys/client.vk'')])]
     else if s = ''c'' then Some [(''client'', TTable [(''client_sk_path'', TStr ''./keys/client.sk'')])] else None)"

definition demo_files :: filesys where
  "demo_files = [''b.toml'' \<mapsto> \<lparr>f_mode = oct644, f_data = ascii ''b'', f_open = True\<rparr>,
     ''c.toml'' \<mapsto> \<lparr>f_mode = oct644, f_data = ascii ''c'', f_open = True\<rparr>]"

definition demo_deployed :: filesys where
  "demo_deployed = deployed toy_sig toy_kex demo_files ''./keys'' 4 5"

definition demo_tool :: tool_env where
  "demo_tool = \<lparr>te_mkdir = Ok (), te_rcgen = None, te_default_mode = oct644, te_connect = (\<lambda>_. Err NotFound), te_elapsed = True, te_micros = 0\<rparr>"

definition demo_host :: start_env where
  "demo_host = \<lparr>se_metrics_ok = True, se_fs = demo_deployed, se_pem = demo_pem, se_bind = Ok (), se_rendered = []\<rparr>"

lemma deployed_elsewhere:
  assumes "p \<noteq> path_join dir ''server.sk''" "p \<noteq> path_join dir ''server.vk''" "p \<noteq> path_join dir ''client.sk''"
    "p \<noteq> path_join dir ''client.vk''"
  shows "deployed G K fs dir r q p = fs p"
  unfolding deployed_def split_beta Let_def using assms by (simp only: saved_pair_elsewhere key_paths not_False_eq_True)

lemma demo_deployed_files: "fs_read demo_deployed ''b.toml'' = Ok (ascii ''b'')" "fs_read demo_deployed ''c.toml'' = Ok (ascii ''c'')"
  unfolding demo_deployed_def fs_read_def by (subst deployed_elsewhere; simp add: path_join_def demo_files_def)+

definition demo_bridge_config :: config where
  "demo_bridge_config = default_config\<lparr>auth := \<lparr>auth_client_vk_path = Some ''./keys/client.vk'', auth_require_client_auth = True\<rparr>\<rparr>"

lemma demo_loads:
  obtains cfg ccfg where
    "config_load (toml_from_str demo_toml) (\<lambda>_. None) (\<lambda>_. None) demo_deployed ''b.toml'' = Ok cfg"
    "vc_signing_key_path cfg = ''./keys/server.sk''" "vc_client_auth_enabled cfg" "vc_client_vk_path cfg = Some ''./keys/client.vk''"
    "\<not> vc_tls_enabled cfg" "\<not> vc_admin_enabled cfg"
    "client_config_load (client_toml_from_str demo_toml) demo_deployed ''c.toml'' = Ok ccfg"
    "vcc_server_vk_path ccfg = ''./keys/server.vk''" "vcc_client_sk_path ccfg = Some ''./keys/client.sk''"
proof -
  have s: "read_to_string (Ok (ascii ''b'')) = Ok ''b''" "read_to_string (Ok (ascii ''c'')) = Ok ''c''" by code_simp+
  have b: "toml_from_str demo_toml ''b'' = Some demo_bridge_config"
    by (simp add: toml_from_str_def demo_toml_def decode_config_def sect_def decode_auth_def opt_field_def field_def
        demo_bridge_config_def default_config_sections default_require_client_auth_def)
  have "\<exists>v. validate (\<lambda>_. None) (\<lambda>_. None) demo_bridge_config = Ok v"
    by (simp add: validate_defs demo_bridge_config_def default_defs parse_addr_def demo_addrs) blast
  then obtain cfg where v: "validate (\<lambda>_. None) (\<lambda>_. None) demo_bridge_config = Ok cfg" ..
  have t: "\<not> vc_tls_enabled cfg" by (rule validate_OkE [OF v]) (simp add: demo_bridge_config_def default_defs)
  have c: "client_toml_from_str demo_toml ''c'' = Some (default_client_config\<lparr>cc_client :=
      default_client_section\<lparr>cl_client_sk_path := Some ''./keys/client.sk''\<rparr>\<rparr>)"
    by (simp add: client_toml_from_str_def demo_toml_def decode_client_config_def sect_def decode_client_def opt_field_def field_def
        default_client_config_def default_client_sections client_default_log_level_def)
  have a: "parse_socket_addr ''127.0.0.1:9090'' \<noteq> None" "parse_socket_addr ''127.0.0.1:8443'' \<noteq> None" by code_simp+
  have cv: "\<exists>v. client_validate (default_client_config\<lparr>cc_client := default_client_section\<lparr>cl_client_sk_path := Some ''./keys/client.sk''\<rparr>\<rparr>) = Ok v \<and>
      vcc_server_vk_path v = ''./keys/server.vk'' \<and> vcc_client_sk_path v = Some ''./keys/client.sk''"
    using a by (auto simp: client_validate_def default_client_config_def default_client_section_def default_pool_config_def
        default_reconnect_config_def Let_def)
  with validate_start [OF v] v t that b c s demo_deployed_files show ?thesis
    by (auto simp: config_load_def client_config_load_def demo_bridge_config_def default_defs)
qed

theorem provisioned_deployment_pairs_witness:
  "\<exists>cfg b ccfg vk i. bridge_main toy_sig toy_kex demo_toml (\<lambda>_. None) (\<lambda>_. None) True demo_tool demo_host (BridgeRun ''b.toml'') 4 =
       (Ok (Serving cfg b), demo_deployed) \<and>
     client_main demo_toml demo_deployed ''c.toml'' = Ok (ccfg, vk, Some i) \<and> paired toy_sig toy_kex (session_context_of b) vk (Some i)"
proof -
  let ?k = "path_join ''./keys''"
  have free: "\<forall>f \<in> {''server.sk'', ''server.vk'', ''client.sk'', ''client.vk''}. demo_files (?k f) = None"
    by (simp add: path_join_def demo_files_def)
  have md: "te_mkdir demo_tool = Ok ()" by (simp add: demo_tool_def)
  from keygen_deploys [OF md free, of toy_sym toy_sig toy_kex toy_json 4 5] obtain fs1 where
    g: "cli_main toy_sym toy_sig toy_kex toy_json demo_tool (Some (Keygen (KeygenServer ''./keys''))) demo_files 4 = (Ok Generated, fs1)"
    "cli_main toy_sym toy_sig toy_kex toy_json demo_tool (Some (Keygen (KeygenClient ''./keys''))) fs1 5 = (Ok Generated, demo_deployed)"
    unfolding demo_deployed_def by blast
  have h: "se_fs demo_host = demo_deployed" "se_metrics_ok demo_host" "se_bind demo_host = Ok ()" by (simp_all add: demo_host_def)
  have c: "copied demo_deployed ps (se_fs demo_host)" "copied demo_deployed ps demo_deployed" for ps by (simp_all add: copied_def h)
  have p: "?k ''server.sk'' = ''./keys/server.sk''" "?k ''server.vk'' = ''./keys/server.vk''"
    "?k ''client.sk'' = ''./keys/client.sk''" "?k ''client.vk'' = ''./keys/client.vk''" by (simp_all add: path_join_def)
  obtain cfg ccfg where l: "config_load (toml_from_str demo_toml) (\<lambda>_. None) (\<lambda>_. None) (se_fs demo_host) ''b.toml'' = Ok cfg"
    "vc_signing_key_path cfg = ?k ''server.sk''" "vc_client_auth_enabled cfg" "vc_client_vk_path cfg = Some (?k ''client.vk'')"
    "\<not> vc_tls_enabled cfg" "\<not> vc_admin_enabled cfg"
    "client_config_load (client_toml_from_str demo_toml) demo_deployed ''c.toml'' = Ok ccfg"
    "vcc_server_vk_path ccfg = ?k ''server.vk''" "vcc_client_sk_path ccfg = Some (?k ''client.sk'')"
    unfolding p h(1) by (rule demo_loads)
  from provisioned_deployment_pairs [OF toy_sig_laws(1) toy_kex_laws(1) md free g c l(1-6) h(2,3) l(7-9), of True] h(1)
  show ?thesis by auto
qed

end
