(* ===== verification/Listeners.thy ===== *)
theory Listeners
  imports Server
begin

text \<open>
  The accept loops of the bridge: the main loop of \<open>run\<close>, \<open>spawn_tls_listener\<close>, \<open>spawn_quic_listener\<close>,
  \<open>spawn_ws_listener\<close> in \<open>latticeshield-bridge/src/server.rs\<close> and \<open>spawn_admin_listener\<close> in \<open>admin.rs\<close>.
  Each loop is a state with one step function; the events are what \<open>accept\<close> returned, the end of a
  connection task, and the shutdown branch of \<open>select!\<close>. What a connection task does is in \<open>Server\<close>,
  \<open>Session\<close>, \<open>Http_Relay\<close> and \<open>Admin\<close>.

  A connection task is its number, in the order the loop spawned them, with the address it counts for.
\<close>

type_synonym conn_task = "nat \<times> ip_addr"

datatype accept_event =
    Incoming "io_error + socket_addr" \<comment> \<open>what \<open>listener.accept()\<close> returned\<close>
  | TaskDone nat \<comment> \<open>the connection task ends and drops its guard\<close>
  | ShutdownSeen \<comment> \<open>\<open>shutdown_rx.changed()\<close>\<close>

section \<open>The main loop\<close>

text \<open>\<open>tcp_ip_counter\<close>, the running session tasks, \<open>session_handles\<close>, and whether the loop still runs.\<close>

record tcp_listener =
  tl_counter :: ip_counter_map
  tl_tasks :: "conn_task list"
  tl_handles :: "ip_addr list"
  tl_accepting :: bool

definition tcp_listener_start :: tcp_listener where
  "tcp_listener_start = \<lparr>tl_counter = \<lambda>_. None, tl_tasks = [], tl_handles = [], tl_accepting = True\<rparr>"

definition tcp_accept :: "valid_config \<Rightarrow> io_error + socket_addr \<Rightarrow> tcp_listener \<Rightarrow> tcp_listener" where
  "tcp_accept cfg res l = (case res of
      Err _ \<Rightarrow> l
    | Ok peer \<Rightarrow> (case conn_admit (unat (vc_max_connections_per_ip cfg)) (tl_counter l) (addr_ip peer) of
        (False, m) \<Rightarrow> l\<lparr>tl_counter := m\<rparr>
      | (True, m) \<Rightarrow> l\<lparr>tl_counter := m, tl_tasks := (length (tl_handles l), addr_ip peer) # tl_tasks l,
          tl_handles := tl_handles l @ [addr_ip peer]\<rparr>))"

definition tcp_task_done :: "nat \<Rightarrow> tcp_listener \<Rightarrow> tcp_listener" where
  "tcp_task_done i l = (case map_of (tl_tasks l) i of
      None \<Rightarrow> l
    | Some ip \<Rightarrow> l\<lparr>tl_counter := ip_guard_drop (tl_counter l) ip, tl_tasks := remove1 (i, ip) (tl_tasks l)\<rparr>)"

fun tcp_listener_step :: "valid_config \<Rightarrow> tcp_listener \<Rightarrow> accept_event \<Rightarrow> tcp_listener" where
  "tcp_listener_step cfg l (Incoming res) = (if tl_accepting l then tcp_accept cfg res l else l)"
| "tcp_listener_step cfg l (TaskDone i) = tcp_task_done i l"
| "tcp_listener_step cfg l ShutdownSeen = l\<lparr>tl_accepting := False\<rparr>"

section \<open>The WebSocket listener\<close>

record ws_listener =
  wl_counter :: ip_counter_map
  wl_tasks :: "conn_task list"
  wl_spawned :: nat
  wl_accepting :: bool

text \<open>Building the acceptor and binding the socket; on a failure the task returns and there is no listener.\<close>

definition spawn_ws_listener :: "start_env \<Rightarrow> valid_config \<Rightarrow> io_error + unit \<Rightarrow> ws_listener option" where
  "spawn_ws_listener E cfg bind =
    (case build_acceptor (se_pem E) (se_fs E) (vc_ws_cert_path cfg) (vc_ws_key_path cfg) of
       Err _ \<Rightarrow> None
     | Ok _ \<Rightarrow> (case bind of
         Err _ \<Rightarrow> None
       | Ok _ \<Rightarrow> Some \<lparr>wl_counter = \<lambda>_. None, wl_tasks = [], wl_spawned = 0, wl_accepting = True\<rparr>))"

definition ws_accept :: "valid_config \<Rightarrow> io_error + socket_addr \<Rightarrow> ws_listener \<Rightarrow> ws_listener" where
  "ws_accept cfg res l = (case res of
      Err _ \<Rightarrow> l
    | Ok peer \<Rightarrow> (case conn_admit (unat (vc_ws_max_connections_per_ip cfg)) (wl_counter l) (addr_ip peer) of
        (False, m) \<Rightarrow> l\<lparr>wl_counter := m\<rparr>
      | (True, m) \<Rightarrow> l\<lparr>wl_counter := m, wl_tasks := (wl_spawned l, addr_ip peer) # wl_tasks l,
          wl_spawned := Suc (wl_spawned l)\<rparr>))"

definition ws_task_done :: "nat \<Rightarrow> ws_listener \<Rightarrow> ws_listener" where
  "ws_task_done i l = (case map_of (wl_tasks l) i of
      None \<Rightarrow> l
    | Some ip \<Rightarrow> l\<lparr>wl_counter := ip_guard_drop (wl_counter l) ip, wl_tasks := remove1 (i, ip) (wl_tasks l)\<rparr>)"

fun ws_listener_step :: "valid_config \<Rightarrow> ws_listener \<Rightarrow> accept_event \<Rightarrow> ws_listener" where
  "ws_listener_step cfg l (Incoming res) = (if wl_accepting l then ws_accept cfg res l else l)"
| "ws_listener_step cfg l (TaskDone i) = ws_task_done i l"
| "ws_listener_step cfg l ShutdownSeen = l\<lparr>wl_accepting := False\<rparr>"

section \<open>The QUIC listener\<close>

text \<open>Here the task is spawned first; it waits for the QUIC handshake (\<open>ql_connecting\<close>) and only then
  counts the peer. Shutdown closes the endpoint with all its connections.\<close>

record quic_listener =
  ql_counter :: ip_counter_map
  ql_connecting :: "nat list"
  ql_tasks :: "conn_task list"
  ql_spawned :: nat
  ql_accepting :: bool
  ql_endpoint_closed :: bool

datatype quic_event =
    QuicIncoming bool \<comment> \<open>whether \<open>endpoint.accept()\<close> returned a connection\<close>
  | QuicConnected nat "connection_error + ip_addr" \<comment> \<open>\<open>connecting.await\<close> of a task\<close>
  | QuicTaskDone nat
  | QuicShutdown

definition spawn_quic_listener ::
  "start_env \<Rightarrow> (tls_server_config \<Rightarrow> bool) \<Rightarrow> valid_config \<Rightarrow> io_error + unit \<Rightarrow> quic_listener option" where
  "spawn_quic_listener E crypto_ok cfg bind =
    (case build_endpoint (se_pem E) crypto_ok bind (se_fs E) (vc_quic_cert_path cfg) (vc_quic_key_path cfg)
        (vc_quic_listen_addr cfg) of
       Err _ \<Rightarrow> None
     | Ok _ \<Rightarrow> Some \<lparr>ql_counter = \<lambda>_. None, ql_connecting = [], ql_tasks = [], ql_spawned = 0,
         ql_accepting = True, ql_endpoint_closed = False\<rparr>)"

definition quic_connected :: "valid_config \<Rightarrow> nat \<Rightarrow> connection_error + ip_addr \<Rightarrow> quic_listener \<Rightarrow> quic_listener" where
  "quic_connected cfg i res l =
    (let l1 = l\<lparr>ql_connecting := remove1 i (ql_connecting l)\<rparr>
     in case res of
          Err _ \<Rightarrow> l1
        | Ok ip \<Rightarrow> (case conn_admit (unat (vc_max_connections_per_ip cfg)) (ql_counter l) ip of
            (False, m) \<Rightarrow> l1\<lparr>ql_counter := m\<rparr>
          | (True, m) \<Rightarrow> l1\<lparr>ql_counter := m, ql_tasks := (i, ip) # ql_tasks l\<rparr>))"

definition quic_task_done :: "nat \<Rightarrow> quic_listener \<Rightarrow> quic_listener" where
  "quic_task_done i l = (case map_of (ql_tasks l) i of
      None \<Rightarrow> l
    | Some ip \<Rightarrow> l\<lparr>ql_counter := ip_guard_drop (ql_counter l) ip, ql_tasks := remove1 (i, ip) (ql_tasks l)\<rparr>)"

fun quic_listener_step :: "valid_config \<Rightarrow> quic_listener \<Rightarrow> quic_event \<Rightarrow> quic_listener" where
  "quic_listener_step cfg l (QuicIncoming True) = (if ql_accepting l
     then l\<lparr>ql_connecting := ql_spawned l # ql_connecting l, ql_spawned := Suc (ql_spawned l)\<rparr> else l)"
| "quic_listener_step cfg l (QuicIncoming False) = l\<lparr>ql_accepting := False\<rparr>"
| "quic_listener_step cfg l (QuicConnected i res) = (if i \<in> set (ql_connecting l) then quic_connected cfg i res l else l)"
| "quic_listener_step cfg l (QuicTaskDone i) = quic_task_done i l"
| "quic_listener_step cfg l QuicShutdown =
    (if ql_accepting l then l\<lparr>ql_accepting := False, ql_endpoint_closed := True\<rparr> else l)"

section \<open>The TLS and the admin listener\<close>

text \<open>The TLS listener counts nothing per address: the running tasks and the number of spawned ones.\<close>

record tls_listener =
  hl_tasks :: "nat list"
  hl_spawned :: nat
  hl_accepting :: bool

definition spawn_tls_listener :: "io_error + unit \<Rightarrow> tls_listener option" where
  "spawn_tls_listener bind = (case bind of
      Err _ \<Rightarrow> None
    | Ok _ \<Rightarrow> Some \<lparr>hl_tasks = [], hl_spawned = 0, hl_accepting = True\<rparr>)"

fun tls_listener_step :: "tls_listener \<Rightarrow> accept_event \<Rightarrow> tls_listener" where
  "tls_listener_step l (Incoming res) = (if hl_accepting l
     then (case res of Err _ \<Rightarrow> l | Ok _ \<Rightarrow> l\<lparr>hl_tasks := hl_spawned l # hl_tasks l, hl_spawned := Suc (hl_spawned l)\<rparr>)
     else l)"
| "tls_listener_step l (TaskDone i) = l\<lparr>hl_tasks := remove1 i (hl_tasks l)\<rparr>"
| "tls_listener_step l ShutdownSeen = l\<lparr>hl_accepting := False\<rparr>"

text \<open>The admin listener limits the rate at which it serves connections; \<open>al_served\<close> are the times of the
  served ones.\<close>

record admin_listener =
  al_window :: rate_window
  al_served :: "nat list"
  al_accepting :: bool

datatype admin_listen_event = AdminIncoming "io_error + nat" | AdminShutdown

definition spawn_admin_listener :: "io_error + unit \<Rightarrow> nat \<Rightarrow> admin_listener option" where
  "spawn_admin_listener bind now = (case bind of
      Err _ \<Rightarrow> None
    | Ok _ \<Rightarrow> Some \<lparr>al_window = \<lparr>window_start = now, window_count = 0\<rparr>, al_served = [], al_accepting = True\<rparr>)"

fun admin_listener_step :: "valid_config \<Rightarrow> admin_listener \<Rightarrow> admin_listen_event \<Rightarrow> admin_listener" where
  "admin_listener_step cfg l (AdminIncoming res) = (if al_accepting l
     then (case res of
         Err _ \<Rightarrow> l
       | Ok now \<Rightarrow> (case rate_step (vc_admin_rate_limit_per_second cfg) now (al_window l) of
           (served, rw) \<Rightarrow> l\<lparr>al_window := rw, al_served := al_served l @ (if served then [now] else [])\<rparr>))
     else l)"
| "admin_listener_step cfg l AdminShutdown = l\<lparr>al_accepting := False\<rparr>"

section \<open>Accounting\<close>

lemma count_map_remove1:
  assumes "map_of ts i = Some ip"
  shows "ip \<in> set (map snd ts)" "count_list (map snd (remove1 (i, ip) ts)) = count_list (remove1 ip (map snd ts))"
proof -
  have m: "(i, ip) \<in> set ts" using assms by (rule map_of_SomeD)
  then show i: "ip \<in> set (map snd ts)" by force
  have "count_list (map snd ts) x = count_list (map snd (remove1 (i, ip) ts)) x + (if x = ip then 1 else 0)" for x
    using m by (induction ts) auto
  then have "count_list (map snd (remove1 (i, ip) ts)) x =
      (if x = ip then count_list (map snd ts) ip - 1 else count_list (map snd ts) x)" for x by simp
  then show "count_list (map snd (remove1 (i, ip) ts)) = count_list (remove1 ip (map snd ts))"
    using ipc.count_list_remove1 [OF i] by (simp add: fun_eq_iff)
qed

lemma slot_released:
  "map_of ts i = Some ip \<Longrightarrow> \<exists>k \<in> set (map snd ts). ip_guard_drop m ip = ip_guard_drop m k \<and>
     count_list (map snd (remove1 (i, ip) ts)) = count_list (remove1 k (map snd ts))"
  by (intro bexI [of _ ip]) (simp_all only: count_map_remove1 simp_thms)

text \<open>All three counting loops are instances of the capped listener.\<close>

lemma tcp_accept_slots:
  assumes "0 < unat (vc_max_connections_per_ip cfg)"
  obtains "tcp_accept cfg res l = l"
  | peer m where "res = Ok peer" "admit_slot (unat (vc_max_connections_per_ip cfg)) (tl_counter l) (addr_ip peer) = Some m"
      "tcp_accept cfg res l = l\<lparr>tl_counter := m, tl_tasks := (length (tl_handles l), addr_ip peer) # tl_tasks l,
         tl_handles := tl_handles l @ [addr_ip peer]\<rparr>"
proof (cases res)
  case (Inr peer)
  from assms show ?thesis
    by (rule conn_admit_cases [of _ "tl_counter l" "addr_ip peer"]) (use Inr that in \<open>auto simp: tcp_accept_def\<close>)
qed (use that in \<open>auto simp: tcp_accept_def\<close>)

lemma ws_accept_slots:
  assumes "0 < unat (vc_ws_max_connections_per_ip cfg)"
  obtains "ws_accept cfg res l = l"
  | peer m where "res = Ok peer" "admit_slot (unat (vc_ws_max_connections_per_ip cfg)) (wl_counter l) (addr_ip peer) = Some m"
      "ws_accept cfg res l = l\<lparr>wl_counter := m, wl_tasks := (wl_spawned l, addr_ip peer) # wl_tasks l,
         wl_spawned := Suc (wl_spawned l)\<rparr>"
proof (cases res)
  case (Inr peer)
  from assms show ?thesis
    by (rule conn_admit_cases [of _ "wl_counter l" "addr_ip peer"]) (use Inr that in \<open>auto simp: ws_accept_def\<close>)
qed (use that in \<open>auto simp: ws_accept_def\<close>)

lemma quic_connected_slots:
  assumes "0 < unat (vc_max_connections_per_ip cfg)"
  obtains "quic_connected cfg i res l = l\<lparr>ql_connecting := remove1 i (ql_connecting l)\<rparr>"
  | ip m where "res = Ok ip" "admit_slot (unat (vc_max_connections_per_ip cfg)) (ql_counter l) ip = Some m"
      "quic_connected cfg i res l = l\<lparr>ql_connecting := remove1 i (ql_connecting l), ql_counter := m,
         ql_tasks := (i, ip) # ql_tasks l\<rparr>"
proof (cases res)
  case (Inr ip)
  from assms show ?thesis
    by (rule conn_admit_cases [of _ "ql_counter l" ip]) (use Inr that in \<open>auto simp: quic_connected_def\<close>)
qed (use that in \<open>auto simp: quic_connected_def\<close>)

lemma fresh_table: "ip_count (\<lambda>_. None) ip = 0" "no_zero_entry (\<lambda>_. None)"
  by (simp_all add: ip_count_def no_zero_entry_def)

definition ws_listener_start :: ws_listener where
  "ws_listener_start = \<lparr>wl_counter = \<lambda>_. None, wl_tasks = [], wl_spawned = 0, wl_accepting = True\<rparr>"

definition quic_listener_start :: quic_listener where
  "quic_listener_start = \<lparr>ql_counter = \<lambda>_. None, ql_connecting = [], ql_tasks = [], ql_spawned = 0,
     ql_accepting = True, ql_endpoint_closed = False\<rparr>"

interpretation tcpl: capped_listener "admit_slot (unat (vc_max_connections_per_ip cfg))" ip_guard_drop ip_count
    "unat (vc_max_connections_per_ip cfg)" tl_counter "\<lambda>l. map snd (tl_tasks l)" "tcp_listener_step cfg"
    tcp_listener_start no_zero_entry for cfg
proof (unfold_locales, goal_cases)
  case (6 l e)
  show ?case
  proof (cases e)
    case (Incoming res)
    from 6 show ?thesis by (rule tcp_accept_slots [of cfg res l]) (use Incoming in auto)
  next
    case (TaskDone i)
    then show ?thesis
      using slot_released [of "tl_tasks l" i _ "tl_counter l"] by (cases "map_of (tl_tasks l) i") (simp_all add: tcp_task_done_def)
  qed simp
qed (auto simp: tcp_listener_start_def fresh_table intro: ip_table_laws)

interpretation wsl: capped_listener "admit_slot (unat (vc_ws_max_connections_per_ip cfg))" ip_guard_drop ip_count
    "unat (vc_ws_max_connections_per_ip cfg)" wl_counter "\<lambda>l. map snd (wl_tasks l)" "ws_listener_step cfg"
    ws_listener_start no_zero_entry for cfg
proof (unfold_locales, goal_cases)
  case (6 l e)
  show ?case
  proof (cases e)
    case (Incoming res)
    from 6 show ?thesis by (rule ws_accept_slots [of cfg res l]) (use Incoming in auto)
  next
    case (TaskDone i)
    then show ?thesis
      using slot_released [of "wl_tasks l" i _ "wl_counter l"] by (cases "map_of (wl_tasks l) i") (simp_all add: ws_task_done_def)
  qed simp
qed (auto simp: ws_listener_start_def fresh_table intro: ip_table_laws)

interpretation quicl: capped_listener "admit_slot (unat (vc_max_connections_per_ip cfg))" ip_guard_drop ip_count
    "unat (vc_max_connections_per_ip cfg)" ql_counter "\<lambda>l. map snd (ql_tasks l)" "quic_listener_step cfg"
    quic_listener_start no_zero_entry for cfg
proof (unfold_locales, goal_cases)
  case (6 l e)
  show ?case
  proof (cases e)
    case (QuicIncoming b)
    then show ?thesis by (cases b) simp_all
  next
    case (QuicConnected i res)
    from 6 show ?thesis by (rule quic_connected_slots [of cfg i res l]) (use QuicConnected in auto)
  next
    case (QuicTaskDone i)
    then show ?thesis
      using slot_released [of "ql_tasks l" i _ "ql_counter l"] by (cases "map_of (ql_tasks l) i") (simp_all add: quic_task_done_def)
  qed simp
qed (auto simp: quic_listener_start_def fresh_table intro: ip_table_laws)

lemma validate_ip_cap: "validate P env c = Ok v \<Longrightarrow> 0 < unat (vc_max_connections_per_ip v)"
  by (erule validate_OkE, drule validate_server_Ok(4)) (simp add: unat_gt_0)

lemma slot_entry:
  assumes "n \<le> cap \<and> ip_count m ip = n \<and> no_zero_entry m"
  shows "n \<le> cap \<and> m ip = (if n = 0 then None else Some n)"
  using assms no_zero_table [of m ip] by auto

lemma spawned_ws_start: "spawn_ws_listener E cfg bind = Some l \<Longrightarrow> l = ws_listener_start"
  by (auto simp: spawn_ws_listener_def ws_listener_start_def split: sum.splits)

lemma spawned_quic_start: "spawn_quic_listener E ok cfg bind = Some l \<Longrightarrow> l = quic_listener_start"
  by (auto simp: spawn_quic_listener_def quic_listener_start_def split: sum.splits)

text \<open>C13. The per-IP caps of the three counting listeners, for a validated configuration: after every history
  of accepted connections, accept errors, QUIC handshakes, ended tasks and the shutdown signal, no
  address has more running session tasks than \<open>max_connections_per_ip\<close> allows, nor more QUIC tasks, nor
  (when its own limit is not 0) more WebSocket tasks; and the table of each listener has exactly the
  number of running tasks for an address that has one and no entry for any other.\<close>

theorem listeners_respect_ip_caps:
  assumes "validate url_parse env c = Ok cfg" and "0 < vc_ws_max_connections_per_ip cfg"
    and "spawn_ws_listener E cfg wbind = Some wl" and "spawn_quic_listener E ok cfg qbind = Some ql"
    and "t = foldl (tcp_listener_step cfg) tcp_listener_start tevs"
    and "w = foldl (ws_listener_step cfg) wl wevs" and "q = foldl (quic_listener_step cfg) ql qevs"
    and "nt = count_list (map snd (tl_tasks t)) ip" and "nw = count_list (map snd (wl_tasks w)) ip"
    and "nq = count_list (map snd (ql_tasks q)) ip"
  shows "(nt \<le> unat (vc_max_connections_per_ip cfg) \<and> tl_counter t ip = (if nt = 0 then None else Some nt)) \<and>
     (nw \<le> unat (vc_ws_max_connections_per_ip cfg) \<and> wl_counter w ip = (if nw = 0 then None else Some nw)) \<and>
     (nq \<le> unat (vc_max_connections_per_ip cfg) \<and> ql_counter q ip = (if nq = 0 then None else Some nq))"
proof (intro conjI [OF slot_entry conjI [OF slot_entry slot_entry]])
  note c = validate_ip_cap [OF assms(1)]
  show "nt \<le> unat (vc_max_connections_per_ip cfg) \<and> ip_count (tl_counter t) ip = nt \<and> no_zero_entry (tl_counter t)"
    using tcpl.cap_kept [OF c, of tevs ip] assms(5,8) by (simp add: tcpl.run_def)
  show "nq \<le> unat (vc_max_connections_per_ip cfg) \<and> ip_count (ql_counter q) ip = nq \<and> no_zero_entry (ql_counter q)"
    using quicl.cap_kept [OF c, of qevs ip] assms(7,10) spawned_quic_start [OF assms(4)] by (simp add: quicl.run_def)
  have "0 < unat (vc_ws_max_connections_per_ip cfg)" using assms(2) by (simp add: word_less_nat_alt)
  then show "nw \<le> unat (vc_ws_max_connections_per_ip cfg) \<and> ip_count (wl_counter w) ip = nw \<and> no_zero_entry (wl_counter w)"
    using wsl.cap_kept [of cfg wevs ip] assms(6,9) spawned_ws_start [OF assms(3)] by (simp add: wsl.run_def)
qed

definition demo_peer :: socket_addr where
  "demo_peer = \<lparr>addr_ip = IpV4 9, addr_port = 40000, addr_scope = 0\<rparr>"

definition demo_tls_env :: start_env where
  "demo_tls_env = \<lparr>se_metrics_ok = True, se_fs = (\<lambda>_. Some \<lparr>f_mode = oct600, f_data = [1], f_open = True\<rparr>),
     se_pem = demo_pem, se_bind = Ok (), se_rendered = []\<rparr>"

lemma demo_listeners_spawn:
  "spawn_ws_listener demo_tls_env cfg (Ok ()) = Some ws_listener_start"
  "spawn_quic_listener demo_tls_env (\<lambda>_. True) cfg (Ok ()) = Some quic_listener_start"
  by (simp_all add: spawn_ws_listener_def spawn_quic_listener_def build_acceptor_def build_endpoint_def build_server_config_def
      load_certs_def load_key_def fs_read_def demo_tls_env_def demo_pem_def and_then_def ws_listener_start_def quic_listener_start_def)

lemma validate_limits:
  "validate P env c = Ok v \<Longrightarrow> vc_max_connections_per_ip v = srv_max_connections_per_ip (server c) \<and>
     vc_ws_max_connections_per_ip v = ws_cfg_max_connections_per_ip (websocket c)"
  by (auto simp: validate_def)

lemma demo_limits: "vc_max_connections_per_ip demo_valid = 50" "vc_ws_max_connections_per_ip demo_valid = 100"
  using validate_limits [OF demo_validates] by (simp_all add: demo_config_def default_defs)

theorem listeners_respect_ip_caps_witness:
  "tl_counter (foldl (tcp_listener_step demo_valid) tcp_listener_start [Incoming (Ok demo_peer), Incoming (Err TimedOut),
     Incoming (Ok demo_peer), TaskDone 0]) (IpV4 9) = Some 1"
proof -
  let ?evs = "[Incoming (Ok demo_peer), Incoming (Err TimedOut), Incoming (Ok demo_peer), TaskDone 0]"
  let ?t = "foldl (tcp_listener_step demo_valid) tcp_listener_start ?evs"
  have n: "1 = count_list (map snd (tl_tasks ?t)) (IpV4 9)"
    by (simp add: demo_limits tcp_listener_start_def tcp_accept_def tcp_task_done_def conn_admit_def ip_count_def
        demo_peer_def Let_def)
  from listeners_respect_ip_caps [OF demo_validates _ demo_listeners_spawn refl refl refl n refl refl, of "[]" "[]"]
  show ?thesis by (simp add: demo_limits)
qed

section \<open>Shutdown\<close>

definition handles_cover :: "tcp_listener \<Rightarrow> bool" where
  "handles_cover l \<longleftrightarrow> distinct (map fst (tl_tasks l)) \<and>
     (\<forall>(i, ip) \<in> set (tl_tasks l). i < length (tl_handles l) \<and> tl_handles l ! i = ip)"

lemma distinct_fst_remove1: "distinct (map fst ts) \<Longrightarrow> distinct (map fst (remove1 x ts))"
  by (induction ts) (auto dest: set_mp [OF set_remove1_subset] intro: rev_image_eqI)

lemma handles_cover_step: "handles_cover l \<Longrightarrow> handles_cover (tcp_listener_step cfg l e)"
proof (cases e)
  case (Incoming res)
  assume "handles_cover l"
  with Incoming show ?thesis
    by (fastforce simp: handles_cover_def tcp_accept_def nth_append split: sum.splits prod.splits bool.splits)
next
  case (TaskDone i)
  assume "handles_cover l"
  with TaskDone show ?thesis
    by (auto simp: handles_cover_def tcp_task_done_def distinct_fst_remove1 dest: notin_set_remove1 split: option.splits
        dest!: set_mp [OF set_remove1_subset])
qed (simp add: handles_cover_def)

lemma tcp_step_handles:
  "prefix (tl_handles l) (tl_handles (tcp_listener_step cfg l e))"
  "\<not> tl_accepting l \<Longrightarrow> tl_handles (tcp_listener_step cfg l e) = tl_handles l \<and> \<not> tl_accepting (tcp_listener_step cfg l e)"
  by (cases e; auto simp: tcp_accept_def tcp_task_done_def split: sum.splits prod.splits bool.splits option.splits)+

lemma tcp_run_handles:
  "prefix (tl_handles l) (tl_handles (foldl (tcp_listener_step cfg) l es))"
  "handles_cover l \<Longrightarrow> handles_cover (foldl (tcp_listener_step cfg) l es)"
  "\<not> tl_accepting l \<Longrightarrow> tl_handles (foldl (tcp_listener_step cfg) l es) = tl_handles l"
proof -
  show "prefix (tl_handles l) (tl_handles (foldl (tcp_listener_step cfg) l es))"
    by (induction es arbitrary: l) (auto intro: prefix_order.trans [OF tcp_step_handles(1)])
  show "handles_cover (foldl (tcp_listener_step cfg) l es)" if "handles_cover l"
    using that by (induction es arbitrary: l) (auto intro: handles_cover_step)
  show "tl_handles (foldl (tcp_listener_step cfg) l es) = tl_handles l" if "\<not> tl_accepting l"
    using that tcp_step_handles(2) by (induction es arbitrary: l) auto
qed

text \<open>C36. Shutdown of the main (TCP) loop: once it has seen the signal it accepts no connection any more, whatever
  arrives later; the handles that the drain phase awaits are those of all the connections this loop has ever admitted, in their
  order, so they include each of its session tasks that is still running, under its own handle; and a handle
  is never removed before that, also when its session is long over. The session tasks of the WebSocket listener have no handle
  there and are not awaited.\<close>

theorem drain_awaits_tcp_sessions:
  assumes "l = foldl (tcp_listener_step cfg) tcp_listener_start (before @ ShutdownSeen # later)"
    and "l0 = foldl (tcp_listener_step cfg) tcp_listener_start before"
  shows "tl_handles l = tl_handles l0 \<and> distinct (map fst (tl_tasks l)) \<and>
     (\<forall>(i, ip) \<in> set (tl_tasks l). i < length (tl_handles l) \<and> tl_handles l ! i = ip) \<and>
     (\<forall>early rest. before = early @ rest \<longrightarrow>
        prefix (tl_handles (foldl (tcp_listener_step cfg) tcp_listener_start early)) (tl_handles l))"
proof -
  have h: "tl_handles l = tl_handles l0"
    using tcp_run_handles(3) [of "l0\<lparr>tl_accepting := False\<rparr>" cfg later] assms by simp
  have "handles_cover tcp_listener_start" by (simp add: handles_cover_def tcp_listener_start_def)
  then have "handles_cover l" unfolding assms(1) by (rule tcp_run_handles(2))
  moreover have "prefix (tl_handles (foldl (tcp_listener_step cfg) tcp_listener_start early)) (tl_handles l)"
    if "before = early @ rest" for early rest
    using tcp_run_handles(1) [of "foldl (tcp_listener_step cfg) tcp_listener_start early" cfg rest] that h assms(2) by simp
  ultimately show ?thesis using h by (simp add: handles_cover_def)
qed

theorem drain_awaits_tcp_sessions_witness:
  "tl_handles (foldl (tcp_listener_step demo_valid) tcp_listener_start
     ([Incoming (Ok demo_peer), TaskDone 0, Incoming (Ok demo_peer)] @ ShutdownSeen # [Incoming (Ok demo_peer)])) = [IpV4 9, IpV4 9]"
proof -
  let ?l0 = "foldl (tcp_listener_step demo_valid) tcp_listener_start [Incoming (Ok demo_peer), TaskDone 0, Incoming (Ok demo_peer)]"
  have "tl_handles ?l0 = [IpV4 9, IpV4 9]"
    by (simp add: demo_limits tcp_listener_start_def tcp_accept_def tcp_task_done_def conn_admit_def ip_count_def
        ip_guard_drop_def demo_peer_def Let_def)
  with drain_awaits_tcp_sessions [OF refl refl, of demo_valid "[Incoming (Ok demo_peer), TaskDone 0, Incoming (Ok demo_peer)]"
      "[Incoming (Ok demo_peer)]"]
  show ?thesis by simp
qed

section \<open>Limits\<close>

text \<open>Nothing was ever served, and the addresses \<open>P\<close> have an entry.\<close>

definition nothing_served :: "ip_addr set \<Rightarrow> ws_listener \<Rightarrow> bool" where
  "nothing_served P l \<longleftrightarrow> wl_spawned l = 0 \<and> wl_tasks l = [] \<and> (\<forall>ip. wl_counter l ip \<in> {None, Some 0}) \<and>
     (\<forall>ip \<in> P. wl_counter l ip = Some 0)"

lemma cap_zero_accept:
  assumes "vc_ws_max_connections_per_ip cfg = 0" "nothing_served P l"
  shows "ws_accept cfg (Ok p) l = l\<lparr>wl_counter := (wl_counter l)(addr_ip p \<mapsto> 0)\<rparr>"
proof -
  have "wl_counter l (addr_ip p) \<in> {None, Some 0}" using assms(2) unfolding nothing_served_def by blast
  then have "ip_count (wl_counter l) (addr_ip p) = 0" by (auto simp: ip_count_def)
  with assms(1) show ?thesis by (simp add: ws_accept_def conn_admit_def Let_def)
qed

lemma cap_zero_step:
  assumes "vc_ws_max_connections_per_ip cfg = 0" "nothing_served P l"
  shows "nothing_served P (ws_listener_step cfg l e)"
proof (cases e)
  case (Incoming res)
  show ?thesis
  proof (cases res)
    case (Inl x)
    with Incoming assms(2) show ?thesis by (simp add: ws_accept_def)
  next
    case (Inr p)
    with Incoming assms(2) cap_zero_accept [OF assms, of p] show ?thesis by (simp add: nothing_served_def)
  qed
qed (use assms(2) in \<open>simp_all add: nothing_served_def ws_task_done_def\<close>)

lemma cap_zero_run:
  assumes "vc_ws_max_connections_per_ip cfg = 0" "nothing_served P l"
  shows "nothing_served P (foldl (ws_listener_step cfg) l es)"
  using assms(2)
proof (induction es arbitrary: l)
  case (Cons e es)
  from Cons.IH [OF cap_zero_step [OF assms(1) Cons.prems]] show ?case by simp
qed simp

lemma cap_zero_incoming:
  assumes "vc_ws_max_connections_per_ip cfg = 0" "nothing_served P l" "wl_accepting l"
  shows "nothing_served (P \<union> addr_ip ` set ps) (foldl (ws_listener_step cfg) l (map (\<lambda>p. Incoming (Ok p)) ps))"
  using assms(2,3)
proof (induction ps arbitrary: P l)
  case (Cons p ps)
  let ?l = "ws_listener_step cfg l (Incoming (Ok p))"
  have "?l = l\<lparr>wl_counter := (wl_counter l)(addr_ip p \<mapsto> 0)\<rparr>"
    using Cons.prems cap_zero_accept [OF assms(1), of P l p] by simp
  with Cons.prems have "nothing_served (insert (addr_ip p) P) ?l" "wl_accepting ?l" by (auto simp: nothing_served_def)
  from Cons.IH [OF this] show ?case by simp
qed simp

text \<open>A WebSocket limit of 0, which validation accepts: no connection is ever served, and the table
  keeps an entry for every address that has tried while the listener was accepting.\<close>

theorem ws_cap_zero_refuses_all:
  assumes "vc_ws_max_connections_per_ip cfg = 0" and "spawn_ws_listener E cfg bind = Some l"
    and "l' = foldl (ws_listener_step cfg) l (map (\<lambda>p. Incoming (Ok p)) peers @ evs)"
  shows "wl_spawned l' = 0 \<and> wl_tasks l' = [] \<and> (\<forall>p \<in> set peers. wl_counter l' (addr_ip p) = Some 0)"
proof -
  have "nothing_served {} l" "wl_accepting l"
    using spawned_ws_start [OF assms(2)] by (simp_all add: ws_listener_start_def nothing_served_def)
  from cap_zero_run [OF assms(1) cap_zero_incoming [OF assms(1) this, of peers], of evs]
  show ?thesis unfolding assms(3) foldl_append by (simp add: nothing_served_def)
qed

theorem ws_cap_zero_refuses_all_witness:
  "wl_counter (foldl (ws_listener_step (demo_valid\<lparr>vc_ws_max_connections_per_ip := 0\<rparr>)) ws_listener_start
     [Incoming (Ok demo_peer), TaskDone 0]) (IpV4 9) = Some 0"
  using ws_cap_zero_refuses_all [OF _ demo_listeners_spawn(1) refl, of "demo_valid\<lparr>vc_ws_max_connections_per_ip := 0\<rparr>"
      "[demo_peer]" "[TaskDone 0]"] by (simp add: demo_peer_def)

lemma admin_listener_run:
  "al_served (foldl (admin_listener_step cfg) l (map (\<lambda>t. AdminIncoming (Ok t)) ts)) =
     al_served l @ (if al_accepting l then rate_run (vc_admin_rate_limit_per_second cfg) (al_window l) ts else [])"
  by (induction ts arbitrary: l) (auto split: prod.splits)

text \<open>C27. The admin listener as a whole serves at most twice \<open>rate_limit_per_second\<close> connections in any
  second, wherever the second begins, whatever the accept times are (fewer than \<open>2 ^ 32\<close> of them, so
  that the counter does not wrap), and none after it has seen the shutdown signal.\<close>

theorem admin_listener_rate_limit:
  assumes "spawn_admin_listener bind start = Some l" and "sorted (start # ts)" and "length ts < 2 ^ 32"
    and "l' = foldl (admin_listener_step cfg) l
       (map (\<lambda>t. AdminIncoming (Ok t)) ts @ AdminShutdown # map (\<lambda>t. AdminIncoming (Ok t)) late)"
  shows "length (filter (in_second a) (al_served l')) \<le> 2 * unat (vc_admin_rate_limit_per_second cfg) \<and>
     set (al_served l') \<subseteq> set ts"
proof -
  let ?w = "\<lparr>window_start = start, window_count = 0\<rparr>"
  have "al_served l' = rate_run (vc_admin_rate_limit_per_second cfg) ?w ts"
    using assms(1,4) by (auto simp: admin_listener_run spawn_admin_listener_def split: sum.splits)
  then show ?thesis
    using rate_run_bound [OF assms(2), of ?w a "vc_admin_rate_limit_per_second cfg"] assms(3)
      rate_run_subset [of "vc_admin_rate_limit_per_second cfg" ?w ts] by (auto split: if_splits)
qed

theorem admin_listener_rate_limit_witness:
  "\<exists>l. spawn_admin_listener (Ok ()) 0 = Some l \<and>
     (let l' = foldl (admin_listener_step (demo_valid\<lparr>vc_admin_rate_limit_per_second := 2\<rparr>)) l
        (map (\<lambda>t. AdminIncoming (Ok t)) [1, 2, 3] @ AdminShutdown # map (\<lambda>t. AdminIncoming (Ok t)) [5])
      in length (filter (in_second 0) (al_served l')) \<le> 4 \<and> set (al_served l') \<subseteq> {1, 2, 3})"
proof -
  obtain l where l: "spawn_admin_listener (Ok ()) 0 = Some l" by (simp add: spawn_admin_listener_def)
  from admin_listener_rate_limit [OF l _ _ refl, of "[1, 2, 3]" 0 "demo_valid\<lparr>vc_admin_rate_limit_per_second := 2\<rparr>" "[5]"]
  show ?thesis using l unfolding Let_def by (intro exI [of _ l]) (simp del: foldl_append foldl_Cons)
qed

end
