(* ===== verification/Bridge_Run.thy ===== *)
theory Bridge_Run
  imports Listeners Session_Props
begin

text \<open>
  The running bridge: its accept loops, the connection tasks of the TCP and the WebSocket listener in
  every interleaving, and what they share, namely the metrics, the channel that announces key rotations
  and the shutdown signal (\<open>run\<close> in \<open>latticeshield-bridge/src/server.rs\<close>, \<open>session.rs\<close>).

  A connection task goes through the phases of \<open>handle_with_handshake_timeout\<close>; a turn of its relay
  loop is \<open>session_step\<close> on the shared metrics. The rotation channel is a \<open>watch\<close> channel: its version
  grows with every \<open>send_modify\<close>, a receiver remembers the version it has seen, and \<open>changed()\<close> is ready
  exactly when the two differ. Every session holds the sender in its context, so \<open>changed()\<close> never
  reports a closed channel.
\<close>

section \<open>State\<close>

datatype origin = Tcp nat | Ws nat

record relay_task =
  rt_session :: session
  rt_seen :: nat \<comment> \<open>the version that \<open>rotate_rx\<close> has seen\<close>

datatype conn_phase =
    Handshaking
  | Connecting session_key bytes writer \<comment> \<open>handshake complete, guards taken, backend being connected\<close>
  | InRelay relay_task

record running_bridge =
  rb_tcp :: tcp_listener
  rb_ws :: "ws_listener option"
  rb_phases :: "origin \<Rightarrow> conn_phase option"
  rb_metrics :: bridge_metrics
  rb_version :: nat \<comment> \<open>version of the rotation channel\<close>
  rb_count :: u64 \<comment> \<open>its value\<close>
  rb_signalled :: bool \<comment> \<open>the shutdown channel has been written\<close>

definition running_start :: "ws_listener option \<Rightarrow> running_bridge" where
  "running_start ws = \<lparr>rb_tcp = tcp_listener_start, rb_ws = ws, rb_phases = \<lambda>_. None, rb_metrics = metrics_init,
     rb_version = 0, rb_count = 0, rb_signalled = False\<rparr>"

datatype 'r run_event =
    TcpIncoming "io_error + socket_addr"
  | WsIncoming "io_error + socket_addr"
  | TcpSeesShutdown
  | WsSeesShutdown
  | BeginTcp nat
  | BeginWs nat "string option" \<comment> \<open>the upgrade request with its origin header\<close>
  | HandshakeDone origin bytes writer 'r
  | BackendUp origin writer
  | Turn origin session_event
  | Abandon origin \<comment> \<open>the task returns before its relay loop\<close>
  | CloudCommand bridge_command
  | AdminRotate
  | Signal

fun has_task :: "running_bridge \<Rightarrow> origin \<Rightarrow> bool" where
  "has_task s (Tcp i) \<longleftrightarrow> i \<in> fst ` set (tl_tasks (rb_tcp s))"
| "has_task s (Ws i) \<longleftrightarrow> (case rb_ws s of None \<Rightarrow> False | Some l \<Rightarrow> i \<in> fst ` set (wl_tasks l))"

section \<open>Steps\<close>

definition set_phase :: "origin \<Rightarrow> conn_phase \<Rightarrow> running_bridge \<Rightarrow> running_bridge" where
  "set_phase p ph s = s\<lparr>rb_phases := (rb_phases s)(p \<mapsto> ph)\<rparr>"

text \<open>The end of a connection task: its slot in the table of its listener is given back.\<close>

definition end_task :: "valid_config \<Rightarrow> origin \<Rightarrow> running_bridge \<Rightarrow> running_bridge" where
  "end_task cfg p s =
    (let s1 = s\<lparr>rb_phases := (rb_phases s)(p := None)\<rparr>
     in case p of
          Tcp i \<Rightarrow> s1\<lparr>rb_tcp := tcp_listener_step cfg (rb_tcp s) (TaskDone i)\<rparr>
        | Ws i \<Rightarrow> s1\<lparr>rb_ws := map_option (\<lambda>l. ws_listener_step cfg l (TaskDone i)) (rb_ws s)\<rparr>)"

text \<open>The first line of the session handler counts the connection.\<close>

definition begin_task :: "origin \<Rightarrow> running_bridge \<Rightarrow> running_bridge option" where
  "begin_task p s = (if has_task s p \<and> rb_phases s p = None
     then Some (set_phase p Handshaking (s\<lparr>rb_metrics := count_connection (rb_metrics s)\<rparr>)) else None)"

text \<open>The rotation branch of \<open>select!\<close> is ready only when the version has changed.\<close>

fun arm_ready :: "nat \<Rightarrow> nat \<Rightarrow> select_arm \<Rightarrow> bool" where
  "arm_ready version seen (RotateSignal ok k) \<longleftrightarrow> ok \<and> seen \<noteq> version"
| "arm_ready version seen _ \<longleftrightarrow> True"

fun seen_after :: "nat \<Rightarrow> nat \<Rightarrow> select_arm \<Rightarrow> nat" where
  "seen_after version seen (RotateSignal ok k) = version"
| "seen_after version seen _ = seen"

definition relay_turn ::
  "sym_prims \<Rightarrow> valid_config \<Rightarrow> origin \<Rightarrow> session_event \<Rightarrow> relay_task \<Rightarrow> running_bridge \<Rightarrow> running_bridge option" where
  "relay_turn S cfg p ev t s =
    (let st = (rt_session t)\<lparr>ss_metrics := rb_metrics s\<rparr>
     in if event_ok S cfg st ev \<and> arm_ready (rb_version s) (rt_seen t) (ev_arm ev)
        then Some (case session_step S cfg st ev of
            (Running, st') \<Rightarrow>
              set_phase p (InRelay \<lparr>rt_session = st', rt_seen = seen_after (rb_version s) (rt_seen t) (ev_arm ev)\<rparr>)
                (s\<lparr>rb_metrics := ss_metrics st'\<rparr>)
          | (_, st') \<Rightarrow> end_task cfg p (s\<lparr>rb_metrics := leave_session (ss_metrics st')\<rparr>))
        else None)"

text \<open>One step; \<open>None\<close> when the event cannot happen in the state.\<close>

fun run_step ::
  "sym_prims \<Rightarrow> sig_prims \<Rightarrow> ('r, 'x, 'dk, 'ek) kex_prims \<Rightarrow> (string \<Rightarrow> url option) \<Rightarrow> bridge \<Rightarrow> valid_config \<Rightarrow>
   running_bridge \<Rightarrow> 'r run_event \<Rightarrow> running_bridge option" where
  "run_step S G K P b cfg s (TcpIncoming res) = Some (s\<lparr>rb_tcp := tcp_listener_step cfg (rb_tcp s) (Incoming res)\<rparr>)"
| "run_step S G K P b cfg s (WsIncoming res) =
     Some (s\<lparr>rb_ws := map_option (\<lambda>l. ws_listener_step cfg l (Incoming res)) (rb_ws s)\<rparr>)"
| "run_step S G K P b cfg s TcpSeesShutdown = (if rb_signalled s
     then Some (s\<lparr>rb_tcp := tcp_listener_step cfg (rb_tcp s) ShutdownSeen\<rparr>) else None)"
| "run_step S G K P b cfg s WsSeesShutdown = (if rb_signalled s
     then Some (s\<lparr>rb_ws := map_option (\<lambda>l. ws_listener_step cfg l ShutdownSeen) (rb_ws s)\<rparr>) else None)"
| "run_step S G K P b cfg s (BeginTcp i) = begin_task (Tcp i) s"
| "run_step S G K P b cfg s (BeginWs i org) = (if on_request P (vc_ws_allowed_origins cfg) org
     then begin_task (Ws i) s else None)"
| "run_step S G K P b cfg s (HandshakeDone p client_in client_w r) = (case rb_phases s p of
      Some Handshaking \<Rightarrow> (case handshake_phase S G K (session_context_of b) client_in client_w r of
          (Ok key, client_in', client_w', _) \<Rightarrow>
             Some (set_phase p (Connecting key client_in' client_w')
               (s\<lparr>rb_metrics := enter_session (count_handshake (rb_metrics s))\<rparr>))
        | _ \<Rightarrow> None)
    | _ \<Rightarrow> None)"
| "run_step S G K P b cfg s (BackendUp p backend_w) = (case rb_phases s p of
      Some (Connecting key client_in client_w) \<Rightarrow>
        Some (set_phase p (InRelay \<lparr>rt_session = \<lparr>ss_channel = channel_new (key_as_bytes key) (vc_max_frame_size cfg),
             ss_client_in = client_in, ss_client_w = client_w, ss_backend_w = backend_w, ss_bytes_this_epoch = 0,
             ss_metrics = rb_metrics s\<rparr>, rt_seen = rb_version s\<rparr>) s)
    | _ \<Rightarrow> None)"
| "run_step S G K P b cfg s (Turn p ev) = (case rb_phases s p of
      Some (InRelay t) \<Rightarrow> relay_turn S cfg p ev t s | _ \<Rightarrow> None)"
| "run_step S G K P b cfg s (Abandon p) = (case rb_phases s p of
      Some Handshaking \<Rightarrow> Some (end_task cfg p s)
    | Some (Connecting _ _ _) \<Rightarrow> Some (end_task cfg p (s\<lparr>rb_metrics := leave_session (rb_metrics s)\<rparr>))
    | Some (InRelay _) \<Rightarrow> None
    | None \<Rightarrow> (case p of Tcp _ \<Rightarrow> None | Ws _ \<Rightarrow> if has_task s p then Some (end_task cfg p s) else None))"
| "run_step S G K P b cfg s (CloudCommand c) = (case bridge_command_step c (rb_count s, bm_state (rb_metrics s)) of
      (count, m) \<Rightarrow> Some (s\<lparr>rb_count := count, rb_metrics := (rb_metrics s)\<lparr>bm_state := m\<rparr>,
         rb_version := (if c = Rotate_Cmd then Suc (rb_version s) else rb_version s)\<rparr>))"
| "run_step S G K P b cfg s AdminRotate = (case br_admin b of
      None \<Rightarrow> None
    | Some svc \<Rightarrow> (case handle_rotate (svc\<lparr>as_rotate := rb_count s, as_metrics := bm_state (rb_metrics s)\<rparr>) of
        (_, svc') \<Rightarrow> Some (s\<lparr>rb_count := as_rotate svc', rb_version := Suc (rb_version s)\<rparr>)))"
| "run_step S G K P b cfg s Signal = Some (s\<lparr>rb_signalled := True\<rparr>)"

inductive run_reach ::
  "sym_prims \<Rightarrow> sig_prims \<Rightarrow> ('r, 'x, 'dk, 'ek) kex_prims \<Rightarrow> (string \<Rightarrow> url option) \<Rightarrow> bridge \<Rightarrow> valid_config \<Rightarrow>
   running_bridge \<Rightarrow> running_bridge \<Rightarrow> bool" for S G K P b cfg s0 where
  begun: "run_reach S G K P b cfg s0 s0"
| stepped: "run_reach S G K P b cfg s0 s \<Longrightarrow> run_step S G K P b cfg s ev = Some s' \<Longrightarrow> run_reach S G K P b cfg s0 s'"

section \<open>Tasks\<close>

definition phases_have_tasks :: "running_bridge \<Rightarrow> bool" where
  "phases_have_tasks s \<longleftrightarrow> (\<forall>p. rb_phases s p \<noteq> None \<longrightarrow> has_task s p)"

lemma in_remove1_other: "j \<noteq> i \<Longrightarrow> j \<in> fst ` set ts \<Longrightarrow> j \<in> fst ` set (remove1 (i, x) ts)"
  by (induction ts) auto

lemma tcp_task_kept:
  "e \<noteq> TaskDone i \<Longrightarrow> i \<in> fst ` set (tl_tasks l) \<Longrightarrow> i \<in> fst ` set (tl_tasks (tcp_listener_step cfg l e))"
  by (cases e) (auto simp: tcp_accept_def tcp_task_done_def in_remove1_other split: sum.splits prod.splits bool.splits option.splits)

lemma ws_task_kept:
  "e \<noteq> TaskDone i \<Longrightarrow> i \<in> fst ` set (wl_tasks l) \<Longrightarrow> i \<in> fst ` set (wl_tasks (ws_listener_step cfg l e))"
  by (cases e) (auto simp: ws_accept_def ws_task_done_def in_remove1_other split: sum.splits prod.splits bool.splits option.splits)

lemma has_task_set_phase [simp]: "has_task (set_phase p ph s) q = has_task s q"
  by (cases q) (simp_all add: set_phase_def)

lemma has_task_update [simp]:
  "has_task (s\<lparr>rb_metrics := m\<rparr>) q = has_task s q" "has_task (s\<lparr>rb_version := v\<rparr>) q = has_task s q"
  "has_task (s\<lparr>rb_count := c\<rparr>) q = has_task s q" "has_task (s\<lparr>rb_signalled := g\<rparr>) q = has_task s q"
  by (cases q; simp)+

lemma end_task_simps [simp]:
  "rb_phases (end_task cfg p s) = (rb_phases s)(p := None)" "rb_metrics (end_task cfg p s) = rb_metrics s"
  "rb_version (end_task cfg p s) = rb_version s"
  by (simp_all add: end_task_def Let_def split: origin.splits)

lemma set_phase_simps [simp]:
  "rb_phases (set_phase p ph s) = (rb_phases s)(p \<mapsto> ph)" "rb_metrics (set_phase p ph s) = rb_metrics s"
  "rb_version (set_phase p ph s) = rb_version s"
  by (simp_all add: set_phase_def)

lemma has_task_end: "q \<noteq> p \<Longrightarrow> has_task s q \<Longrightarrow> has_task (end_task cfg p s) q"
  by (cases p; cases q)
    (auto simp: end_task_def Let_def tcp_task_done_def ws_task_done_def in_remove1_other split: option.splits)

lemma phases_have_tasks_end: "phases_have_tasks s \<Longrightarrow> phases_have_tasks (end_task cfg p s)"
  by (auto simp: phases_have_tasks_def has_task_end)

lemma phases_have_tasks_begin: "phases_have_tasks s \<Longrightarrow> begin_task p s = Some s' \<Longrightarrow> phases_have_tasks s'"
  by (auto simp: begin_task_def phases_have_tasks_def split: if_splits)

lemma phases_have_tasks_step:
  assumes "phases_have_tasks s" "run_step S G K P b cfg s ev = Some s'"
  shows "phases_have_tasks s'"
proof (cases ev)
  case (TcpIncoming res)
  have "has_task s' q" if "has_task s q" for q
    using that assms(2) [symmetric] TcpIncoming tcp_task_kept [of "Incoming res" _ "rb_tcp s" cfg] by (cases q) simp_all
  with assms TcpIncoming show ?thesis by (auto simp: phases_have_tasks_def)
next
  case (WsIncoming res)
  have "has_task s' q" if "has_task s q" for q
    using that assms(2) [symmetric] WsIncoming ws_task_kept [of "Incoming res" _ _ cfg] by (cases q; cases "rb_ws s") simp_all
  with assms WsIncoming show ?thesis by (auto simp: phases_have_tasks_def)
next
  case TcpSeesShutdown
  have "has_task s' q" if "has_task s q" for q
    using that assms(2) TcpSeesShutdown by (cases q) (auto split: if_splits)
  with assms TcpSeesShutdown show ?thesis by (auto simp: phases_have_tasks_def split: if_splits)
next
  case WsSeesShutdown
  then have "s' = s\<lparr>rb_ws := map_option (\<lambda>l. ws_listener_step cfg l ShutdownSeen) (rb_ws s)\<rparr>"
    using assms(2) by (simp split: if_splits)
  then have "has_task s' q" if "has_task s q" for q using that by (cases q; cases "rb_ws s") simp_all
  with assms WsSeesShutdown show ?thesis by (auto simp: phases_have_tasks_def split: if_splits)
next
  case (Turn p ev)
  with assms obtain t where "rb_phases s p = Some (InRelay t)" "relay_turn S cfg p ev t s = Some s'"
    by (auto split: option.splits conn_phase.splits)
  with assms(1) show ?thesis
    by (auto simp: relay_turn_def Let_def phases_have_tasks_def has_task_end split: if_splits prod.splits loop_status.splits)
next
  case (BeginTcp i)
  with assms phases_have_tasks_begin [of s "Tcp i"] show ?thesis by simp
next
  case (BeginWs i org)
  with assms phases_have_tasks_begin [of s "Ws i"] show ?thesis by (simp split: if_splits)
qed (use assms in \<open>auto simp: phases_have_tasks_def has_task_end
    split: if_splits option.splits conn_phase.splits prod.splits sum.splits origin.splits\<close>)

section \<open>The gauge of active connections\<close>

fun active_phase :: "conn_phase option \<Rightarrow> bool" where
  "active_phase (Some (Connecting _ _ _)) \<longleftrightarrow> True"
| "active_phase (Some (InRelay _)) \<longleftrightarrow> True"
| "active_phase _ \<longleftrightarrow> False"

definition active_sessions :: "running_bridge \<Rightarrow> origin set" where
  "active_sessions s = {p. active_phase (rb_phases s p)}"

definition all_tasks :: "running_bridge \<Rightarrow> origin list" where
  "all_tasks s = map (Tcp \<circ> fst) (tl_tasks (rb_tcp s)) @ (case rb_ws s of None \<Rightarrow> [] | Some l \<Rightarrow> map (Ws \<circ> fst) (wl_tasks l))"

definition gauge :: "nat \<Rightarrow> bridge_metrics \<Rightarrow> bool" where
  "gauge n m \<longleftrightarrow> prom_connections_active (bm_prom m) = int n \<and> connections_active (bm_state m) = word_of_nat n"

lemma gauge_simps [simp]:
  "gauge n (count_connection m) = gauge n m" "gauge n (count_handshake m) = gauge n m"
  by (simp_all add: gauge_def metric_defs)

lemma gauge_enter: "gauge n m \<Longrightarrow> gauge (Suc n) (enter_session m)"
  by (simp add: gauge_def metric_defs add.commute)

lemma gauge_leave: "gauge n m \<Longrightarrow> 0 < n \<Longrightarrow> gauge (n - 1) (leave_session m)"
  by (cases n) (simp_all add: gauge_def metric_defs)

lemma gauge_session_step:
  assumes "session_step S cfg st ev = (x, st')"
  shows "gauge n (ss_metrics st') = gauge n (ss_metrics st)"
proof -
  have "session_run S cfg st [ev] = (x, st')" using assms by (auto split: loop_status.splits)
  from session_run_active [OF this] show ?thesis by (simp add: gauge_def)
qed

lemma gauge_command: "bridge_command_step c (k, bm_state m) = (k', ms) \<Longrightarrow> gauge n (m\<lparr>bm_state := ms\<rparr>) = gauge n m"
  by (cases c) (auto simp: gauge_def)

lemma active_tasks: "phases_have_tasks s \<Longrightarrow> active_sessions s \<subseteq> set (all_tasks s)"
proof
  fix p assume s: "phases_have_tasks s" and "p \<in> active_sessions s"
  then have "rb_phases s p \<noteq> None" by (cases "rb_phases s p") (simp_all add: active_sessions_def)
  with s have "has_task s p" by (simp add: phases_have_tasks_def)
  then show "p \<in> set (all_tasks s)" by (cases p) (auto simp: all_tasks_def split: option.splits)
qed

lemma finite_active: "phases_have_tasks s \<Longrightarrow> finite (active_sessions s)"
  using active_tasks finite_subset by blast

definition gauge_inv :: "running_bridge \<Rightarrow> bool" where
  "gauge_inv s \<longleftrightarrow> phases_have_tasks s \<and> gauge (card (active_sessions s)) (rb_metrics s)"

lemma active_after:
  "active_sessions (set_phase p ph s) =
     (if active_phase (Some ph) then insert p (active_sessions s) else active_sessions s - {p})"
  "active_sessions (end_task cfg p s) = active_sessions s - {p}"
  "active_sessions (s\<lparr>rb_metrics := m\<rparr>) = active_sessions s"
  by (auto simp: active_sessions_def split: if_splits)

lemma begin_task_active:
  assumes "begin_task p s = Some s'"
  shows "active_sessions s' = active_sessions s" "gauge n (rb_metrics s') = gauge n (rb_metrics s)"
  using assms by (auto simp: begin_task_def active_after) (auto simp: active_sessions_def split: if_splits)

lemma gauge_inv_step:
  assumes "gauge_inv s" "run_step S G K P b cfg s ev = Some s'"
  shows "gauge_inv s'"
proof -
  have t: "phases_have_tasks s" and g: "gauge (card (active_sessions s)) (rb_metrics s)"
    using assms(1) by (auto simp: gauge_inv_def)
  note fin = finite_active [OF t]
  have pos: "0 < card (active_sessions s)" if "p \<in> active_sessions s" for p using that fin by (auto simp: card_gt_0_iff)
  have "gauge (card (active_sessions s')) (rb_metrics s')"
  proof (cases ev)
    case (BeginTcp i)
    with assms(2) g begin_task_active [of "Tcp i" s s'] show ?thesis by simp
  next
    case (BeginWs i org)
    with assms(2) g begin_task_active [of "Ws i" s s'] show ?thesis by (simp split: if_splits)
  next
    case (HandshakeDone p cin w r)
    with assms(2) obtain key cin' w' where p: "rb_phases s p = Some Handshaking" and
      s': "s' = set_phase p (Connecting key cin' w') (s\<lparr>rb_metrics := enter_session (count_handshake (rb_metrics s))\<rparr>)"
      by (auto split: option.splits conn_phase.splits prod.splits sum.splits)
    have "p \<notin> active_sessions s" using p by (simp add: active_sessions_def)
    with s' fin g show ?thesis by (simp add: active_after gauge_enter)
  next
    case (BackendUp p bw)
    with assms(2) obtain k i w t where p: "rb_phases s p = Some (Connecting k i w)" and s': "s' = set_phase p (InRelay t) s"
      by (auto split: option.splits conn_phase.splits)
    have "p \<in> active_sessions s" using p by (simp add: active_sessions_def)
    with s' g show ?thesis by (simp add: active_after insert_absorb)
  next
    case (Turn p ev)
    with assms(2) obtain t where p: "rb_phases s p = Some (InRelay t)" and r: "relay_turn S cfg p ev t s = Some s'"
      by (auto split: option.splits conn_phase.splits)
    have a: "p \<in> active_sessions s" using p by (simp add: active_sessions_def)
    obtain x st' where step: "session_step S cfg ((rt_session t)\<lparr>ss_metrics := rb_metrics s\<rparr>) ev = (x, st')" by fastforce
    from gauge_session_step [OF this] g have g': "gauge (card (active_sessions s)) (ss_metrics st')" by simp
    show ?thesis
    proof (cases "x = Running")
      case True
      with r step have "\<exists>t'. s' = set_phase p (InRelay t') (s\<lparr>rb_metrics := ss_metrics st'\<rparr>)"
        by (auto simp: relay_turn_def Let_def split: if_splits)
      with a g' show ?thesis by (auto simp: active_after insert_absorb)
    next
      case False
      with r step have "s' = end_task cfg p (s\<lparr>rb_metrics := leave_session (ss_metrics st')\<rparr>)"
        by (auto simp: relay_turn_def Let_def split: if_splits loop_status.splits)
      with gauge_leave [OF g' pos [OF a]] a fin show ?thesis by (simp add: active_after)
    qed
  next
    case (Abandon p)
    show ?thesis
    proof (cases "p \<in> active_sessions s")
      case True
      with Abandon assms(2) have "s' = end_task cfg p (s\<lparr>rb_metrics := leave_session (rb_metrics s)\<rparr>)"
        by (auto simp: active_sessions_def split: option.splits conn_phase.splits)
      with gauge_leave [OF g pos [OF True]] True fin show ?thesis by (simp add: active_after)
    next
      case False
      with Abandon assms(2) have "s' = end_task cfg p s"
        by (auto simp: active_sessions_def split: option.splits conn_phase.splits origin.splits if_splits)
      with g False show ?thesis by (simp add: active_after)
    qed
  next
    case (CloudCommand c)
    with assms(2) g gauge_command [of c "rb_count s" "rb_metrics s"] show ?thesis
      by (auto simp: active_sessions_def split: prod.splits)
  qed (use assms(2) g in \<open>auto simp: active_sessions_def handle_rotate_def split: if_splits option.splits\<close>)
  with phases_have_tasks_step [OF t assms(2)] show ?thesis by (simp add: gauge_inv_def)
qed

lemma gauge_inv_reach:
  assumes "run_reach S G K P b cfg (running_start ws) s"
  shows "gauge_inv s"
  using assms
proof (induction rule: run_reach.induct)
  case begun
  show ?case by (simp add: gauge_inv_def phases_have_tasks_def running_start_def active_sessions_def gauge_def
        metrics_init_def metrics_state_new_def prometheus_new_def)
next
  case (stepped s ev s')
  then show ?case by (blast intro: gauge_inv_step)
qed

section \<open>Rotation commands\<close>

text \<open>A relay task has seen at most the current version, and its channel holds a 32-byte key.\<close>

fun phase_ok :: "nat \<Rightarrow> conn_phase \<Rightarrow> bool" where
  "phase_ok v Handshaking \<longleftrightarrow> True"
| "phase_ok v (Connecting key i w) \<longleftrightarrow> length (key_as_bytes key) = 32"
| "phase_ok v (InRelay t) \<longleftrightarrow> rt_seen t \<le> v \<and> channel_wf (ss_channel (rt_session t))"

definition relays_ok :: "running_bridge \<Rightarrow> bool" where
  "relays_ok s \<longleftrightarrow> (\<forall>p ph. rb_phases s p = Some ph \<longrightarrow> phase_ok (rb_version s) ph)"

lemma relays_okD: "relays_ok s \<Longrightarrow> rb_phases s p = Some ph \<Longrightarrow> phase_ok (rb_version s) ph"
  by (simp add: relays_ok_def)

lemma relays_ok_set: "relays_ok s \<Longrightarrow> phase_ok (rb_version s) ph \<Longrightarrow> relays_ok (set_phase p ph s)"
  by (simp add: relays_ok_def)

lemma relays_ok_end: "relays_ok s \<Longrightarrow> relays_ok (end_task cfg p s)"
  by (simp add: relays_ok_def)

lemma relays_ok_metrics [simp]: "relays_ok (s\<lparr>rb_metrics := m\<rparr>) = relays_ok s"
  by (simp add: relays_ok_def)

lemma relays_ok_later: "relays_ok s \<Longrightarrow> rb_phases s' = rb_phases s \<Longrightarrow> rb_version s \<le> rb_version s' \<Longrightarrow> relays_ok s'"
  unfolding relays_ok_def by (metis phase_ok.elims(3) phase_ok.simps(2,3) le_trans)

lemma derived_key_length: "hkdf_laws S \<Longrightarrow> derive_session_key S a b n = Ok key \<Longrightarrow> length (key_as_bytes key) = 32"
  by (metis derive_session_key_ok sum.inject(2))

lemma handshake_phase_key:
  assumes "hkdf_laws S" "handshake_phase S G K ctx i w r = (Ok key, i', w', r')"
  shows "length (key_as_bytes key) = 32"
  using assms(2) derived_key_length [OF assms(1)]
  by (auto simp: handshake_phase_def complete_from_wire_signed_def complete_from_wire_def complete_def Let_def map_err_Ok_iff
      split: prod.splits sum.splits option.splits if_splits)

lemma rotate_key_wf: "hkdf_laws S \<Longrightarrow> rotate_key S ch n = Some ch' \<Longrightarrow> channel_wf ch'"
  by (rule rotate_key_total [of S n ch]) (auto simp: channel_wf_def)

lemma channel_wf_session_step:
  assumes "hkdf_laws S" "channel_wf (ss_channel st)" "session_step S cfg st ev = (Running, st')"
  shows "channel_wf (ss_channel st')"
  using assms(3)
proof (cases rule: session_step_RunningE)
  case plain
  then show ?thesis
    by (cases rule: session_select_RunningE) (use assms(2) in \<open>auto simp: read_frame_wf write_frame_wf\<close>)
next
  case (rotated st1 ch' w' m')
  from rotated(1) have "channel_wf (ss_channel st1)"
    by (cases rule: session_select_RunningE) (use assms(2) in \<open>auto simp: read_frame_wf write_frame_wf\<close>)
  with rotated(2,3) assms(1) show ?thesis
    by (auto elim!: do_rotate_RunningE intro: rotate_key_wf)
qed

lemma relays_ok_step:
  assumes laws: "hkdf_laws S" and ok: "relays_ok s" and step: "run_step S G K P b cfg s ev = Some s'"
  shows "relays_ok s'"
proof (cases ev)
  case (HandshakeDone p cin w r)
  with step ok show ?thesis
    by (auto split: option.splits conn_phase.splits prod.splits sum.splits
        intro!: relays_ok_set dest!: handshake_phase_key [OF laws])
next
  case (BackendUp p bw)
  with step obtain key i w where p: "rb_phases s p = Some (Connecting key i w)"
    by (auto split: option.splits conn_phase.splits)
  with ok have "length (key_as_bytes key) = 32" using relays_okD by fastforce
  with step ok BackendUp p show ?thesis by (auto intro!: relays_ok_set simp: channel_wf_def channel_new_def)
next
  case (Turn p ev)
  with step obtain t where p: "rb_phases s p = Some (InRelay t)" and r: "relay_turn S cfg p ev t s = Some s'"
    by (auto split: option.splits conn_phase.splits)
  let ?st = "(rt_session t)\<lparr>ss_metrics := rb_metrics s\<rparr>"
  obtain x st' where st': "session_step S cfg ?st ev = (x, st')" by fastforce
  from relays_okD [OF ok p] have t: "rt_seen t \<le> rb_version s" "channel_wf (ss_channel ?st)" by simp_all
  then have "seen_after (rb_version s) (rt_seen t) (ev_arm ev) \<le> rb_version s" by (cases "ev_arm ev") auto
  with r st' ok channel_wf_session_step [OF laws t(2)] show ?thesis
    by (cases x) (auto simp: relay_turn_def Let_def intro!: relays_ok_set relays_ok_end split: if_splits)
next
  case (Abandon p)
  with step ok show ?thesis
    by (auto intro!: relays_ok_end split: option.splits conn_phase.splits origin.splits if_splits)
next
  case (BeginTcp i)
  with step ok show ?thesis by (auto simp: begin_task_def intro!: relays_ok_set split: if_splits)
next
  case (BeginWs i org)
  with step ok show ?thesis by (auto simp: begin_task_def intro!: relays_ok_set split: if_splits)
qed (use step in \<open>auto intro: relays_ok_later [OF ok] simp: handle_rotate_def split: if_splits option.splits prod.splits\<close>)

lemma relays_ok_reach:
  assumes "hkdf_laws S" "run_reach S G K P b cfg (running_start ws) s"
  shows "relays_ok s"
  using assms(2)
proof (induction rule: run_reach.induct)
  case begun
  show ?case by (simp add: relays_ok_def running_start_def)
next
  case (stepped s ev s')
  then show ?case by (blast intro: relays_ok_step [OF assms(1)])
qed

text \<open>A rotation has been announced that the task has not seen.\<close>

definition rotation_pending :: "running_bridge \<Rightarrow> origin \<Rightarrow> bool" where
  "rotation_pending s p \<longleftrightarrow> (\<exists>t. rb_phases s p = Some (InRelay t) \<and> rt_seen t < rb_version s)"

lemma pending_persists:
  assumes "rotation_pending s p" "run_step S G K P b cfg s ev = Some s'" "rb_phases s' p \<noteq> None"
    and "\<And>sev. ev = Turn p sev \<Longrightarrow> \<nexists>ok k. ev_arm sev = RotateSignal ok k"
  shows "rotation_pending s' p"
proof -
  from assms(1) obtain t where t: "rb_phases s p = Some (InRelay t)" "rt_seen t < rb_version s"
    by (auto simp: rotation_pending_def)
  show ?thesis
  proof (cases ev)
    case (Turn q sev)
    show ?thesis
    proof (cases "q = p")
      case True
      with assms(4) Turn have "seen_after (rb_version s) (rt_seen t) (ev_arm sev) = rt_seen t"
        by (cases "ev_arm sev") auto
      with True Turn assms(2,3) t show ?thesis
        by (auto simp: rotation_pending_def relay_turn_def Let_def split: if_splits prod.splits loop_status.splits)
    next
      case False
      with Turn assms(2) t show ?thesis
        by (auto simp: rotation_pending_def relay_turn_def Let_def
            split: if_splits prod.splits loop_status.splits option.splits conn_phase.splits)
    qed
  qed (use assms(2,3) t in \<open>auto simp: rotation_pending_def begin_task_def handle_rotate_def
      split: if_splits option.splits conn_phase.splits prod.splits sum.splits origin.splits\<close>)
qed

lemma rotate_turn:
  assumes "prim_laws S" "channel_wf (ss_channel st)" "w_budget (ss_client_w st) = None" "w_flush_ok (ss_client_w st)"
    and "length n = 32" "length g = 12"
  obtains st' where "session_step S cfg st \<lparr>ev_arm = RotateSignal True k, ev_nonce = n, ev_gcm_nonce = g\<rparr> = (Running, st')"
    "epoch (ss_channel st') = epoch (ss_channel st) + 1"
    "hkdf_sha256 S n (key_bytes (ss_channel st)) ROTATION_HKDF_INFO 32 = Some (cipher (ss_channel st'))"
proof -
  let ?ch = "ss_channel st" and ?ch1 = "(ss_channel st)\<lparr>key_rotate_send_seq := key_rotate_send_seq (ss_channel st) + 1\<rparr>"
  have laws: "aead_total S" "hkdf_laws S" using assms(1) by (simp_all add: prim_laws_def)
  obtain c t where "gcm_encrypt S (cipher ?ch) g (u64_to_be (key_rotate_send_seq ?ch)) n = Some (c, t)"
    using assms(2,5,6) by (rule_tac aead_totalE [OF laws(1), of "cipher ?ch" g "u64_to_be (key_rotate_send_seq ?ch)" n])
      (auto simp: channel_wf_def)
  from send_key_rotate_open [OF this assms(3,4)] obtain w' where
    s: "send_key_rotate S ?ch (ss_client_w st) g n = (Ok (), ?ch1, w')" by blast
  obtain key where k: "hkdf_sha256 S n (key_bytes ?ch1) ROTATION_HKDF_INFO 32 = Some key"
    "rotate_key S ?ch1 n = Some (?ch1\<lparr>cipher := key, key_bytes := key, send_seq := 0, recv_seq := 0,
       recv_initialized := False, epoch := epoch ?ch1 + 1\<rparr>)"
    by (rule rotate_key_total [OF laws(2), of n ?ch1])
  let ?ch2 = "?ch1\<lparr>cipher := key, key_bytes := key, send_seq := 0, recv_seq := 0, recv_initialized := False,
     epoch := epoch ?ch1 + 1\<rparr>"
  from s k(2) have "session_step S cfg st \<lparr>ev_arm = RotateSignal True k, ev_nonce = n, ev_gcm_nonce = g\<rparr> =
      (Running, st\<lparr>ss_client_in := drop k (ss_client_in st), ss_channel := ?ch2, ss_client_w := w',
         ss_metrics := count_rotation (ss_metrics st), ss_bytes_this_epoch := 0\<rparr>)"
    by (simp add: session_step_def do_rotate_def)
  from that [OF this] k(1) show ?thesis by simp
qed

text \<open>Steps of the whole bridge in which the relay task \<open>p\<close> neither ends nor takes the rotation branch.\<close>

inductive without_signal ::
  "sym_prims \<Rightarrow> sig_prims \<Rightarrow> ('r, 'x, 'dk, 'ek) kex_prims \<Rightarrow> (string \<Rightarrow> url option) \<Rightarrow> bridge \<Rightarrow> valid_config \<Rightarrow>
   origin \<Rightarrow> running_bridge \<Rightarrow> running_bridge \<Rightarrow> bool" for S G K P b cfg p s0 where
  none: "without_signal S G K P b cfg p s0 s0"
| another: "without_signal S G K P b cfg p s0 s \<Longrightarrow> run_step S G K P b cfg s ev = Some s' \<Longrightarrow> rb_phases s' p \<noteq> None \<Longrightarrow>
    (\<And>sev. ev = Turn p sev \<Longrightarrow> \<nexists>ok k. ev_arm sev = RotateSignal ok k) \<Longrightarrow> without_signal S G K P b cfg p s0 s'"

lemma without_signal_reach:
  "without_signal S G K P b cfg p s s' \<Longrightarrow> run_reach S G K P b cfg s0 s \<Longrightarrow> run_reach S G K P b cfg s0 s'"
  by (induction rule: without_signal.induct) (auto intro: run_reach.stepped)

lemma without_signal_pending:
  "without_signal S G K P b cfg p s s' \<Longrightarrow> rotation_pending s p \<Longrightarrow> rotation_pending s' p"
proof (induction rule: without_signal.induct)
  case (another s ev s')
  then show ?case by (blast intro: pending_persists)
qed

lemma command_makes_pending:
  assumes "relays_ok s" "rb_phases s p = Some (InRelay t)" "ev = CloudCommand Rotate_Cmd \<or> ev = AdminRotate"
    and "run_step S G K P b cfg s ev = Some s'"
  shows "rotation_pending s' p"
  using relays_okD [OF assms(1,2)] assms(2-4)
  by (auto simp: rotation_pending_def handle_rotate_def split: option.splits)

section \<open>A running example\<close>

definition demo_bridge :: bridge where
  "demo_bridge = \<lparr>br_identity = \<lparr>signing_key = SigningKey [], verifying_key = VerifyingKey []\<rparr>, br_client_vk = None,
     br_tls = None, br_admin = None, br_tasks = []\<rparr>"

lemma demo_handshake:
  obtains key w r' where "handshake_phase toy_sym toy_sig toy_kex (session_context_of demo_bridge)
      (replicate CLIENT_RESPONSE_LEN 5) open_writer 3 = (Ok key, [], w, r')" "w_budget w = None" "w_flush_ok w"
proof -
  obtain hs r1 where hs: "server_handshake_new toy_kex 3 = (hs, r1)" by (metis prod.exhaust)
  obtain hello r2 where h: "server_hello_signed_bytes toy_sig toy_kex hs (SigningKey []) r1 = (Ok hello, r2)"
    using server_handshake_new_wf [OF toy_kex_laws(1) hs] by (rule toy_server_hello_signed)
  let ?c = "replicate CLIENT_RESPONSE_LEN (5 :: byte)"
  have "complete_from_wire toy_sym toy_kex hs ?c = derive_session_key toy_sym
      (x25519_dh toy_kex (x25519_secret hs) (take X25519_KEY_LEN ?c)) (take 32 (drop X25519_KEY_LEN ?c)) (sh_nonce hs)"
    by (simp add: complete_from_wire_def complete_def toy_kex_def layout_defs)
  moreover obtain key where "derive_session_key toy_sym
      (x25519_dh toy_kex (x25519_secret hs) (take X25519_KEY_LEN ?c)) (take 32 (drop X25519_KEY_LEN ?c)) (sh_nonce hs) = Ok key"
    by (rule derive_session_key_ok [OF toy_sym_laws(4)])
  ultimately have "handshake_phase toy_sym toy_sig toy_kex (session_context_of demo_bridge) ?c open_writer 3 =
      (Ok key, [], open_writer\<lparr>w_sent := hello\<rparr>, r2)"
    using hs h by (simp add: handshake_phase_def session_context_of_def demo_bridge_def write_flush_open read_exact_def)
  from that [OF this] show ?thesis by simp
qed

lemma demo_relaying:
  obtains s t where "run_reach toy_sym toy_sig toy_kex P demo_bridge demo_valid (running_start None) s"
    "rb_phases s (Tcp 0) = Some (InRelay t)" "rb_phases s = [Tcp 0 \<mapsto> InRelay t]"
    "w_budget (ss_client_w (rt_session t)) = None" "w_flush_ok (ss_client_w (rt_session t))"
proof -
  obtain key w r' where h: "handshake_phase toy_sym toy_sig toy_kex (session_context_of demo_bridge)
      (replicate CLIENT_RESPONSE_LEN 5) open_writer 3 = (Ok key, [], w, r')" "w_budget w = None" "w_flush_ok w"
    by (rule demo_handshake)
  let ?step = "run_step toy_sym toy_sig toy_kex P demo_bridge demo_valid"
  define s1 where "s1 = the (?step (running_start None) (TcpIncoming (Ok demo_peer)))"
  have s1: "?step (running_start None) (TcpIncoming (Ok demo_peer)) = Some s1" by (simp add: s1_def)
  have t1: "has_task s1 (Tcp 0)" "rb_phases s1 = (\<lambda>_. None)"
    by (simp_all add: s1_def running_start_def tcp_listener_start_def tcp_accept_def conn_admit_def ip_count_def demo_limits Let_def)
  define s2 where "s2 = set_phase (Tcp 0) Handshaking (s1\<lparr>rb_metrics := count_connection (rb_metrics s1)\<rparr>)"
  have s2: "?step s1 (BeginTcp 0) = Some s2" using t1 by (simp add: begin_task_def s2_def)
  define s3 where "s3 = set_phase (Tcp 0) (Connecting key [] w) (s2\<lparr>rb_metrics := enter_session (count_handshake (rb_metrics s2))\<rparr>)"
  have s3: "?step s2 (HandshakeDone (Tcp 0) (replicate CLIENT_RESPONSE_LEN 5) open_writer 3) = Some s3"
    using h(1) by (simp add: s2_def s3_def)
  define t where "t = \<lparr>rt_session = \<lparr>ss_channel = channel_new (key_as_bytes key) (vc_max_frame_size demo_valid),
     ss_client_in = [], ss_client_w = w, ss_backend_w = open_writer, ss_bytes_this_epoch = 0,
     ss_metrics = rb_metrics s3\<rparr>, rt_seen = rb_version s3\<rparr>"
  have s4: "?step s3 (BackendUp (Tcp 0) open_writer) = Some (set_phase (Tcp 0) (InRelay t) s3)"
    by (simp add: s3_def t_def)
  note r = run_reach.stepped [OF run_reach.stepped [OF run_reach.stepped [OF run_reach.stepped [OF run_reach.begun s1] s2] s3] s4]
  show ?thesis by (rule that [OF r, of t]) (simp_all add: h t1 s2_def s3_def fun_eq_iff, simp_all add: t_def h)
qed

text \<open>C11. A rotation command reaches every session. When the control plane or the admin channel orders a
  rotation while a session is in its relay loop, then, whatever the rest of the bridge does in between and
  however many further commands arrive, as long as the session lives and has not rotated on a command it
  can take the rotation branch; it then ratchets its key once (the next epoch, with the key derived from
  the current one and the fresh nonce), has acted on all commands up to that moment, and cannot take the
  branch again before another command.\<close>

theorem rotate_command_reaches_sessions:
  assumes "prim_laws S" and "run_reach S G K P b cfg (running_start ws) s"
    and "rb_phases s p = Some (InRelay t0)" and "c = CloudCommand Rotate_Cmd \<or> c = AdminRotate"
    and "run_step S G K P b cfg s c = Some s1" and "without_signal S G K P b cfg p s1 s2"
    and "rb_phases s2 p = Some (InRelay t)"
    and "w_budget (ss_client_w (rt_session t)) = None" "w_flush_ok (ss_client_w (rt_session t))"
    and "length n = 32" "length g = 12"
  shows "\<exists>s3 t3. run_step S G K P b cfg s2 (Turn p \<lparr>ev_arm = RotateSignal True 0, ev_nonce = n, ev_gcm_nonce = g\<rparr>) = Some s3 \<and>
     rb_phases s3 p = Some (InRelay t3) \<and>
     epoch (ss_channel (rt_session t3)) = epoch (ss_channel (rt_session t)) + 1 \<and>
     hkdf_sha256 S n (key_bytes (ss_channel (rt_session t))) ROTATION_HKDF_INFO 32 = Some (cipher (ss_channel (rt_session t3))) \<and>
     rt_seen t3 = rb_version s3 \<and>
     (\<forall>ev ok k. ev_arm ev = RotateSignal ok k \<longrightarrow> run_step S G K P b cfg s3 (Turn p ev) = None)"
proof -
  have laws: "hkdf_laws S" using assms(1) by (simp add: prim_laws_def)
  have r1: "run_reach S G K P b cfg (running_start ws) s1" using assms(2,5) by (rule run_reach.stepped)
  have "rotation_pending s1 p"
    using command_makes_pending [OF relays_ok_reach [OF laws assms(2)] assms(3-5)] .
  with without_signal_pending [OF assms(6)] have "rotation_pending s2 p" .
  with assms(7) have seen: "rt_seen t \<noteq> rb_version s2" by (auto simp: rotation_pending_def)
  let ?st = "(rt_session t)\<lparr>ss_metrics := rb_metrics s2\<rparr>"
  have "channel_wf (ss_channel ?st)"
    using relays_okD [OF relays_ok_reach [OF laws without_signal_reach [OF assms(6) r1]] assms(7)] by simp
  then obtain st' where st': "session_step S cfg ?st \<lparr>ev_arm = RotateSignal True 0, ev_nonce = n, ev_gcm_nonce = g\<rparr> = (Running, st')"
    "epoch (ss_channel st') = epoch (ss_channel ?st) + 1"
    "hkdf_sha256 S n (key_bytes (ss_channel ?st)) ROTATION_HKDF_INFO 32 = Some (cipher (ss_channel st'))"
    by (rule rotate_turn [OF assms(1) _ _ _ assms(10,11), where k = 0 and cfg = cfg]) (use assms(8,9) in simp_all)
  then show ?thesis using assms(7,10,11) seen
    by (auto simp: relay_turn_def Let_def event_ok_def incomplete_def)
qed

theorem rotate_command_reaches_sessions_witness:
  "\<exists>s s1 s3 t t3. run_reach toy_sym toy_sig toy_kex (\<lambda>_. None) demo_bridge demo_valid (running_start None) s \<and>
     run_step toy_sym toy_sig toy_kex (\<lambda>_. None) demo_bridge demo_valid s (CloudCommand Rotate_Cmd) = Some s1 \<and>
     rb_phases s1 (Tcp 0) = Some (InRelay t) \<and>
     run_step toy_sym toy_sig toy_kex (\<lambda>_. None) demo_bridge demo_valid s1 (Turn (Tcp 0) (demo_event (RotateSignal True 0))) = Some s3 \<and>
     rb_phases s3 (Tcp 0) = Some (InRelay t3) \<and> epoch (ss_channel (rt_session t3)) = epoch (ss_channel (rt_session t)) + 1"
proof -
  obtain s t where s: "run_reach toy_sym toy_sig toy_kex (\<lambda>_. None) demo_bridge demo_valid (running_start None) s"
    "rb_phases s (Tcp 0) = Some (InRelay t)" "w_budget (ss_client_w (rt_session t)) = None" "w_flush_ok (ss_client_w (rt_session t))"
    by (rule demo_relaying)
  obtain s1 where s1: "run_step toy_sym toy_sig toy_kex (\<lambda>_. None) demo_bridge demo_valid s (CloudCommand Rotate_Cmd) = Some s1"
    "rb_phases s1 = rb_phases s" by simp
  have p: "rb_phases s1 (Tcp 0) = Some (InRelay t)" using s1 s by simp
  from rotate_command_reaches_sessions [OF demo_laws s(1,2) disjI1 [OF refl] s1(1) without_signal.none p s(3,4),
      of "replicate 32 7" "replicate 12 9"] s s1 p
  show ?thesis unfolding demo_event_def by auto
qed

section \<open>Sessions and slots\<close>

definition tcp_moves :: "valid_config \<Rightarrow> tcp_listener \<Rightarrow> tcp_listener \<Rightarrow> bool" where
  "tcp_moves cfg l l' \<longleftrightarrow> l' = l \<or> (\<exists>e. l' = tcp_listener_step cfg l e)"

lemma tcp_moves_intros [simp, intro]:
  "tcp_moves cfg l l" "tcp_moves cfg l (tcp_listener_step cfg l e)" "tcp_moves cfg (rb_tcp s) (rb_tcp (end_task cfg p s))"
  by (auto simp: tcp_moves_def end_task_def Let_def simp del: tcp_listener_step.simps split: origin.splits)

lemma run_step_tcp:
  assumes "run_step S G K P b cfg s ev = Some s'"
  shows "tcp_moves cfg (rb_tcp s) (rb_tcp s')"
proof -
  have m: "tcp_moves cfg (rb_tcp s) (rb_tcp (end_task cfg p (s\<lparr>rb_metrics := m\<rparr>)))" for p m
    using tcp_moves_intros(3) [of cfg "s\<lparr>rb_metrics := m\<rparr>" p] by simp
  show ?thesis using assms m
    by (cases ev) (auto simp: begin_task_def set_phase_def relay_turn_def Let_def simp del: tcp_listener_step.simps
      split: if_splits option.splits conn_phase.splits prod.splits sum.splits origin.splits loop_status.splits)
qed

lemma run_reach_tcp:
  assumes "run_reach S G K P b cfg (running_start ws) s"
  shows "\<exists>es. rb_tcp s = foldl (tcp_listener_step cfg) tcp_listener_start es"
  using assms
proof (induction rule: run_reach.induct)
  case begun
  show ?case by (intro exI [of _ "[]"]) (simp add: running_start_def)
next
  case (stepped s ev s')
  then obtain es where es: "rb_tcp s = foldl (tcp_listener_step cfg) tcp_listener_start es" by blast
  from run_step_tcp [OF stepped(2)] show ?case unfolding tcp_moves_def
  proof (elim disjE exE)
    fix e assume "rb_tcp s' = tcp_listener_step cfg (rb_tcp s) e"
    with es have "rb_tcp s' = foldl (tcp_listener_step cfg) tcp_listener_start (es @ [e])" by simp
    then show ?case by blast
  qed (use es in metis)
qed

lemma card_tasks_of_ip: "card {i. (i, ip) \<in> set ts} \<le> count_list (map snd ts) ip"
proof (induction ts)
  case (Cons x ts)
  have "{i. (i, ip) \<in> set (x # ts)} \<subseteq> (if snd x = ip then insert (fst x) {i. (i, ip) \<in> set ts} else {i. (i, ip) \<in> set ts})"
    by (cases x) auto
  moreover have f: "finite {i. (i, ip) \<in> set ts}"
    by (rule finite_subset [of _ "fst ` set ts"]) force+
  ultimately have "card {i. (i, ip) \<in> set (x # ts)} \<le>
      card (if snd x = ip then insert (fst x) {i. (i, ip) \<in> set ts} else {i. (i, ip) \<in> set ts})"
    by (intro card_mono) auto
  also have "\<dots> \<le> (if snd x = ip then 1 else 0) + card {i. (i, ip) \<in> set ts}"
    using f by (simp add: card_insert_if)
  finally show ?case using Cons by (simp split: if_splits)
qed simp

text \<open>C12. Sessions are accounted for, in every interleaving of the accept loops, the connection tasks and the
  commands: both gauges of active connections are exactly the number of sessions between the end of their
  handshake and their own end; each such session is a running task of its listener; and no address has
  more active TCP sessions than \<open>max_connections_per_ip\<close>.\<close>

theorem active_sessions_accounted:
  assumes "validate url_parse env c = Ok cfg" and "run_reach S G K P b cfg (running_start ws) s"
  shows "prom_connections_active (bm_prom (rb_metrics s)) = int (card (active_sessions s)) \<and>
     connections_active (bm_state (rb_metrics s)) = word_of_nat (card (active_sessions s)) \<and>
     active_sessions s \<subseteq> set (all_tasks s) \<and>
     card {i. Tcp i \<in> active_sessions s \<and> tl_handles (rb_tcp s) ! i = ip} \<le> unat (vc_max_connections_per_ip cfg)"
proof (intro conjI)
  have inv: "gauge_inv s" using assms(2) by (rule gauge_inv_reach)
  then show "prom_connections_active (bm_prom (rb_metrics s)) = int (card (active_sessions s))"
    "connections_active (bm_state (rb_metrics s)) = word_of_nat (card (active_sessions s))"
    by (simp_all add: gauge_inv_def gauge_def)
  from inv show tasks: "active_sessions s \<subseteq> set (all_tasks s)" by (simp add: gauge_inv_def active_tasks)
  from run_reach_tcp [OF assms(2)] obtain es where es: "rb_tcp s = foldl (tcp_listener_step cfg) tcp_listener_start es" ..
  have "handles_cover (rb_tcp s)" unfolding es
    by (rule tcp_run_handles(2)) (simp add: handles_cover_def tcp_listener_start_def)
  with tasks have sub: "{i. Tcp i \<in> active_sessions s \<and> tl_handles (rb_tcp s) ! i = ip} \<subseteq> {i. (i, ip) \<in> set (tl_tasks (rb_tcp s))}"
    by (fastforce simp: handles_cover_def all_tasks_def split: option.splits)
  have "finite {i. (i, ip) \<in> set (tl_tasks (rb_tcp s))}"
    by (rule finite_subset [of _ "fst ` set (tl_tasks (rb_tcp s))"]) force+
  from card_mono [OF this sub] card_tasks_of_ip [of ip "tl_tasks (rb_tcp s)"]
    tcpl.cap_kept [OF validate_ip_cap [OF assms(1)], of es ip]
  show "card {i. Tcp i \<in> active_sessions s \<and> tl_handles (rb_tcp s) ! i = ip} \<le> unat (vc_max_connections_per_ip cfg)"
    by (simp add: tcpl.run_def es)
qed

theorem active_sessions_accounted_witness:
  "\<exists>s. run_reach toy_sym toy_sig toy_kex (\<lambda>_. None) demo_bridge demo_valid (running_start None) s \<and>
     prom_connections_active (bm_prom (rb_metrics s)) = 1 \<and> connections_active (bm_state (rb_metrics s)) = 1"
proof -
  obtain s t where s: "run_reach toy_sym toy_sig toy_kex (\<lambda>_. None) demo_bridge demo_valid (running_start None) s"
    "rb_phases s = [Tcp 0 \<mapsto> InRelay t]" by (rule demo_relaying)
  have "active_sessions s = {Tcp 0}" using s(2) by (auto simp: active_sessions_def split: if_splits)
  with active_sessions_accounted [OF demo_validates s(1)] s(1) show ?thesis by auto
qed

end
