(* ===== verification/Transport.thy ===== *)
theory Transport
  imports Channel_Props Ws
begin

text \<open>
  The encrypted channel over any transport. \<open>read_frame\<close> of \<open>latticeshield-crypto/src/channel.rs\<close> and the
  session handler of the bridge are generic in the stream they read; \<open>Channel\<close> models them on the bytes a
  TCP peer delivers. Here the reader is a parameter (\<open>read_frame_from\<close>) with the contract of
  \<open>AsyncReadExt::read_exact\<close> as a locale, interpreted for the byte list and for the WebSocket adapter
  \<open>WsStream\<close> of \<open>latticeshield-bridge/src/ws.rs\<close>. A frame read through the adapter is the frame that
  would be read from the bytes the messages carry, wherever the boundaries of the messages fall.
\<close>

type_synonym 's reader = "nat \<Rightarrow> 's \<Rightarrow> (io_error + bytes) \<times> 's"

section \<open>Reading frames from a reader\<close>

definition read_data_frame_from ::
  "'s reader \<Rightarrow> sym_prims \<Rightarrow> channel \<Rightarrow> 's \<Rightarrow> (frame_error + frame_result) \<times> channel \<times> 's" where
  "read_data_frame_from rd S ch s = (case rd 4 s of
     (Err e, s1) \<Rightarrow> (Err (Io e), ch, s1)
   | (Ok len_buf, s1) \<Rightarrow>
      (let len = unat (u32_from_be len_buf) in
       if len < TAG_LEN \<or> max_frame_size ch + TAG_LEN < len
       then (Err (Invalid (FrameLen len)), ch, s1)
       else (case rd SEQ_LEN s1 of
         (Err e, s2) \<Rightarrow> (Err (Io e), ch, s2)
       | (Ok seq_buf, s2) \<Rightarrow>
          (let wire_seq = u64_from_be seq_buf in
           if recv_initialized ch \<and> wire_seq \<le> recv_seq ch
           then (Err (Replay wire_seq (recv_seq ch)), ch, s2)
           else (case rd NONCE_LEN s2 of
             (Err e, s3) \<Rightarrow> (Err (Io e), ch, s3)
           | (Ok nonce_bytes, s3) \<Rightarrow> (case rd len s3 of
               (Err e, s4) \<Rightarrow> (Err (Io e), ch, s4)
             | (Ok ct_and_tag, s4) \<Rightarrow>
                (case gcm_decrypt S (cipher ch) nonce_bytes (u64_to_be wire_seq) (take (len - TAG_LEN) ct_and_tag)
                    (drop (len - TAG_LEN) ct_and_tag) of
                   None \<Rightarrow> (Err AeadFailure, ch, s4)
                 | Some pt \<Rightarrow> (Ok (Data pt), ch\<lparr>recv_seq := wire_seq, recv_initialized := True\<rparr>, s4))))))))"

definition read_key_rotate_frame_from ::
  "'s reader \<Rightarrow> sym_prims \<Rightarrow> channel \<Rightarrow> 's \<Rightarrow> (frame_error + frame_result) \<times> channel \<times> 's" where
  "read_key_rotate_frame_from rd S ch s = (case rd NONCE_LEN s of
     (Err e, s1) \<Rightarrow> (Err (Io e), ch, s1)
   | (Ok gcm_nonce, s1) \<Rightarrow> (case rd (ROTATION_NONCE_LEN + TAG_LEN) s1 of
       (Err e, s2) \<Rightarrow> (Err (Io e), ch, s2)
     | (Ok ct_and_tag, s2) \<Rightarrow>
        (case gcm_decrypt S (cipher ch) gcm_nonce (u64_to_be (key_rotate_recv_seq ch))
            (take ROTATION_NONCE_LEN ct_and_tag) (drop ROTATION_NONCE_LEN ct_and_tag) of
           None \<Rightarrow> (Err AeadFailure, ch, s2)
         | Some rotation_nonce \<Rightarrow>
             (Ok (KeyRotate rotation_nonce), ch\<lparr>key_rotate_recv_seq := key_rotate_recv_seq ch + 1\<rparr>, s2))))"

definition read_frame_from ::
  "'s reader \<Rightarrow> sym_prims \<Rightarrow> channel \<Rightarrow> 's \<Rightarrow> (frame_error + frame_result) \<times> channel \<times> 's" where
  "read_frame_from rd S ch s = (case rd 1 s of
     (Err e, s1) \<Rightarrow> (Err (Io e), ch, s1)
   | (Ok type_buf, s1) \<Rightarrow>
      (if hd type_buf = FRAME_DATA then read_data_frame_from rd S ch s1
       else if hd type_buf = FRAME_KEY_ROTATE then read_key_rotate_frame_from rd S ch s1
       else (Err (Invalid (UnknownFrameType (hd type_buf))), ch, s1)))"

text \<open>The same receiver as \<open>chan_recv\<close> and \<open>recv_ops\<close>, on a reader.\<close>

definition chan_recv_from :: "'s reader \<Rightarrow> sym_prims \<Rightarrow> channel \<Rightarrow> 's \<Rightarrow> (frame_result \<times> channel \<times> 's) option" where
  "chan_recv_from rd S ch s = (case read_frame_from rd S ch s of
      (Ok (Data d), ch', s') \<Rightarrow> Some (Data d, ch', s')
    | (Ok (KeyRotate n), ch', s') \<Rightarrow> map_option (\<lambda>ch''. (KeyRotate n, ch'', s')) (rotate_key S ch' n)
    | (Err _, _, _) \<Rightarrow> None)"

primrec recv_ops_from :: "'s reader \<Rightarrow> sym_prims \<Rightarrow> nat \<Rightarrow> channel \<Rightarrow> 's \<Rightarrow> (frame_result list \<times> channel \<times> 's) option" where
  "recv_ops_from rd S 0 ch s = Some ([], ch, s)"
| "recv_ops_from rd S (Suc k) ch s = (case chan_recv_from rd S ch s of None \<Rightarrow> None
    | Some (x, ch', s') \<Rightarrow> (case recv_ops_from rd S k ch' s' of None \<Rightarrow> None
        | Some (xs, ch'', s'') \<Rightarrow> Some (x # xs, ch'', s'')))"

section \<open>The contract of a reader\<close>

text \<open>\<open>pending s\<close> are the bytes the reader will still deliver: it hands them out in order, and it fails
  exactly when there are fewer than it was asked for.\<close>

locale byte_reader =
  fixes rd :: "'s reader"
    and pending :: "'s \<Rightarrow> bytes"
  assumes rd_enough: "n \<le> length (pending s) \<Longrightarrow>
      \<exists>s'. rd n s = (Ok (take n (pending s)), s') \<and> pending s' = drop n (pending s)"
    and rd_short: "length (pending s) < n \<Longrightarrow> \<exists>e s'. rd n s = (Err e, s')"
begin

lemma rd_cases:
  obtains (short) e s' where "read_exact n (pending s) = None" "rd n s = (Err e, s')"
  | (enough) b s' where "read_exact n (pending s) = Some (b, pending s')" "rd n s = (Ok b, s')"
proof (cases "n \<le> length (pending s)")
  case True
  from rd_enough [OF this] obtain s' where s': "rd n s = (Ok (take n (pending s)), s')" "pending s' = drop n (pending s)" by blast
  from True s'(2) have "read_exact n (pending s) = Some (take n (pending s), pending s')" by (simp add: read_exact_def)
  from enough [OF this s'(1)] show ?thesis .
next
  case False
  then have "length (pending s) < n" by simp
  from rd_short [OF this] short False show ?thesis by (auto simp: read_exact_def)
qed

text \<open>Two outcomes agree: the same frame or the same error, the same channel state, and the rest of the
  bytes still to come; only the kind of an I/O error may differ.\<close>

fun same_outcome :: "(frame_error + frame_result) \<times> channel \<times> bytes \<Rightarrow> (frame_error + frame_result) \<times> channel \<times> 's \<Rightarrow> bool" where
  "same_outcome (Err (Io _), ch, b) (r, ch', s) \<longleftrightarrow> ch' = ch \<and> (\<exists>e. r = Err (Io e))"
| "same_outcome (r0, ch, b) (r, ch', s) \<longleftrightarrow> ch' = ch \<and> r = r0 \<and> pending s = b"

lemma data_frame_same: "same_outcome (read_data_frame S ch (pending s)) (read_data_frame_from rd S ch s)"
proof (cases rule: rd_cases [of 4 s])
  case short
  then show ?thesis by (simp add: read_data_frame_def read_data_frame_from_def)
next
  case (enough len_buf s1)
  note 1 = enough
  show ?thesis
  proof (cases rule: rd_cases [of SEQ_LEN s1])
    case short
    with 1 show ?thesis by (simp add: read_data_frame_def read_data_frame_from_def Let_def)
  next
    case (enough seq_buf s2)
    note 2 = enough
    show ?thesis
    proof (cases rule: rd_cases [of NONCE_LEN s2])
      case short
      with 1 2 show ?thesis by (simp add: read_data_frame_def read_data_frame_from_def Let_def)
    next
      case (enough nonce_bytes s3)
      note 3 = enough
      show ?thesis
        by (cases rule: rd_cases [of "unat (u32_from_be len_buf)" s3])
          (use 1 2 3 in \<open>simp_all add: read_data_frame_def read_data_frame_from_def Let_def split: option.splits\<close>)
    qed
  qed
qed

lemma key_rotate_frame_same:
  "same_outcome (read_key_rotate_frame S ch (pending s)) (read_key_rotate_frame_from rd S ch s)"
proof (cases rule: rd_cases [of NONCE_LEN s])
  case short
  then show ?thesis by (simp add: read_key_rotate_frame_def read_key_rotate_frame_from_def)
next
  case (enough gcm_nonce s1)
  note 1 = enough
  show ?thesis
    by (cases rule: rd_cases [of "ROTATION_NONCE_LEN + TAG_LEN" s1])
      (use 1 in \<open>simp_all add: read_key_rotate_frame_def read_key_rotate_frame_from_def Let_def split: option.splits\<close>)
qed

lemma frame_same: "same_outcome (read_frame S ch (pending s)) (read_frame_from rd S ch s)"
  by (cases rule: rd_cases [of 1 s])
    (simp_all add: read_frame_def read_frame_from_def data_frame_same key_rotate_frame_same)

lemma chan_recv_same:
  assumes "chan_recv S ch (pending s) = Some (x, ch', b)"
  shows "\<exists>s'. chan_recv_from rd S ch s = Some (x, ch', s') \<and> pending s' = b"
proof -
  obtain r ch1 b1 r' ch1' s1 where f: "read_frame S ch (pending s) = (r, ch1, b1)" "read_frame_from rd S ch s = (r', ch1', s1)"
    by (metis prod.exhaust)
  from assms f(1) have "is_ok r" by (auto simp: chan_recv_def split: sum.splits)
  with frame_same [of S ch s, unfolded f] have "r' = r" "ch1' = ch1" "pending s1 = b1" by auto
  with assms f show ?thesis by (auto simp: chan_recv_def chan_recv_from_def split: sum.splits frame_result.splits)
qed

lemma recv_ops_same:
  assumes "recv_ops S k ch (pending s) = Some (xs, ch', b)"
  shows "\<exists>s'. recv_ops_from rd S k ch s = Some (xs, ch', s') \<and> pending s' = b"
  using assms
proof (induction k arbitrary: ch s xs)
  case 0
  then show ?case by simp
next
  case (Suc k)
  then obtain x ch1 b1 ys where 1: "chan_recv S ch (pending s) = Some (x, ch1, b1)"
    and 2: "recv_ops S k ch1 b1 = Some (ys, ch', b)" "xs = x # ys" by (auto split: option.splits)
  from chan_recv_same [OF 1] obtain s1 where s1: "chan_recv_from rd S ch s = Some (x, ch1, s1)" "pending s1 = b1" by blast
  from Suc.IH [of ch1 s1 ys] 2 s1 show ?case by auto
qed

end

section \<open>TCP and WebSocket readers\<close>

definition bytes_reader :: "bytes reader" where
  "bytes_reader n s = (case read_exact n s of None \<Rightarrow> (Err UnexpectedEof, []) | Some (b, s') \<Rightarrow> (Ok b, s'))"

interpretation tcp_reader: byte_reader bytes_reader "\<lambda>s. s"
  by unfold_locales (simp_all add: bytes_reader_def read_exact_def)

text \<open>\<open>read_exact\<close> on the adapter: poll with the space that is left until the buffer is full; an empty
  answer is the end of the stream.\<close>

function ws_fill :: "nat \<Rightarrow> bytes \<Rightarrow> ws_stream \<Rightarrow> (io_error + bytes) \<times> ws_stream" where
  "ws_fill n acc me = (if n \<le> length acc then (Ok acc, me)
     else (case ws_poll_read (n - length acc) me of
         (Pending, me') \<Rightarrow> ws_fill n acc me'
       | (Ready (Err e), me') \<Rightarrow> (Err e, me')
       | (Ready (Ok b), me') \<Rightarrow> if b = [] then (Err UnexpectedEof, me') else ws_fill n (acc @ b) me'))"
  by pat_completeness auto
termination
proof (relation "measures [\<lambda>(n, acc, me). length (ws_remaining me), \<lambda>(n, acc, me). length (inner me)]", goal_cases)
  case 1
  then show ?case by simp
next
  case (2 n acc me p me')
  then show ?case using ws_poll_read_spec [of "n - length acc" me] by (auto split: poll.splits)
next
  case (3 n acc me p me' r b)
  then have "ws_poll_read (n - length acc) me = (Ready (Ok b), me')" by simp
  with 3 ws_poll_read_spec [of "n - length acc" me] have "ws_remaining me = b @ ws_remaining me'" by simp
  with 3 show ?case by simp
qed

declare ws_fill.simps [simp del]

definition ws_read_exact :: "ws_stream reader" where
  "ws_read_exact n me = ws_fill n [] me"

lemma ws_fill_spec:
  "(n - length acc \<le> length (ws_remaining me) \<longrightarrow> length acc \<le> n \<longrightarrow>
      (\<exists>me'. ws_fill n acc me = (Ok (acc @ take (n - length acc) (ws_remaining me)), me') \<and>
         ws_remaining me' = drop (n - length acc) (ws_remaining me))) \<and>
   (length (ws_remaining me) < n - length acc \<longrightarrow> (\<exists>e me'. ws_fill n acc me = (Err e, me')))"
proof (induction n acc me rule: ws_fill.induct)
  case (1 n acc me)
  show ?case
  proof (cases "n \<le> length acc")
    case True
    then show ?thesis by (subst (1 2) ws_fill.simps) simp
  next
    case False
    then have pos: "0 < n - length acc" by simp
    obtain p me' where p: "ws_poll_read (n - length acc) me = (p, me')" by fastforce
    note spec = ws_poll_read_spec [OF pos, of me, unfolded p]
    show ?thesis
    proof (cases p)
      case Pending
      with "1.IH"(1) [OF False p [symmetric] Pending] p False spec show ?thesis
        by (subst (1 2) ws_fill.simps) simp
    next
      case (Ready r)
      show ?thesis
      proof (cases r)
        case (Inl e)
        with Ready p False spec show ?thesis by (subst (1 2) ws_fill.simps) simp
      next
        case (Inr b)
        show ?thesis
        proof (cases "b = []")
          case True
          with Inr Ready p False spec show ?thesis by (subst (1 2) ws_fill.simps) simp
        next
          case nonempty: False
          with spec Ready Inr have b: "ws_remaining me = b @ ws_remaining me'" "length b \<le> n - length acc" by simp_all
          have eq: "ws_fill n acc me = ws_fill n (acc @ b) me'"
            using p Ready Inr nonempty False by (subst ws_fill.simps) simp
          from "1.IH"(2) [OF False p [symmetric] Ready Inr nonempty] b show ?thesis unfolding eq
            by (auto simp: diff_diff_add)
        qed
      qed
    qed
  qed
qed

interpretation ws_reader: byte_reader ws_read_exact ws_remaining
proof
  fix n s
  show "\<exists>s'. ws_read_exact n s = (Ok (take n (ws_remaining s)), s') \<and> ws_remaining s' = drop n (ws_remaining s)"
    if "n \<le> length (ws_remaining s)" using ws_fill_spec [of n "[]" s] that by (simp add: ws_read_exact_def)
  show "\<exists>e s'. ws_read_exact n s = (Err e, s')" if "length (ws_remaining s) < n"
    using ws_fill_spec [of n "[]" s] that by (simp add: ws_read_exact_def)
qed

section \<open>The channel over a WebSocket\<close>

text \<open>A frame read through the WebSocket adapter: the frame, or the refusal, is the one that the same
  receiver finds in the bytes the messages carry; the channel is left in the same state, and when a frame
  was read (or refused for its content) the adapter goes on with the byte after it. Only the kind of an
  I/O error depends on the transport.\<close>

theorem ws_frame_equals_tcp_frame:
  assumes "read_frame S ch (ws_remaining me) = (r, ch', rest)"
  shows "\<exists>r' me'. read_frame_from ws_read_exact S ch me = (r', ch', me') \<and>
     ((\<exists>e. r = Err (Io e)) \<longleftrightarrow> (\<exists>e. r' = Err (Io e))) \<and>
     ((\<nexists>e. r = Err (Io e)) \<longrightarrow> r' = r \<and> ws_remaining me' = rest)"
proof -
  obtain r' ch1 me' where f: "read_frame_from ws_read_exact S ch me = (r', ch1, me')" by (metis prod.exhaust)
  note same = ws_reader.frame_same [of S ch me, unfolded assms f]
  show ?thesis
  proof (cases r)
    case (Inl e)
    with same show ?thesis unfolding f by (cases e) auto
  next
    case (Inr x)
    with same show ?thesis unfolding f by auto
  qed
qed

text \<open>C14. The encrypted channel over a WebSocket, from end to end: the sender's frames and key rotations go
  through its adapter in any grouping of writes and flushes, the messages arrive with any number of idle
  polls in between, and the receiver that reads frames from its own adapter gets exactly the sequence that
  was sent; the two ends are in step again and no byte is left over.\<close>

theorem channel_over_websocket:
  assumes "prim_laws S" "in_step s r" "unat (send_seq s) + length ops < 2 ^ 64" "\<forall>x \<in> set ops. op_valid r x"
    and "send_ops S s ops = Some (wire, s')" and "concat (concat batches) = wire"
    and "filter (\<lambda>x. x \<noteq> WsPending) arriving = map WsItem (ws_sent (foldl ws_batch (ws_new i) batches))"
  shows "\<exists>r' me'. recv_ops_from ws_read_exact S (length ops) r (ws_new arriving) = Some (map op_image ops, r', me') \<and>
     in_step s' r' \<and> ws_remaining me' = []"
proof -
  have l: "chan_link S (length ops) s r" using assms(1-3) by (simp add: chan_link_def)
  from send_ops_delivery [OF l assms(4)] assms(5) obtain r' where
    r': "in_step s' r'" "\<And>rest. recv_ops S (length ops) r (wire @ rest) = Some (map op_image ops, r', rest)"
    by (auto simp: chan_link_def)
  have "ws_remaining (ws_new arriving) = wire"
    using ws_arriving_payload [OF assms(7)] assms(6) by (simp add: ws_remaining_def ws_new_def)
  with r'(2) [of "[]"] have "recv_ops S (length ops) r (ws_remaining (ws_new arriving)) = Some (map op_image ops, r', [])"
    by simp
  from ws_reader.recv_ops_same [OF this] r'(1) show ?thesis by blast
qed

theorem ws_frame_equals_tcp_frame_witness:
  "\<exists>me'. read_frame_from ws_read_exact toy_sym (channel_new demo_key 64) (ws_new [WsItem (WsBinary [9]), WsPending]) =
     (Err (Invalid (UnknownFrameType 9)), channel_new demo_key 64, me')"
proof -
  have "read_frame toy_sym (channel_new demo_key 64) (ws_remaining (ws_new [WsItem (WsBinary [9]), WsPending])) =
      (Err (Invalid (UnknownFrameType 9)), channel_new demo_key 64, [])"
    by (simp add: ws_remaining_def ws_new_def read_frame_def read_exact_def layout_defs)
  from ws_frame_equals_tcp_frame [OF this] show ?thesis by auto
qed

theorem channel_over_websocket_witness:
  "\<exists>wire s' r' me'. send_ops toy_sym (channel_new demo_key 65536) demo_ops = Some (wire, s') \<and>
     recv_ops_from ws_read_exact toy_sym 4 (channel_new demo_key 65536) (ws_new [WsPending, WsItem (WsBinary wire)]) =
       Some (map op_image demo_ops, r', me') \<and> in_step s' r'"
proof -
  let ?c = "channel_new demo_key 65536"
  have st: "in_step ?c ?c" by (rule new_channels_in_step) (simp add: demo_key_def)
  have v: "unat (send_seq ?c) + length demo_ops < 2 ^ 64" "\<forall>x \<in> set demo_ops. op_valid ?c x"
    by (simp_all add: demo_ops_def channel_new_def)
  have "chan_link toy_sym (length demo_ops) ?c ?c" using st v demo_laws by (simp add: chan_link_def)
  from send_ops_delivery [OF this v(2)] obtain wire s' where w: "send_ops toy_sym ?c demo_ops = Some (wire, s')" by blast
  have "wire \<noteq> []" using w by (auto simp: demo_ops_def write_frame_def toy_sym_def io_simps Let_def split: option.splits)
  then have "filter (\<lambda>x. x \<noteq> WsPending) [WsPending, WsItem (WsBinary wire)] = map WsItem (ws_sent (foldl ws_batch (ws_new []) [[wire]]))"
    by (simp add: ws_batch_sent ws_new_def)
  moreover have "length demo_ops = 4" by (simp add: demo_ops_def)
  ultimately show ?thesis using channel_over_websocket [OF demo_laws st v w, of "[[wire]]"] w by fastforce
qed

end
