(* ===== verification/Wasm.thy ===== *)
theory Wasm
  imports Handshake
begin

text \<open>
  The browser client \<open>latticeshield-wasm\<close>: its own copies of the signing module
  (\<open>signing.rs\<close>) and of the client half of the handshake (\<open>handshake.rs\<close>), the exported
  functions (\<open>lib.rs\<close>) and the errors they turn into JavaScript values (\<open>error.rs\<close>). The
  theorems say that these copies compute what the bridge's crate computes.

  The JavaScript objects the exports build belong to \<open>js_sys\<close>; \<open>js_prims\<close> stands for them.
  \<open>OsRng\<close> is the generator state that is passed along.
\<close>

section \<open>Errors\<close>

datatype wasm_error =
    WasmInvalidKeyLength nat nat
  | WasmInvalidSignatureLength nat nat
  | WasmSignError
  | WasmVerifyError
  | WasmHandshakeError string
  | WasmJsError string

text \<open>\<open>Display for WasmError\<close>, \<open>into_js\<close> (the JavaScript value is the displayed string), \<open>from_js\<close>.\<close>

fun wasm_error_fmt :: "wasm_error \<Rightarrow> string" where
  "wasm_error_fmt (WasmInvalidKeyLength expected got) =
     ''invalid key length: expected '' @ dec expected @ '' bytes, got '' @ dec got"
| "wasm_error_fmt (WasmInvalidSignatureLength expected got) =
     ''invalid signature length: expected '' @ dec expected @ '' bytes, got '' @ dec got"
| "wasm_error_fmt WasmSignError = ''ML-DSA-65 signing operation failed''"
| "wasm_error_fmt WasmVerifyError = ''ML-DSA-65 signature verification failed''"
| "wasm_error_fmt (WasmHandshakeError msg) = ''handshake error: '' @ msg"
| "wasm_error_fmt (WasmJsError msg) = ''JS error: '' @ msg"

datatype js_value = JsString string | JsOther

definition wasm_into_js :: "wasm_error \<Rightarrow> js_value" where
  "wasm_into_js e = JsString (wasm_error_fmt e)"

definition wasm_from_js :: "js_value \<Rightarrow> wasm_error" where
  "wasm_from_js v = WasmJsError (case v of JsString s \<Rightarrow> s | JsOther \<Rightarrow> ''unknown JS error'')"

section \<open>Signing\<close>

definition wasm_sk_from_bytes :: "bytes \<Rightarrow> wasm_error + signing_key" where
  "wasm_sk_from_bytes b = (if length b = 4032 then Ok (SigningKey b)
     else Err (WasmInvalidKeyLength 4032 (length b)))"

definition wasm_vk_from_bytes :: "bytes \<Rightarrow> wasm_error + verifying_key" where
  "wasm_vk_from_bytes b = (if length b = 1952 then Ok (VerifyingKey b)
     else Err (WasmInvalidKeyLength 1952 (length b)))"

definition wasm_sig_from_bytes :: "bytes \<Rightarrow> wasm_error + signature" where
  "wasm_sig_from_bytes b = (if length b = 3309 then Ok (Signature b)
     else Err (WasmInvalidSignatureLength 3309 (length b)))"

definition WASM_SIGNING_CONTEXT :: bytes where
  "WASM_SIGNING_CONTEXT = ascii ''latticeshield-v1''"

definition wasm_crypto_generate_keypair ::
  "sig_prims \<Rightarrow> ('r, 'x, 'dk, 'ek) kex_prims \<Rightarrow> 'r \<Rightarrow> (signing_key \<times> verifying_key) \<times> 'r" where
  "wasm_crypto_generate_keypair G K r =
    (let (seed, r') = fill_bytes K 32 r;
         (sk, vk) = mldsa_keygen G seed
     in ((SigningKey sk, VerifyingKey vk), r'))"

definition sign_msg ::
  "sig_prims \<Rightarrow> ('r, 'x, 'dk, 'ek) kex_prims \<Rightarrow> bytes \<Rightarrow> bytes \<Rightarrow> 'r \<Rightarrow> (wasm_error + bytes) \<times> 'r" where
  "sign_msg G K sk_bytes msg r = (case wasm_sk_from_bytes sk_bytes of
      Err e \<Rightarrow> (Err e, r)
    | Ok sk \<Rightarrow>
        (let (randomness, r') = fill_bytes K 32 r
         in (case mldsa_sign G (sk_to_bytes sk) msg WASM_SIGNING_CONTEXT randomness of
               None \<Rightarrow> Err WasmSignError
             | Some s \<Rightarrow> Ok s, r')))"

definition verify_msg :: "sig_prims \<Rightarrow> bytes \<Rightarrow> bytes \<Rightarrow> bytes \<Rightarrow> wasm_error + unit" where
  "verify_msg G vk_bytes msg sig_bytes = (case wasm_vk_from_bytes vk_bytes of
      Err e \<Rightarrow> Err e
    | Ok vk \<Rightarrow> (case wasm_sig_from_bytes sig_bytes of
        Err e \<Rightarrow> Err e
      | Ok s \<Rightarrow> if mldsa_verify G (vk_to_bytes vk) msg WASM_SIGNING_CONTEXT (sig_to_bytes s)
          then Ok () else Err WasmVerifyError))"

section \<open>The client's handshake\<close>

definition WASM_HKDF_INFO :: bytes where
  "WASM_HKDF_INFO = ascii ''latticeshield-v1-session-key''"

definition wasm_derive_session_key :: "sym_prims \<Rightarrow> bytes \<Rightarrow> bytes \<Rightarrow> bytes \<Rightarrow> wasm_error + bytes" where
  "wasm_derive_session_key S x25519_sec kem_sec n =
    (case hkdf_sha256 S n (x25519_sec @ kem_sec) WASM_HKDF_INFO 32 of
       None \<Rightarrow> Err (WasmHandshakeError ''HKDF expansion failed'')
     | Some okm \<Rightarrow> Ok okm)"

text \<open>\<open>parse_server_hello\<close>: the three slices are length-checked by \<open>try_into\<close>.\<close>

definition wasm_parse_server_hello ::
  "('r, 'x, 'dk, 'ek) kex_prims \<Rightarrow> bytes \<Rightarrow> wasm_error + 'ek client_hello" where
  "wasm_parse_server_hello K b =
    (if length (take 32 b) \<noteq> 32 then Err (WasmHandshakeError ''X25519 key parse failed'')
     else if length (take 1184 (drop 32 b)) \<noteq> 1184 then Err (WasmHandshakeError ''ML-KEM EK parse failed'')
     else if length (drop (32 + 1184) b) \<noteq> 32 then Err (WasmHandshakeError ''nonce parse failed'')
     else Ok \<lparr>hello_x25519_public = take 32 b,
              hello_kem_encap_key = ek_from_bytes K (take 1184 (drop 32 b)),
              hello_nonce = drop (32 + 1184) b\<rparr>)"

definition wasm_parse_server_hello_signed ::
  "sig_prims \<Rightarrow> ('r, 'x, 'dk, 'ek) kex_prims \<Rightarrow> bytes \<Rightarrow> bytes \<Rightarrow> wasm_error + 'ek client_hello" where
  "wasm_parse_server_hello_signed G K b vk_bytes =
    (let hello_bytes = take 1248 b
     in case wasm_sig_from_bytes (drop 1248 b) of
          Err e \<Rightarrow> Err e
        | Ok s \<Rightarrow> (case wasm_vk_from_bytes vk_bytes of
            Err e \<Rightarrow> Err e
          | Ok vk \<Rightarrow>
              if mldsa_verify G (vk_to_bytes vk) hello_bytes WASM_SIGNING_CONTEXT (sig_to_bytes s)
              then wasm_parse_server_hello K hello_bytes
              else Err (WasmHandshakeError ''server authentication failed'')))"

definition wasm_client_respond ::
  "sym_prims \<Rightarrow> ('r, 'x, 'dk, 'ek) kex_prims \<Rightarrow> 'ek client_hello \<Rightarrow> 'r \<Rightarrow> (wasm_error + bytes \<times> bytes) \<times> 'r" where
  "wasm_client_respond S K hello r =
    (let (secret, r1) = x25519_random K r;
         public = x25519_public K secret;
         x25519_shared = x25519_dh K secret (hello_x25519_public hello)
     in case kem_encapsulate K (hello_kem_encap_key hello) r1 of
          (None, r2) \<Rightarrow> (Err (WasmHandshakeError ''ML-KEM encapsulation failed''), r2)
        | (Some (ct, kem_shared), r2) \<Rightarrow>
            (case wasm_derive_session_key S x25519_shared kem_shared (hello_nonce hello) of
               Err e \<Rightarrow> (Err e, r2)
             | Ok key \<Rightarrow> (Ok (public @ ct, key), r2)))"

definition generate_client_response ::
  "sym_prims \<Rightarrow> sig_prims \<Rightarrow> ('r, 'x, 'dk, 'ek) kex_prims \<Rightarrow> bytes \<Rightarrow> bytes \<Rightarrow> 'r \<Rightarrow>
   (wasm_error + bytes \<times> bytes) \<times> 'r" where
  "generate_client_response S G K server_hello_signed server_vk_bytes r =
    (if length server_hello_signed \<noteq> 4557
     then (Err (WasmHandshakeError (''server_hello_signed must be '' @ dec 4557 @ '' bytes, got '' @
             dec (length server_hello_signed))), r)
     else if length server_vk_bytes \<noteq> 1952
     then (Err (WasmInvalidKeyLength 1952 (length server_vk_bytes)), r)
     else case wasm_parse_server_hello_signed G K server_hello_signed server_vk_bytes of
            Err e \<Rightarrow> (Err e, r)
          | Ok hello \<Rightarrow> wasm_client_respond S K hello r)"

section \<open>Exports\<close>

record 'o js_prims =
  js_object_new :: 'o
  js_reflect_set :: "'o \<Rightarrow> string \<Rightarrow> bytes \<Rightarrow> js_value + 'o"

definition js_pair :: "'o js_prims \<Rightarrow> string \<Rightarrow> bytes \<Rightarrow> string \<Rightarrow> bytes \<Rightarrow> js_value + 'o" where
  "js_pair J k1 v1 k2 v2 = (case js_reflect_set J (js_object_new J) k1 v1 of
      Err e \<Rightarrow> Err (wasm_into_js (wasm_from_js e))
    | Ok obj \<Rightarrow> map_err (wasm_into_js \<circ> wasm_from_js) (js_reflect_set J obj k2 v2))"

definition wasm_generate_keypair ::
  "'o js_prims \<Rightarrow> sig_prims \<Rightarrow> ('r, 'x, 'dk, 'ek) kex_prims \<Rightarrow> 'r \<Rightarrow> (js_value + 'o) \<times> 'r" where
  "wasm_generate_keypair J G K r =
    (let ((sk, vk), r') = wasm_crypto_generate_keypair G K r
     in (js_pair J ''sk'' (sk_to_bytes sk) ''vk'' (vk_to_bytes vk), r'))"

definition wasm_sign ::
  "sig_prims \<Rightarrow> ('r, 'x, 'dk, 'ek) kex_prims \<Rightarrow> bytes \<Rightarrow> bytes \<Rightarrow> 'r \<Rightarrow> (js_value + bytes) \<times> 'r" where
  "wasm_sign G K sk_bytes msg r =
    (if length sk_bytes \<noteq> 4032
     then (Err (wasm_into_js (WasmInvalidKeyLength 4032 (length sk_bytes))), r)
     else (let (res, r') = sign_msg G K sk_bytes msg r in (map_err wasm_into_js res, r')))"

definition wasm_verify :: "sig_prims \<Rightarrow> bytes \<Rightarrow> bytes \<Rightarrow> bytes \<Rightarrow> js_value + unit" where
  "wasm_verify G vk_bytes msg sig_bytes =
    (if length vk_bytes \<noteq> 1952
     then Err (wasm_into_js (WasmInvalidKeyLength 1952 (length vk_bytes)))
     else map_err wasm_into_js (verify_msg G vk_bytes msg sig_bytes))"

definition wasm_generate_client_response ::
  "'o js_prims \<Rightarrow> sym_prims \<Rightarrow> sig_prims \<Rightarrow> ('r, 'x, 'dk, 'ek) kex_prims \<Rightarrow> bytes \<Rightarrow> bytes \<Rightarrow> 'r \<Rightarrow>
   (js_value + 'o) \<times> 'r" where
  "wasm_generate_client_response J S G K server_hello_signed server_vk_bytes r =
    (case generate_client_response S G K server_hello_signed server_vk_bytes r of
       (Err e, r') \<Rightarrow> (Err (wasm_into_js e), r')
     | (Ok (cr_bytes, sk_bytes), r') \<Rightarrow>
         (js_pair J ''client_response'' cr_bytes ''session_key'' sk_bytes, r'))"

section \<open>Equivalence with the native crate\<close>

text \<open>How the native errors show up in the browser.\<close>

fun wasm_handshake_error :: "handshake_error \<Rightarrow> wasm_error" where
  "wasm_handshake_error EncapsulateFailed = WasmHandshakeError ''ML-KEM encapsulation failed''"
| "wasm_handshake_error HkdfFailed = WasmHandshakeError ''HKDF expansion failed''"
| "wasm_handshake_error AuthenticationFailed = WasmHandshakeError ''server authentication failed''"
| "wasm_handshake_error DecapsulateFailed = WasmHandshakeError []"
| "wasm_handshake_error ClientAuthFailed = WasmHandshakeError []"

lemma wasm_derive_eq:
  "wasm_derive_session_key S a b n =
     (case derive_session_key S a b n of Err e \<Rightarrow> Err (wasm_handshake_error e) | Ok k \<Rightarrow> Ok (key_as_bytes k))"
  by (simp add: wasm_derive_session_key_def derive_session_key_def WASM_HKDF_INFO_def HKDF_INFO_def
      SESSION_KEY_LEN_def split: option.splits)

lemma wasm_client_respond_eq:
  "wasm_client_respond S K hello r = (case client_respond S K hello r of
      (Err e, r') \<Rightarrow> (Err (wasm_handshake_error e), r')
    | (Ok (resp, key), r') \<Rightarrow> (Ok (serialize_client_response resp, key_as_bytes key), r'))"
proof -
  obtain x r1 where x: "x25519_random K r = (x, r1)" by fastforce
  obtain o1 r2 where e: "kem_encapsulate K (hello_kem_encap_key hello) r1 = (o1, r2)" by fastforce
  show ?thesis
    using x e by (simp add: wasm_client_respond_def client_respond_def wasm_derive_eq
        serialize_client_response_def split: option.splits sum.splits prod.splits)
qed

lemma wasm_parse_signed_eq:
  assumes "length b = 4557" "length vkb = 1952"
  shows "wasm_parse_server_hello_signed G K b vkb =
    (case parse_server_hello_signed G K b (VerifyingKey vkb) of
       Err e \<Rightarrow> Err (wasm_handshake_error e) | Ok h \<Rightarrow> Ok h)"
proof -
  have l: "length b = SERVER_HELLO_SIGNED_LEN" using assms(1) by (simp add: layout_defs)
  show ?thesis unfolding parse_server_hello_signed_iff [OF l] using assms
    by (simp add: wasm_parse_server_hello_signed_def wasm_parse_server_hello_def parse_server_hello_def
        wasm_sig_from_bytes_def wasm_vk_from_bytes_def verify_def Let_def layout_defs
        WASM_SIGNING_CONTEXT_def SIGNING_CONTEXT_def)
qed

text \<open>C19. The browser client is the native client: on a 4557-byte signed ServerHello and a
  1952-byte key, the WASM entry point returns what the native parse, response and serialisation
  return with the same randomness, byte for byte, and the native failure as its own error.\<close>

theorem wasm_client_equals_native:
  assumes "length hello_signed = 4557" and "length vk_bytes = 1952"
  shows "generate_client_response S G K hello_signed vk_bytes r =
    (case parse_server_hello_signed G K hello_signed (VerifyingKey vk_bytes) of
       Err e \<Rightarrow> (Err (wasm_handshake_error e), r)
     | Ok hello \<Rightarrow> (case client_respond S K hello r of
         (Err e, r') \<Rightarrow> (Err (wasm_handshake_error e), r')
       | (Ok (resp, key), r') \<Rightarrow> (Ok (serialize_client_response resp, key_as_bytes key), r')))"
  using assms by (simp add: generate_client_response_def wasm_parse_signed_eq wasm_client_respond_eq
      split: sum.splits)

theorem wasm_client_equals_native_witness:
  "fst (generate_client_response toy_sym toy_sig toy_kex (replicate 4557 0) (replicate 1952 1) 5) =
     Err (WasmHandshakeError ''server authentication failed'')"
proof -
  let ?b = "replicate 4557 (0 :: byte)" and ?v = "replicate 1952 (1 :: byte)"
  have l: "length ?b = SERVER_HELLO_SIGNED_LEN" by (simp add: layout_defs)
  have "take 8 (drop 1248 ?b) = replicate 8 0" by simp
  moreover have "take 8 (toy_signature (take 8 ?v) m ctx) = replicate 8 1" for m ctx
    by (simp add: toy_signature_def pad_to_id)
  ultimately have "drop 1248 ?b \<noteq> toy_signature (take 8 ?v) m ctx" for m ctx
    by (metis replicate_eq_replicate zero_neq_numeral zero_neq_one)
  then have "parse_server_hello_signed toy_sig toy_kex ?b (VerifyingKey ?v) = Err AuthenticationFailed"
    unfolding parse_server_hello_signed_iff [OF l] by (simp add: verify_def toy_sig_def layout_defs)
  with wasm_client_equals_native [of ?b ?v toy_sym toy_sig toy_kex 5] show ?thesis by simp
qed

text \<open>Signatures interoperate: the browser verifies exactly the signatures the native crate
  verifies, refusing every other key or signature length, and for a key of the right length it
  signs to the same bytes from the same randomness.\<close>

theorem wasm_signatures_interoperate:
  "(verify_msg G vkb m sb = Ok ()) =
      (\<exists>vk s. vk_from_bytes vkb = Ok vk \<and> sig_from_bytes sb = Ok s \<and> verify G vk m s = Ok ()) \<and>
   sign_msg G K skb m r = (case sk_from_bytes skb of
      Err _ \<Rightarrow> (Err (WasmInvalidKeyLength 4032 (length skb)), r)
    | Ok sk \<Rightarrow> (case sign G K sk m r of
        (Err _, r') \<Rightarrow> (Err WasmSignError, r') | (Ok s, r') \<Rightarrow> (Ok (sig_to_bytes s), r')))"
proof
  show "(verify_msg G vkb m sb = Ok ()) =
      (\<exists>vk s. vk_from_bytes vkb = Ok vk \<and> sig_from_bytes sb = Ok s \<and> verify G vk m s = Ok ())"
    by (simp add: verify_msg_def wasm_vk_from_bytes_def wasm_sig_from_bytes_def vk_from_bytes_def
        sig_from_bytes_def verify_def WASM_SIGNING_CONTEXT_def SIGNING_CONTEXT_def layout_defs)
  show "sign_msg G K skb m r = (case sk_from_bytes skb of
      Err _ \<Rightarrow> (Err (WasmInvalidKeyLength 4032 (length skb)), r)
    | Ok sk \<Rightarrow> (case sign G K sk m r of
        (Err _, r') \<Rightarrow> (Err WasmSignError, r') | (Ok s, r') \<Rightarrow> (Ok (sig_to_bytes s), r')))"
    by (cases "fill_bytes K 32 r") (simp add: sign_msg_def wasm_sk_from_bytes_def sk_from_bytes_def sign_def
        WASM_SIGNING_CONTEXT_def SIGNING_CONTEXT_def layout_defs split: option.splits)
qed

end
