(* ===== verification/Spec2Isabelle.thy ===== *)
theory Spec2Isabelle
  imports Conversation Client_Run Secrets Deploy Bridge_Run Transport Wasm
begin

text \<open>
  LatticeShield: a verification development of the Rust workspace under \<^verbatim>\<open>src/\<close>.

  LatticeShield puts a post-quantum channel between a client and a TCP service. The \<^emph>\<open>bridge\<close> accepts
  connections, runs a hybrid handshake (X25519, ML-KEM-768, signatures with ML-DSA-65), and relays bytes
  between the encrypted channel and a backend; it also terminates TLS, QUIC and WebSocket connections,
  hands out its verifying key with one-time tokens, executes commands of a control plane over an
  authenticated admin channel, and reports to a cloud endpoint. The \<^emph>\<open>client proxy\<close> accepts local
  connections and speaks the same protocol to the bridge; a browser client does it in WebAssembly. A
  command line tool manages keys and asks the bridge for tokens.

  \<^bold>\<open>Theories and sources\<close> (paths under \<^verbatim>\<open>src/latticeshield-*/src\<close>).

  \<^item> \<open>Prelude\<close>, \<open>Interfaces\<close>: byte strings, big-endian integers, \<open>Result\<close> as a sum, the reading and
    writing halves of a connection; the contracts \<open>replay_guard\<close>, \<open>ordered_link\<close>, \<open>slot_table\<close>,
    \<open>capped_listener\<close> and \<open>sized_loader\<close> as locales, each interpreted on the model's own operations.
  \<^item> \<open>Crypto_Prims\<close>: the third-party primitives (AES-GCM, HKDF, SHA-256, ML-DSA, X25519, ML-KEM, the
    random source) as records of functions, their documented laws as predicates, and a toy instance that
    satisfies the laws.
  \<^item> \<open>Channel\<close>, \<open>Channel_Props\<close>: \<^verbatim>\<open>crypto/channel.rs\<close>. Framing, replay check and key rotation with the
    counters at their width. \<open>Transport\<close>: the same reads over any reader that satisfies the locale
    \<open>byte_reader\<close>, interpreted for a byte stream and for the WebSocket adapter.
  \<^item> \<open>Signing\<close>, \<open>Handshake\<close>: \<^verbatim>\<open>crypto/signing.rs\<close>, \<^verbatim>\<open>crypto/handshake.rs\<close>, both sides and the wire
    formats. \<open>Wasm\<close>: \<^verbatim>\<open>wasm/*.rs\<close>, the browser client. \<open>Secrets\<close>: the life of a signing key in memory (boxing,
    \<open>mlock\<close>, wiping, \<open>munlock\<close>) and the debug output of keys.
  \<^item> \<open>Net\<close>: address parsing and the per-IP caps of \<^verbatim>\<open>bridge/server.rs\<close> and \<^verbatim>\<open>bridge/ws.rs\<close>. \<open>Ws\<close>: origins and
    the stream adapter of \<^verbatim>\<open>bridge/ws.rs\<close>. \<open>Identity\<close>: key files (\<^verbatim>\<open>bridge/identity.rs\<close>,
    \<^verbatim>\<open>client/identity.rs\<close>). \<open>Vk_Share\<close>: \<^verbatim>\<open>bridge/vk_share.rs\<close>. \<open>Metrics\<close>: \<^verbatim>\<open>bridge/metrics.rs\<close>.
    \<open>Bridge_Config\<close>: \<^verbatim>\<open>bridge/config.rs\<close>, sections, defaults and validation. \<open>Config_File\<close>, \<open>Client_File\<close>:
    the default functions and the decoding of a TOML document into \<open>Config\<close> and \<open>ClientConfig\<close> (locale
    \<open>section_decoder\<close>, interpreted for each section), and the debug output of \<open>ValidConfig\<close>.
  \<^item> \<open>Session\<close>, \<open>Session_Props\<close>: \<^verbatim>\<open>bridge/session.rs\<close>, a session as a state machine driven by the arms of
    its \<open>select!\<close>.
  \<^item> \<open>Admin\<close>: \<^verbatim>\<open>bridge/admin.rs\<close>, with the JSON form of commands and responses and the tasks of several connections
    under a schedule. \<open>Control_Plane\<close>: \<^verbatim>\<open>bridge/control_plane.rs\<close>. \<open>Http_Relay\<close>:
    \<^verbatim>\<open>bridge/http_relay.rs\<close> and the stream relay of \<^verbatim>\<open>bridge/quic.rs\<close>. \<open>Tls\<close>: \<^verbatim>\<open>bridge/tls.rs\<close> and
    \<open>build_endpoint\<close> of \<^verbatim>\<open>bridge/quic.rs\<close>.
  \<^item> \<open>Server\<close>, \<open>Server_Props\<close>: \<^verbatim>\<open>bridge/server.rs\<close>: start-up, routing of TLS connections, WebSocket
    connections, commands, metrics endpoints, shutdown. \<open>Listeners\<close>: the accept loops of the PQC, TLS,
    QUIC, WebSocket and admin listeners as step functions. \<open>Bridge_Run\<close>: the running bridge, its accept loops
    and connection tasks in every interleaving, with the metrics, the rotation channel and the shutdown
    signal they share.
  \<^item> \<open>Client_Config\<close>, \<open>Pool\<close>, \<open>Client_Session\<close>, \<open>Client_Session_Props\<close>: \<^verbatim>\<open>client/config.rs\<close>,
    \<^verbatim>\<open>client/pool.rs\<close>, \<^verbatim>\<open>client/client_session.rs\<close>. \<open>Client_Run\<close>: the running client proxy, the accept loop of
    \<^verbatim>\<open>client/server.rs\<close>, its sessions and the warming task in every interleaving over the pool they share.
  \<^item> \<open>Cli\<close>, \<open>Deploy\<close>: \<^verbatim>\<open>cli/main.rs\<close>, \<^verbatim>\<open>bridge/main.rs\<close>, \<^verbatim>\<open>client/main.rs\<close>, \<^verbatim>\<open>client/server.rs\<close>; \<open>Deploy\<close> has
    the entry points and a deployment made with them.
  \<^item> \<open>End_To_End\<close>, \<open>Conversation\<close> and this theory: the bridge and the client proxy connected to each other, the
    two directions of the channel together (a second interpretation of \<open>ordered_link\<close>), and a whole connection
    from the handshake through the turns of a conversation.

  \<^bold>\<open>How the code is represented.\<close> A struct is a record, an enum a datatype, an error a value of a sum
  type; operations take their state and return it. The reading half of a connection is the list of the
  bytes (or of the results of the reads) that will arrive, the writing half records what was sent and may
  break. A \<open>select!\<close> or a pair of concurrent tasks is a list of events or a schedule, and the theorems
  quantify over it. Clocks, random values, the file system and the outcomes of the operating system are
  inputs. Counters that can wrap are words.

  \<^bold>\<open>What is shown.\<close> The channel delivers what was sent, in order, through rotations. Against an attacker it
  delivers nothing that was not sealed under the session key, no number twice and nothing late; what it delivers
  comes from the peer in order, or was reflected, or is the nonce of a rotation frame, since both
  directions and both kinds of frame share the key. Nonces of one endpoint never repeat. Honest
  parties agree on a session key; altered or transplanted handshake messages are refused; the browser
  client computes the same as the native one. A session forwards to the backend only what was sealed under the key of
  its epoch, and seals less than \<open>max_bytes_per_key\<close> and one frame of the backend's data under each key. What the backend sends reaches the user and what the user sends
  reaches the backend, through both relay loops and the channel between them; from the handshake on, a whole
  conversation, with rotations while no frame of the client is in flight, is delivered both ways; and the channel works the same over WebSocket
  messages. A running client hands no connection to the bridge to two attempts and keeps its pool within
  \<open>warm_size\<close>. A signing key that shares no page with another stays in locked memory until it has been wiped. A rotation command reaches every session of a running bridge, the gauges count
  exactly the active sessions, and after a shutdown signal every running TCP session is awaited. Keys made
  with the tool and copied to both sides let bridge and client start and recognise each other, and a
  configuration written to a file, with or without what is at its default, is read back. Start-up never panics on a
  validated configuration, gives the bridge exactly the keys, services and listeners the file asks for, and required client authentication is enforced from the file to the wire. Tokens
  are single-use over all listeners, the tool's request for one is executed when its number is new and printed as answered,
  admin commands of connections handled in turn are executed at most once and all only when signed,
  commands of the cloud need a fresh signature, per-IP caps, rate limits, store sizes and delays are
  bounded, the reconnect loop ends and never retries after an authentication failure. Several theorems
  state where the code does less than its comments say: nonces are shared by the two directions, a
  dropped read desynchronises a session, a rotation refuses frames in flight, two concurrent admin
  commands can share a number, an unreadable cloud key switches verification off, the HTTP relay loses the
  response of a half-closed connection, draining takes one timeout per session, a pool can be left with
  connections after shutdown, and dropping a key unlocks the pages it shares with a key still in use.

  \<^bold>\<open>Parameters.\<close> The cryptographic primitives, the text syntax of JSON and TOML, the codecs of the control plane and base64, the URL, PEM and HTTP
  parsers, the results of HTTP requests and the memory locks of the operating system are parameters. A theorem that needs a law of one of them names
  it as a hypothesis, and its witness instantiates it.

  \<^bold>\<open>Loops.\<close> All loops over inputs are structural recursions on the list of reads, events or attempts, so
  every function is total; a result such as \<open>Running\<close> or \<open>RelayRunning\<close> means that the inputs ended
  before the loop did, and the liveness theorems state which inputs make it end.

  \<^bold>\<open>Not modelled.\<close> Argument parsing, the text of messages and logging; the registration of signal handlers
  (a signal is an event) and the runtime's scheduler (every interleaving is allowed); the copies
  of a secret that the compiler or a library leaves on the stack; the TLS, QUIC and WebSocket protocols of the libraries; the interior of \<open>axum\<close>; relays of
  the TLS and QUIC listeners are modelled one connection at a time and not interleaved with each other, as
  they share no state but the token store and the per-IP tables; the JavaScript SDK, the tests, the benchmarks and the
  deployment files.
\<close>

section \<open>Bridge and client\<close>

text \<open>C3. The bridge and the client proxy complete the handshake with each other: the bytes the bridge
  sends do not depend on what it receives; given them, the client opens a channel, and given the
  client's answer (followed by anything) the bridge derives the key of that channel and leaves the
  rest of the stream untouched, so the two fresh channels are in step in both directions. This
  holds with and without client authentication; signing is assumed to have produced a signature.\<close>

theorem bridge_and_client_agree:
  assumes "sig_laws G" "kex_laws K" "kem_total K" "hkdf_laws S" "paired G K ctx vk ident"
    and "handshake_phase S G K ctx cin open_writer r = (res, rest, w, r')" "\<nexists>e. res = Err (SeHello e)"
    and "do_handshake S G K vk ident cfg (w_sent w) open_writer q = (cres, bin, bw, q')"
    and "\<nexists>e. cres = Err (HsTransport (ResponseSigning e))"
  shows "\<exists>key. cres = Ok (channel_new (key_as_bytes key) (vcc_max_frame_size cfg)) \<and>
     handshake_phase S G K ctx (w_sent bw @ extra) open_writer r = (Ok key, extra, w, r') \<and>
     in_step (channel_new (key_as_bytes key) m) (channel_new (key_as_bytes key) m')"
proof -
  from assms obtain key where key: "cres = Ok (channel_new (key_as_bytes key) (vcc_max_frame_size cfg))"
    "\<forall>extra. handshake_phase S G K ctx (w_sent bw @ extra) open_writer r = (Ok key, extra, w, r')" "length (key_as_bytes key) = 32"
    by (rule handshakes_agree) blast
  with new_channels_in_step [OF key(3)] show ?thesis by blast
qed

text \<open>A handshake with the toy primitives.\<close>

lemma toy_handshake:
  obtains ctx vk res rest w r' cres bin bw where "paired toy_sig toy_kex ctx vk None"
    "handshake_phase toy_sym toy_sig toy_kex ctx [] open_writer 3 = (res, rest, w, r')" "\<nexists>e. res = Err (SeHello e)"
    "do_handshake toy_sym toy_sig toy_kex vk None demo_client_config (w_sent w) open_writer 50 = (cres, bin, bw, 52)"
    "\<nexists>e. cres = Err (HsTransport (ResponseSigning e))" "bin = []"
proof -
  obtain sk vk a where kp: "generate_keypair toy_sig toy_kex 1 = ((sk, vk), a)" by (metis prod.exhaust)
  let ?ctx = "\<lparr>ctx_identity = \<lparr>signing_key = sk, verifying_key = vk\<rparr>, ctx_client_auth = None\<rparr>"
  have p: "paired toy_sig toy_kex ?ctx vk None" using kp by (auto simp: paired_def)
  obtain res rest w r' where h: "handshake_phase toy_sym toy_sig toy_kex ?ctx [] open_writer 3 = (res, rest, w, r')"
    by (metis prod.exhaust)
  obtain hs r1 where hs: "server_handshake_new toy_kex 3 = (hs, r1)" by fastforce
  note wf = server_handshake_new_wf [OF toy_kex_laws(1) hs]
  obtain wire r2 where wire: "server_hello_signed_bytes toy_sig toy_kex hs sk r1 = (Ok wire, r2)"
    using wf by (rule toy_server_hello_signed)
  from h hs wire have ne: "\<nexists>e. res = Err (SeHello e)"
    by (auto simp: handshake_phase_def map_err_Err_iff split: prod.splits sum.splits option.splits)
  from h hs wire have ww: "w_sent w = wire"
    by (auto simp: handshake_phase_def write_flush_open split: option.splits)
  obtain cres bin bw q' where d: "do_handshake toy_sym toy_sig toy_kex vk None demo_client_config (w_sent w) open_writer 50 = (cres, bin, bw, q')"
    by (metis prod.exhaust)
  have ns: "\<nexists>e. cres = Err (HsTransport (ResponseSigning e))" using d
    by (auto simp: do_handshake_def response_bytes_def Let_def split: option.splits sum.splits prod.splits)
  have hs': "server_hello_signed_bytes toy_sig toy_kex hs (signing_key (ctx_identity ?ctx)) r1 = (Ok (w_sent w), r2)"
    using wire ww by simp
  from client_hello_answer [OF toy_sig_laws(1) toy_kex_laws toy_sym_laws(4) p hs hs' d ns]
  obtain resp key q1 where "client_respond toy_sym toy_kex (server_client_hello toy_kex hs) 50 = (Ok (resp, key), q1)"
    "response_bytes toy_sig toy_kex None resp (server_hello_raw hs) q1 = (Ok (w_sent bw), q')" and b: "bin = []" .
  then have "q' = 52" by (auto simp: client_respond_def response_bytes_def toy_kex_def Let_def split: sum.splits)
  with that [OF p h ne, of cres bin bw] d ns b show ?thesis by blast
qed

theorem bridge_and_client_agree_witness:
  "\<exists>ctx vk key w r' bw. do_handshake toy_sym toy_sig toy_kex vk None demo_client_config (w_sent w) open_writer 50 =
       (Ok (channel_new (key_as_bytes key) 65536), [], bw, 52) \<and>
     handshake_phase toy_sym toy_sig toy_kex ctx (w_sent bw @ [1, 2]) open_writer 3 = (Ok key, [1, 2], w, r')"
proof -
  obtain ctx vk res rest w r' cres bin bw where t: "paired toy_sig toy_kex ctx vk None"
    "handshake_phase toy_sym toy_sig toy_kex ctx [] open_writer 3 = (res, rest, w, r')" "\<nexists>e. res = Err (SeHello e)"
    "do_handshake toy_sym toy_sig toy_kex vk None demo_client_config (w_sent w) open_writer 50 = (cres, bin, bw, 52)"
    "\<nexists>e. cres = Err (HsTransport (ResponseSigning e))" "bin = []" by (rule toy_handshake)
  have mf: "vcc_max_frame_size demo_client_config = 65536" by (simp add: demo_client_config_def)
  from bridge_and_client_agree [OF toy_sig_laws(1) toy_kex_laws toy_sym_laws(4) t(1-5), of "[1, 2]" 0 0]
  obtain key where "cres = Ok (channel_new (key_as_bytes key) 65536)"
    "handshake_phase toy_sym toy_sig toy_kex ctx (w_sent bw @ [1, 2]) open_writer 3 = (Ok key, [1, 2], w, r')"
    unfolding mf by blast
  with t show ?thesis by blast
qed

text \<open>C4. A whole connection, from the handshake to the last byte: bridge and client complete the handshake,
  enter their relay loops with the channels it gave them, and then any conversation in which user and backend
  take turns, in chunks that fit the frames of both sides, is delivered: the backend has received exactly what the user sent, the user
  exactly what the backend sent, both in order and completely, and both loops are ready for more. Key rotations by timer, byte budget or
  command may fall anywhere in the backend's turns, so whenever no frame of the client is in flight; one that falls
  while such a frame is in flight ends the session instead, and so does a read that is dropped in the middle of a
  frame (both in \<open>Session_Props\<close>). The connections do not break, and fewer than \<open>2^64\<close> frames are sent.\<close>

theorem whole_connection_delivers:
  assumes "prim_laws S" "sig_laws G" "kex_laws K" "kem_total K" "paired G K ctx vk ident"
    and "handshake_phase S G K ctx cin open_writer r = (res, rest, w, r')" "\<nexists>e. res = Err (SeHello e)"
    and "do_handshake S G K vk ident ccfg (w_sent w) open_writer q = (cres, bin, bw, q')"
    and "\<nexists>e. cres = Err (HsTransport (ResponseSigning e))"
    and "\<forall>t \<in> set ts. turn_ok (vc_max_frame_size cfg) (vcc_max_frame_size ccfg) t" "sum_list (map turn_frames ts) < 2 ^ 64"
  shows "\<exists>key ch st rl. handshake_phase S G K ctx (w_sent bw) open_writer r = (Ok key, [], w, r') \<and> cres = Ok ch \<and>
     conversation S cfg (opened_session cfg key [] w open_writer m) (opened_relay ch bin bw open_writer) ts st rl \<and>
     w_sent (ss_backend_w st) = concat (map turn_up ts) \<and> w_sent (rl_user_w rl) = concat (map turn_down ts) \<and>
     between_turns S 0 st rl"
proof -
  from assms(1) have hk: "hkdf_laws S" by (simp add: prim_laws_def)
  from assms(2-4) hk assms(5-9) obtain key where key: "cres = Ok (channel_new (key_as_bytes key) (vcc_max_frame_size ccfg))" "bin = []"
    "\<forall>extra. handshake_phase S G K ctx (w_sent bw @ extra) open_writer r = (Ok key, extra, w, r')" "length (key_as_bytes key) = 32"
    by (rule handshakes_agree) blast
  let ?st = "opened_session cfg key [] w open_writer m"
  let ?rl = "opened_relay (channel_new (key_as_bytes key) (vcc_max_frame_size ccfg)) bin bw open_writer"
  have "between_turns S (sum_list (map turn_frames ts)) ?st ?rl"
    using duplex_new [OF assms(1) key(4) assms(11)] handshake_writers(1) [OF assms(6)] handshake_writers(2) [OF assms(8)] key(2)
    by (simp add: between_turns_def opened_session_def opened_relay_def client_open_def)
  moreover have "\<forall>t \<in> set ts. turn_ok (max_frame_size (ss_channel ?st)) (max_frame_size (rl_channel ?rl)) t"
    using assms(10) by (simp add: opened_session_def opened_relay_def channel_new_def)
  ultimately obtain st rl where "conversation S cfg ?st ?rl ts st rl" "between_turns S 0 st rl"
    "w_sent (ss_backend_w st) = w_sent (ss_backend_w ?st) @ concat (map turn_up ts)"
    "w_sent (rl_user_w rl) = w_sent (rl_user_w ?rl) @ concat (map turn_down ts)"
    using turns_delivered [of S ts ?st ?rl cfg] by blast
  with key(1) spec [OF key(3), of "[]"] show ?thesis
    by (auto simp: opened_session_def opened_relay_def)
qed

definition demo_turns :: "turn list" where
  "demo_turns = [UserTurn [[1, 2], [3]] [demo_event ClientFrame, demo_event ClientFrame],
     BackendTurn [demo_event (BackendRead (Ok [7]) 0), demo_event (RotationTick 0), demo_event (BackendRead (Ok [8, 9]) 0)],
     UserTurn [[4]] [demo_event ClientFrame]]"

theorem whole_connection_delivers_witness:
  "\<exists>key w bw ch st rl. conversation toy_sym demo_cfg (opened_session demo_cfg key [] w open_writer metrics_init)
       (opened_relay ch [] bw open_writer) demo_turns st rl \<and>
     w_sent (ss_backend_w st) = [1, 2, 3, 4] \<and> w_sent (rl_user_w rl) = [7, 8, 9]"
proof -
  obtain ctx vk res rest w r' cres bin bw where t: "paired toy_sig toy_kex ctx vk None"
    "handshake_phase toy_sym toy_sig toy_kex ctx [] open_writer 3 = (res, rest, w, r')" "\<nexists>e. res = Err (SeHello e)"
    "do_handshake toy_sym toy_sig toy_kex vk None demo_client_config (w_sent w) open_writer 50 = (cres, bin, bw, 52)"
    "\<nexists>e. cres = Err (HsTransport (ResponseSigning e))" "bin = []" by (rule toy_handshake)
  have "\<forall>t \<in> set demo_turns. turn_ok (vc_max_frame_size demo_cfg) (vcc_max_frame_size demo_client_config) t"
    by (simp add: demo_turns_def demo_cfg_def demo_client_config_def demo_event_def event_down_def channel_new_def)
  moreover have "sum_list (map turn_frames demo_turns) < 2 ^ 64" by (simp add: demo_turns_def)
  ultimately obtain key ch st rl where "conversation toy_sym demo_cfg (opened_session demo_cfg key [] w open_writer metrics_init)
       (opened_relay ch bin bw open_writer) demo_turns st rl"
    "w_sent (ss_backend_w st) = concat (map turn_up demo_turns)" "w_sent (rl_user_w rl) = concat (map turn_down demo_turns)"
    using whole_connection_delivers [OF demo_laws toy_sig_laws(1) toy_kex_laws t(1-5), of demo_turns demo_cfg metrics_init] by blast
  moreover have "concat (map turn_up demo_turns) = [1, 2, 3, 4]" "concat (map turn_down demo_turns) = [7, 8, 9]"
    by (simp_all add: demo_turns_def demo_event_def)
  ultimately show ?thesis using t(6) by fastforce
qed

text \<open>C5. From the backend to the user: two relay loops whose channels are in step, over connections
  that do not break. Whatever the bridge reads from the backend, in chunks that fit a frame, and however
  rotations by byte budget, timer or command fall between the chunks, no turn of the bridge's loop
  fails, and the client's loop hands exactly the concatenation of the chunks to the user, consumes
  the whole stream and is in step with the bridge again.\<close>

theorem backend_bytes_reach_the_user:
  assumes "prim_laws S" "in_step (ss_channel st) (rl_channel rl)"
    and "unat (send_seq (ss_channel st)) + 2 * length evs < 2 ^ 64"
    and "\<forall>ev \<in> set evs. event_down (op_valid (rl_channel rl)) ev"
    and "client_open st" "w_budget (rl_user_w rl) = None"
  shows "\<exists>st' wire n rl'. session_run S cfg st evs = (Running, st') \<and>
     w_sent (ss_client_w st') = w_sent (ss_client_w st) @ wire \<and>
     run_relay S (rl\<lparr>rl_bridge_in := wire\<rparr>) (replicate n BridgeFrame) = (Relaying, rl') \<and>
     w_sent (rl_user_w rl') = w_sent (rl_user_w rl) @ concat (map (\<lambda>ev. ev_payload (ev_arm ev)) evs) \<and>
     rl_bridge_in rl' = [] \<and> in_step (ss_channel st') (rl_channel rl')"
proof -
  have "chan_link S (0 + 2 * length evs) (ss_channel st) (rl_channel rl)" using assms(1-3) by (simp add: chan_link_def)
  from run_down [OF this assms(4,5)] obtain st' ops x where
    st': "session_run S cfg st evs = (Running, st')" and x: "sends S st ops x st'" and l: "length ops \<le> 2 * length evs"
    and p: "concat (map op_payload ops) = concat (map (\<lambda>ev. ev_payload (ev_arm ev)) evs)"
    and v: "\<forall>y \<in> set ops. op_valid (rl_channel rl) y" by blast
  have "chan_link S (length ops) (ss_channel st) (rl_channel rl)" using assms(1-3) l by (simp add: chan_link_def)
  from send_ops_delivery [OF this v] x obtain r' where r': "in_step (ss_channel st') r'"
    "recv_ops S (length ops) (rl_channel rl) x = Some (map op_image ops, r', [])"
    by (auto simp: sends_def chan_link_def dest: spec [of _ "[]"])
  from relay_recv_ops [of S "length ops" "rl\<lparr>rl_bridge_in := x\<rparr>"] r'(2) assms(6)
  have "run_relay S (rl\<lparr>rl_bridge_in := x\<rparr>) (replicate (length ops) BridgeFrame) =
     (Relaying, rl\<lparr>rl_channel := r', rl_bridge_in := [],
        rl_user_w := (rl_user_w rl)\<lparr>w_sent := w_sent (rl_user_w rl) @ concat (map op_payload ops)\<rparr>\<rparr>)"
    by (simp add: comp_def)
  with st' x r' p show ?thesis
    by (intro exI [of _ st'] exI [of _ x] exI [of _ "length ops"]) (auto simp: sends_def)
qed

definition demo_relay :: relay where
  "demo_relay = \<lparr>rl_channel = channel_new demo_key 65536, rl_bridge_in = [], rl_bridge_w = open_writer,
     rl_bridge_closed = False, rl_user_w = open_writer, rl_user_eof = False\<rparr>"

lemma demo_in_step: "in_step (channel_new demo_key 65536) (channel_new demo_key 65536)"
  by (rule new_channels_in_step) (simp add: demo_key_def)

theorem backend_bytes_reach_the_user_witness:
  "\<exists>st' wire n rl'. session_run toy_sym demo_cfg (demo_session [])
       (map demo_event [BackendRead (Ok [1, 2]) 0, RotationTick 0, BackendRead (Ok [3]) 0]) = (Running, st') \<and>
     run_relay toy_sym (demo_relay\<lparr>rl_bridge_in := wire\<rparr>) (replicate n BridgeFrame) = (Relaying, rl') \<and>
     w_sent (rl_user_w rl') = [1, 2, 3] \<and> in_step (ss_channel st') (rl_channel rl')"
proof -
  let ?evs = "map demo_event [BackendRead (Ok [1, 2]) 0, RotationTick 0, BackendRead (Ok [3]) 0]"
  have "in_step (ss_channel (demo_session [])) (rl_channel demo_relay)"
    using demo_in_step by (simp add: demo_session_def demo_relay_def)
  moreover have "unat (send_seq (ss_channel (demo_session []))) + 2 * length ?evs < 2 ^ 64"
    by (simp add: demo_session_def channel_new_def)
  moreover have "\<forall>ev \<in> set ?evs. event_down (op_valid (rl_channel demo_relay)) ev"
    by (simp add: event_down_def demo_event_def demo_relay_def channel_new_def)
  moreover have "client_open (demo_session [])" "w_budget (rl_user_w demo_relay) = None" "w_sent (rl_user_w demo_relay) = []"
    by (simp_all add: client_open_def demo_session_def demo_relay_def)
  ultimately show ?thesis
    using backend_bytes_reach_the_user [OF demo_laws, of "demo_session []" demo_relay ?evs demo_cfg]
    by (fastforce simp: demo_event_def)
qed

text \<open>From the user to the backend: under the same conditions, what the client's loop reads from the
  user in non-empty chunks that fit a frame arrives at the backend as the concatenation of the chunks.\<close>

theorem user_bytes_reach_the_backend:
  assumes "prim_laws S" "in_step (rl_channel rl) (ss_channel st)"
    and "unat (send_seq (rl_channel rl)) + length ds < 2 ^ 64"
    and "\<forall>d \<in> set ds. d \<noteq> [] \<and> op_valid (ss_channel st) (SendData d) \<and> length d \<le> max_frame_size (rl_channel rl)"
    and "w_budget (rl_bridge_w rl) = None" "w_flush_ok (rl_bridge_w rl)" "\<not> rl_user_eof rl"
    and "w_budget (ss_backend_w st) = None"
    and "length evs = length ds" "\<forall>ev \<in> set evs. ev_arm ev = ClientFrame"
  shows "\<exists>rl' wire st'. run_relay S rl (map (\<lambda>d. UserRead (Ok d) 0) ds) = (Relaying, rl') \<and>
     w_sent (rl_bridge_w rl') = w_sent (rl_bridge_w rl) @ wire \<and>
     session_run S cfg (st\<lparr>ss_client_in := wire\<rparr>) evs = (Running, st') \<and>
     w_sent (ss_backend_w st') = w_sent (ss_backend_w st) @ concat ds \<and>
     ss_client_in st' = [] \<and> in_step (rl_channel rl') (ss_channel st')"
proof -
  have lk: "chan_link S (0 + length ds) (rl_channel rl) (ss_channel st)" using assms(1-3) by (simp add: chan_link_def)
  from relay_user_reads [OF lk] assms(4-7) obtain x ch' where
    x: "send_ops S (rl_channel rl) (map SendData ds) = Some (x, ch')"
    and run: "run_relay S rl (map (\<lambda>d. UserRead (Ok d) 0) ds) = (Relaying, rl\<lparr>rl_channel := ch',
       rl_bridge_w := (rl_bridge_w rl)\<lparr>w_sent := w_sent (rl_bridge_w rl) @ x\<rparr>\<rparr>)" by blast
  have "chan_link S (length (map SendData ds)) (rl_channel rl) (ss_channel st)" using lk by simp
  moreover have "\<forall>y \<in> set (map SendData ds). op_valid (ss_channel st) y" using assms(4) by auto
  ultimately obtain r' where r': "in_step ch' r'" "recv_ops S (length ds) (ss_channel st) x = Some (map Data ds, r', [])"
    using send_ops_delivery [of S "map SendData ds" "rl_channel rl" "ss_channel st"] x
    by (auto simp: chan_link_def comp_def dest: spec [of _ "[]"])
  have ne: "\<forall>d \<in> set ds. d \<noteq> []" using assms(4) by blast
  from session_recv_ops [of S ds "st\<lparr>ss_client_in := x\<rparr>" r' "[]" evs cfg] r'(2) assms(8-10) ne
  have "session_run S cfg (st\<lparr>ss_client_in := x\<rparr>) evs = (Running, st\<lparr>ss_channel := r', ss_client_in := [],
     ss_backend_w := (ss_backend_w st)\<lparr>w_sent := w_sent (ss_backend_w st) @ concat ds\<rparr>\<rparr>)" by simp
  with run r' show ?thesis
    by (intro exI [of _ "rl\<lparr>rl_channel := ch', rl_bridge_w := (rl_bridge_w rl)\<lparr>w_sent := w_sent (rl_bridge_w rl) @ x\<rparr>\<rparr>"]
        exI [of _ x]) auto
qed

theorem user_bytes_reach_the_backend_witness:
  "\<exists>rl' wire st'. run_relay toy_sym demo_relay [UserRead (Ok [7, 8]) 0, UserRead (Ok [9]) 0] = (Relaying, rl') \<and>
     session_run toy_sym demo_cfg (demo_session []\<lparr>ss_client_in := wire\<rparr>) [demo_event ClientFrame, demo_event ClientFrame] =
       (Running, st') \<and> w_sent (ss_backend_w st') = [7, 8, 9]"
proof -
  let ?ds = "[[7, 8], [9]] :: bytes list" and ?evs = "[demo_event ClientFrame, demo_event ClientFrame]"
  have "in_step (rl_channel demo_relay) (ss_channel (demo_session []))"
    using demo_in_step by (simp add: demo_session_def demo_relay_def)
  moreover have "unat (send_seq (rl_channel demo_relay)) + length ?ds < 2 ^ 64"
    by (simp add: demo_relay_def channel_new_def)
  moreover have "\<forall>d \<in> set ?ds. d \<noteq> [] \<and> op_valid (ss_channel (demo_session [])) (SendData d) \<and>
      length d \<le> max_frame_size (rl_channel demo_relay)"
    by (simp add: demo_relay_def demo_session_def channel_new_def)
  moreover have "w_budget (rl_bridge_w demo_relay) = None" "w_flush_ok (rl_bridge_w demo_relay)" "\<not> rl_user_eof demo_relay"
    "w_budget (ss_backend_w (demo_session [])) = None" "w_sent (ss_backend_w (demo_session [])) = []"
    by (simp_all add: demo_relay_def demo_session_def)
  moreover have "length ?evs = length ?ds" "\<forall>ev \<in> set ?evs. ev_arm ev = ClientFrame" by (simp_all add: demo_event_def)
  ultimately show ?thesis
    using user_bytes_reach_the_backend [OF demo_laws, of demo_relay "demo_session []" ?ds ?evs demo_cfg] by fastforce
qed

end
